(* ===== verification/Prelude.thy ===== *)
theory Prelude
  imports Main "HOL-Library.Word" "HOL-Library.Signed_Division"
begin

text \<open>
  Shared vocabulary of the development: the type of runs that may fail (use of freed memory,
  a call of \<^verbatim>\<open>exit\<close>, fuel that ran out), its sequencing operator and laws, arithmetic facts
  about C's truncating division and about 64-bit sizes, list facts for the queues, and the
  locale of systems with an inductive invariant.
\<close>

section \<open>Collections and types\<close>

named_theorems res_simps "laws of the sequencing operator on fallible runs"
named_theorems live_simps "dereferences that succeed under the well-formedness invariant"
named_theorems frame_simps "fields that an operation leaves unchanged"
named_theorems inv_intros "operations that preserve the well-formedness invariant"

type_synonym size_t = "64 word"
type_synonym uint64 = "64 word"

text \<open>
  A fallible run: \<open>Inl\<close> is a failure. \<open>UseAfterFree\<close> is a read through a pointer whose target
  has been freed (undefined behaviour in C), \<open>Exited\<close> is \<^verbatim>\<open>log_fatal\<close>/\<^verbatim>\<open>true_or_exit\<close>
  (src/common.h), \<open>OutOfFuel\<close> marks a loop that has not finished within the given fuel.
\<close>

datatype fault = UseAfterFree | Exited | OutOfFuel

type_synonym 'a res = "fault + 'a"

definition bindR :: "'a res \<Rightarrow> ('a \<Rightarrow> 'b res) \<Rightarrow> 'b res" where
  "bindR m f = (case m of Inl e \<Rightarrow> Inl e | Inr x \<Rightarrow> f x)"

lemma bindR_Inr [simp, res_simps]: "bindR (Inr x) f = f x"
  by (simp add: bindR_def)

lemma bindR_Inl [simp, res_simps]: "bindR (Inl e) f = Inl e"
  by (simp add: bindR_def)

lemma bindR_Inr_iff [res_simps]: "bindR m f = Inr y \<longleftrightarrow> (\<exists>x. m = Inr x \<and> f x = Inr y)"
  by (cases m) (simp_all add: bindR_def)

lemma bindR_assoc: "bindR (bindR m f) g = bindR m (\<lambda>x. bindR (f x) g)"
  by (cases m) (simp_all add: bindR_def)

lemma bindR_cong [fundef_cong]:
  "m = m' \<Longrightarrow> (\<And>x. m' = Inr x \<Longrightarrow> f x = f' x) \<Longrightarrow> bindR m f = bindR m' f'"
  by (cases m') (simp_all add: bindR_def)

lemma bindR_split:
  "P (bindR m f) \<longleftrightarrow> (\<forall>e. m = Inl e \<longrightarrow> P (Inl e)) \<and> (\<forall>x. m = Inr x \<longrightarrow> P (f x))"
  by (cases m) (simp_all add: bindR_def)

text \<open>
  Approximation of runs by fuel: \<open>fuel_le a b\<close> says that \<open>b\<close> is \<open>a\<close> unless \<open>a\<close> ran out of
  fuel. Operations written over an open recursive call are monotone in it.
\<close>

definition fuel_le :: "'a res \<Rightarrow> 'a res \<Rightarrow> bool" where
  "fuel_le a b \<longleftrightarrow> a = Inl OutOfFuel \<or> a = b"

lemma fuel_le_refl [simp, intro]: "fuel_le a a"
  by (simp add: fuel_le_def)

lemma fuel_le_bot [simp, intro]: "fuel_le (Inl OutOfFuel) b"
  by (simp add: fuel_le_def)

lemma fuel_le_bindR:
  "fuel_le a b \<Longrightarrow> (\<And>x. fuel_le (f x) (g x)) \<Longrightarrow> fuel_le (bindR a f) (bindR b g)"
  by (cases a) (fastforce simp: fuel_le_def bindR_def)+

lemma fuel_le_Inr: "fuel_le a b \<Longrightarrow> a = Inr x \<Longrightarrow> b = Inr x"
  by (auto simp: fuel_le_def)

section \<open>Integers\<close>

text \<open>C's integer division truncates; on non-negative operands it is \<open>div\<close>.\<close>

lemma sdiv_pos [simp]: "0 \<le> a \<Longrightarrow> 0 \<le> b \<Longrightarrow> (a::int) sdiv b = a div b"
  by (cases "a = 0 \<or> b = 0") (auto simp: signed_divide_int_def)

lemma sdiv_nonneg: "0 \<le> (a::int) \<Longrightarrow> 0 \<le> b \<Longrightarrow> 0 \<le> a sdiv b"
  by (simp add: pos_imp_zdiv_nonneg_iff div_int_pos_iff)

lemma sdiv_le_self: "0 \<le> (a::int) \<Longrightarrow> 1 \<le> b \<Longrightarrow> a sdiv b \<le> a"
  using zdiv_mono2 [of a 1 b] by simp

lemma percent_le: "0 \<le> (a::int) \<Longrightarrow> 0 \<le> p \<Longrightarrow> p \<le> 100 \<Longrightarrow> a * p sdiv 100 \<le> a"
proof -
  assume a: "0 \<le> a" "0 \<le> p" "p \<le> 100"
  have "a * p \<le> a * 100" using a by (simp add: mult_left_mono)
  then have "a * p div 100 \<le> a" by (simp add: zdiv_mono1 [of "a * p" "a * 100" 100, simplified])
  then show ?thesis using a by simp
qed

text \<open>Conversion of an unbounded integer to a C \<^verbatim>\<open>int\<close> (32 bits, two's complement).\<close>

definition to_int32 :: "int \<Rightarrow> int" where
  "to_int32 x = (x + 2 ^ 31) mod 2 ^ 32 - 2 ^ 31"

lemma to_int32_id: "- (2 ^ 31) \<le> x \<Longrightarrow> x < 2 ^ 31 \<Longrightarrow> to_int32 x = x"
  by (simp add: to_int32_def)

lemma to_int32_range: "- (2 ^ 31) \<le> to_int32 x \<and> to_int32 x < 2 ^ 31"
  using pos_mod_bound [of "2 ^ 32" "x + 2 ^ 31"] by (simp add: to_int32_def)

section \<open>Lists\<close>

lemma sum_list_remove1:
  "x \<in> set xs \<Longrightarrow> sum_list (map f (remove1 x xs)) + f x = sum_list (map (f :: 'a \<Rightarrow> 'b::comm_monoid_add) xs)"
  by (induction xs) (auto simp: add.commute add.left_commute)

lemma sum_list_map_cong: "(\<And>x. x \<in> set xs \<Longrightarrow> f x = g x) \<Longrightarrow> sum_list (map f xs) = sum_list (map g xs)"
  by (induction xs) auto

lemma filter_id_conv': "(\<And>x. x \<in> set xs \<Longrightarrow> P x) \<Longrightarrow> filter P xs = xs"
  by (induction xs) auto

section \<open>Systems with an inductive invariant\<close>

text \<open>
  A component with state offers its start states, its steps and the invariant that its
  operations keep; what clients use of it is that every state of every run satisfies the
  invariant.
\<close>

locale invariant_system =
  fixes start :: "'s \<Rightarrow> bool"
    and step :: "'s \<Rightarrow> 's \<Rightarrow> bool"
    and inv :: "'s \<Rightarrow> bool"
  assumes inv_start: "start s \<Longrightarrow> inv s"
    and inv_step: "inv s \<Longrightarrow> step s t \<Longrightarrow> inv t"
begin

lemma inv_run: "step\<^sup>*\<^sup>* s t \<Longrightarrow> inv s \<Longrightarrow> inv t"
  by (induction rule: rtranclp_induct) (auto intro: inv_step)

lemma inv_reachable: "start s \<Longrightarrow> step\<^sup>*\<^sup>* s t \<Longrightarrow> inv t"
  using inv_start inv_run by blast

end

end
