(* ===== verification/CStd.thy ===== *)
theory CStd
  imports Prelude
begin

text \<open>
  The functions of the C standard library that the sources call on strings and numbers:
  \<^verbatim>\<open>strtol\<close>/\<^verbatim>\<open>strtoll\<close> (base 0, 10 and 16, with the end pointer and the \<^verbatim>\<open>ERANGE\<close> flag),
  \<^verbatim>\<open>atoi\<close>, \<^verbatim>\<open>strncmp\<close>, \<^verbatim>\<open>strcasecmp\<close>, \<^verbatim>\<open>strchr\<close>, \<^verbatim>\<open>strstr\<close> and the \<^verbatim>\<open>%d\<close>, \<^verbatim>\<open>%zu\<close>
  and \<^verbatim>\<open>%016lx\<close> conversions. A C string is the list of its characters without the
  terminating NUL. The lemmas are the print/parse round trips the protocol relies on.
\<close>

abbreviation NUL :: char where
  "NUL \<equiv> CHR 0x00"

section \<open>Characters and digits\<close>

definition isspace :: "char \<Rightarrow> bool" where
  "isspace c \<longleftrightarrow> c = CHR '' '' \<or> (9 \<le> (of_char c :: nat) \<and> (of_char c :: nat) \<le> 13)"

text \<open>The value of a digit in any base up to 36; 255 for every other character.\<close>

definition digit_of :: "char \<Rightarrow> nat" where
  "digit_of c = (let n = (of_char c :: nat) in
     if 48 \<le> n \<and> n \<le> 57 then n - 48
     else if 97 \<le> n \<and> n \<le> 122 then n - 87
     else if 65 \<le> n \<and> n \<le> 90 then n - 55 else 255)"

definition digit_char :: "nat \<Rightarrow> char" where
  "digit_char d = (if d < 10 then char_of (48 + d) else char_of (87 + d))"

definition tolower :: "char \<Rightarrow> char" where
  "tolower c = (let n = (of_char c :: nat) in if 65 \<le> n \<and> n \<le> 90 then char_of (n + 32) else c)"

lemma digit_of_char [simp]: "d < 36 \<Longrightarrow> digit_of (digit_char d) = d"
  by (auto simp: digit_of_def digit_char_def Let_def of_char_of)

lemma digit_char_not_space [simp]: "d < 36 \<Longrightarrow> \<not> isspace (digit_char d)"
proof -
  assume d: "d < 36"
  have "of_char (CHR '' '') = (32::nat)" by simp
  moreover have "of_char (digit_char d) = (if d < 10 then 48 + d else 87 + d)"
    using d by (simp add: digit_char_def of_char_of)
  ultimately show ?thesis unfolding isspace_def by (auto split: if_splits)
qed

lemma digit_char_not_sign [simp]:
  assumes "d < 36" shows "digit_char d \<noteq> CHR ''-''" "digit_char d \<noteq> CHR ''+''" "digit_char d \<noteq> NUL"
proof -
  have v: "of_char (digit_char d) = (if d < 10 then 48 + d else 87 + d)"
    using assms by (simp add: digit_char_def of_char_of)
  have "of_char (CHR ''-'') = (45::nat)" "of_char (CHR ''+'') = (43::nat)" "of_char NUL = (0::nat)"
    by simp_all
  with v show "digit_char d \<noteq> CHR ''-''" "digit_char d \<noteq> CHR ''+''" "digit_char d \<noteq> NUL"
    by (auto split: if_splits)
qed

section \<open>Printing numbers\<close>

fun show_base :: "nat \<Rightarrow> nat \<Rightarrow> string" where
  "show_base b n = (if n < b \<or> b < 2 then [digit_char n] else show_base b (n div b) @ [digit_char (n mod b)])"

declare show_base.simps [simp del]

text \<open>\<^verbatim>\<open>%zu\<close>, \<^verbatim>\<open>%d\<close> and \<^verbatim>\<open>%016lx\<close>.\<close>

definition show_nat :: "nat \<Rightarrow> string" where
  "show_nat n = show_base 10 n"

definition show_int :: "int \<Rightarrow> string" where
  "show_int i = (if i < 0 then CHR ''-'' # show_nat (nat (- i)) else show_nat (nat i))"

fun fixed_digits :: "nat \<Rightarrow> nat \<Rightarrow> nat \<Rightarrow> string" where
  "fixed_digits b 0 n = []"
| "fixed_digits b (Suc k) n = fixed_digits b k (n div b) @ [digit_char (n mod b)]"

definition hex16 :: "uint64 \<Rightarrow> string" where
  "hex16 w = fixed_digits 16 16 (unat w)"

section \<open>Parsing numbers\<close>

definition digits_val :: "nat \<Rightarrow> string \<Rightarrow> nat" where
  "digits_val b ds = foldl (\<lambda>a c. a * b + digit_of c) 0 ds"

record strtol_result =
  st_val :: int
  st_rest :: string
  st_erange :: bool

definition LONG_MAX :: int where
  "LONG_MAX = 2 ^ 63 - 1"

definition LONG_MIN :: int where
  "LONG_MIN = - (2 ^ 63)"

text \<open>Optional sign, base prefix for base 0 and 16, longest run of digits; the end pointer is
  the start of the input when no digit was found; out-of-range values saturate.\<close>

definition strip_sign :: "string \<Rightarrow> bool \<times> string" where
  "strip_sign s = (case s of [] \<Rightarrow> (False, [])
     | c # cs \<Rightarrow> if c = CHR ''-'' then (True, cs) else if c = CHR ''+'' then (False, cs) else (False, s))"

definition has_hex_prefix :: "string \<Rightarrow> bool" where
  "has_hex_prefix s = (case s of c # x # d # _ \<Rightarrow>
      c = CHR ''0'' \<and> (x = CHR ''x'' \<or> x = CHR ''X'') \<and> digit_of d < 16 | _ \<Rightarrow> False)"

definition strip_base :: "nat \<Rightarrow> string \<Rightarrow> nat \<times> string" where
  "strip_base b s =
     (if (b = 0 \<or> b = 16) \<and> has_hex_prefix s then (16, drop 2 s)
      else if b = 0 then (case s of c # _ \<Rightarrow> if c = CHR ''0'' then (8, s) else (10, s) | [] \<Rightarrow> (10, s))
      else (b, s))"

definition strtol :: "nat \<Rightarrow> string \<Rightarrow> strtol_result" where
  "strtol base s =
     (let (neg, s1) = strip_sign (dropWhile isspace s);
          (b, s2) = strip_base base s1;
          ds = takeWhile (\<lambda>c. digit_of c < b) s2;
          v = (if neg then - int (digits_val b ds) else int (digits_val b ds))
      in if ds = [] then \<lparr>st_val = 0, st_rest = s, st_erange = False\<rparr>
         else \<lparr>st_val = max LONG_MIN (min LONG_MAX v), st_rest = dropWhile (\<lambda>c. digit_of c < b) s2,
               st_erange = (v < LONG_MIN \<or> v > LONG_MAX)\<rparr>)"

definition atoi :: "string \<Rightarrow> int" where
  "atoi s = to_int32 (st_val (strtol 10 s))"

section \<open>Comparing and searching strings\<close>

definition strncmp_eq :: "string \<Rightarrow> string \<Rightarrow> nat \<Rightarrow> bool" where
  "strncmp_eq a b n \<longleftrightarrow> take n a = take n b"

definition strcasecmp_eq :: "string \<Rightarrow> string \<Rightarrow> bool" where
  "strcasecmp_eq a b \<longleftrightarrow> map tolower a = map tolower b"

text \<open>\<open>getenv\<close> is the environment of the process. \<open>from_env\<close> is the pattern
  \<^verbatim>\<open>val = getenv(name); if (val) { ... }\<close>: an unset variable leaves the configuration.\<close>

definition from_env :: "(string \<Rightarrow> string option) \<Rightarrow> string \<Rightarrow> (string \<Rightarrow> 'c \<Rightarrow> 'c) \<Rightarrow> 'c \<Rightarrow> 'c" where
  "from_env getenv name f c = (case getenv name of None \<Rightarrow> c | Some v \<Rightarrow> f v c)"

text \<open>The searches return the rest of the string from the match, as the C pointer does.\<close>

fun strchr :: "string \<Rightarrow> char \<Rightarrow> string option" where
  "strchr [] c = None"
| "strchr (x # xs) c = (if x = c then Some (x # xs) else strchr xs c)"

fun is_prefix :: "string \<Rightarrow> string \<Rightarrow> bool" where
  "is_prefix [] ys = True"
| "is_prefix (x # xs) [] = False"
| "is_prefix (x # xs) (y # ys) = (x = y \<and> is_prefix xs ys)"

section \<open>Lemmas\<close>

lemma is_prefix_iff: "is_prefix xs ys \<longleftrightarrow> take (length xs) ys = xs"
  by (induction xs ys rule: is_prefix.induct) auto

lemma is_prefix_append [simp]: "is_prefix xs (xs @ ys)"
  by (simp add: is_prefix_iff)

lemma strchr_append: "c \<notin> set xs \<Longrightarrow> strchr (xs @ c # ys) c = Some (c # ys)"
  by (induction xs) auto

lemma strchr_None_iff: "strchr xs c = None \<longleftrightarrow> c \<notin> set xs"
  by (induction xs) auto

lemma strchr_Some_drop:
  "strchr xs c = Some ys \<Longrightarrow> \<exists>pre. xs = pre @ ys \<and> c \<notin> set pre \<and> ys \<noteq> [] \<and> hd ys = c"
proof (induction xs)
  case (Cons x xs)
  show ?case
  proof (cases "x = c")
    case False
    with Cons obtain pre where "xs = pre @ ys \<and> c \<notin> set pre \<and> ys \<noteq> [] \<and> hd ys = c" by auto
    with False have "x # xs = (x # pre) @ ys \<and> c \<notin> set (x # pre) \<and> ys \<noteq> [] \<and> hd ys = c" by simp
    then show ?thesis by blast
  qed (use Cons in auto)
qed simp

lemma takeWhile_NUL: "NUL \<notin> set s \<Longrightarrow> takeWhile (\<lambda>c. c \<noteq> NUL) (s @ NUL # ys) = s"
  by (induction s) auto

lemma digits_val_append: "digits_val b (ds @ [c]) = digits_val b ds * b + digit_of c"
  by (simp add: digits_val_def)

lemma last_digit:
  assumes "2 \<le> b" "b \<le> 36"
  shows "n mod b < b" "digit_of (digit_char (n mod b)) = n mod b"
proof -
  show "n mod b < b" using assms by simp
  then have "n mod b < 36" using assms by linarith
  then show "digit_of (digit_char (n mod b)) = n mod b" by simp
qed

lemma show_base_digits:
  assumes "2 \<le> b" "b \<le> 36"
  shows "set (show_base b n) \<subseteq> {c. \<exists>d < b. c = digit_char d} \<and> show_base b n \<noteq> []
    \<and> digits_val b (show_base b n) = n"
  using assms
proof (induction b n rule: show_base.induct)
  case (1 b n)
  show ?case
  proof (cases "n < b")
    case True
    with 1(2,3) show ?thesis by (auto simp: show_base.simps [of b n] digits_val_def)
  next
    case False
    with 1 have IH: "set (show_base b (n div b)) \<subseteq> {c. \<exists>d < b. c = digit_char d}"
      "digits_val b (show_base b (n div b)) = n div b" by auto
    have eq: "show_base b n = show_base b (n div b) @ [digit_char (n mod b)]"
      using False 1(2) by (simp add: show_base.simps [of b n])
    show ?thesis using IH last_digit [OF 1(2,3), of n]
      by (fastforce simp: eq digits_val_append)
  qed
qed

lemma fixed_digits_val:
  assumes "2 \<le> b" "b \<le> 36"
  shows "n < b ^ k \<Longrightarrow> set (fixed_digits b k n) \<subseteq> {c. \<exists>d < b. c = digit_char d}
    \<and> length (fixed_digits b k n) = k \<and> digits_val b (fixed_digits b k n) = n"
proof (induction k arbitrary: n)
  case (Suc k)
  have "n div b < b ^ k" using Suc.prems by (simp add: less_mult_imp_div_less mult.commute)
  with Suc.IH [of "n div b"] last_digit [OF assms, of n] show ?case
    by (fastforce simp: digits_val_append)
qed (simp add: digits_val_def)

lemma takeWhile_digits:
  assumes "set ds \<subseteq> {c. \<exists>d < b. c = digit_char d}" "b \<le> 36"
  shows "takeWhile (\<lambda>c. digit_of c < b) ds = ds" "dropWhile (\<lambda>c. digit_of c < b) ds = []"
proof -
  have "\<forall>c \<in> set ds. digit_of c < b"
    using assms by (fastforce simp: order.strict_trans2 digit_of_char)
  then show "takeWhile (\<lambda>c. digit_of c < b) ds = ds" "dropWhile (\<lambda>c. digit_of c < b) ds = []"
    by simp_all
qed

lemma strip_digits:
  assumes "set ds \<subseteq> {c. \<exists>d < b. c = digit_char d}" "b \<le> 36" "ds \<noteq> []"
  shows "dropWhile isspace ds = ds" "strip_sign ds = (False, ds)"
proof -
  obtain c cs where ds: "ds = c # cs" using assms(3) by (cases ds) auto
  with assms(1) obtain d where "d < b" "c = digit_char d" by auto
  with assms(2) have "d < 36" "c = digit_char d" by auto
  with ds show "dropWhile isspace ds = ds" "strip_sign ds = (False, ds)"
    by (simp_all add: strip_sign_def)
qed

text \<open>Decimal printing is undone by \<^verbatim>\<open>strtol\<close> with base 10.\<close>

lemma strtol10_show_nat:
  assumes "int n \<le> LONG_MAX"
  shows "strtol 10 (show_nat n) = \<lparr>st_val = int n, st_rest = [], st_erange = False\<rparr>"
proof -
  let ?ds = "show_base 10 n"
  have ds: "set ?ds \<subseteq> {c. \<exists>d < 10. c = digit_char d}" "?ds \<noteq> []" "digits_val 10 ?ds = n"
    using show_base_digits [of 10 n] by auto
  have tw: "takeWhile (\<lambda>c. digit_of c < 10) ?ds = ?ds" "dropWhile (\<lambda>c. digit_of c < 10) ?ds = []"
    using takeWhile_digits [OF ds(1)] by simp_all
  have sd: "dropWhile isspace ?ds = ?ds" "strip_sign ?ds = (False, ?ds)"
    using strip_digits [OF ds(1) _ ds(2)] by simp_all
  show ?thesis using assms ds
    by (simp add: tw sd strtol_def show_nat_def strip_base_def LONG_MIN_def Let_def)
qed

lemma atoi_show_nat: "n < 2 ^ 31 \<Longrightarrow> atoi (show_nat n) = int n"
  using strtol10_show_nat [of n] by (simp add: atoi_def to_int32_id LONG_MAX_def)

end
