(* ===== verification/Common.thy ===== *)
theory Common
  imports CStd
begin

text \<open>
  src/common.c and src/common.h: \<open>strlcpy\<close> on a destination buffer, the blocking transfer
  loops \<open>write_whole\<close> and \<open>read_whole\<close> over system calls that may be interrupted or partial,
  and \<open>timespecsub\<close>. The results of the system calls are lists of outcomes supplied by the
  kernel; an exhausted list is a call that blocks.
\<close>

section \<open>strlcpy\<close>

definition src_at :: "string \<Rightarrow> nat \<Rightarrow> char" where
  "src_at src i = (if i < length src then src ! i else NUL)"

text \<open>The copying loop: \<open>while (--nleft != 0) if ((*dst++ = *src++) == 0) break;\<close>. It returns
  the remaining count, the buffer and the common offset of both pointers.\<close>

fun strlcpy_loop :: "nat \<Rightarrow> char list \<Rightarrow> nat \<Rightarrow> string \<Rightarrow> nat \<times> char list \<times> nat" where
  "strlcpy_loop 0 dst i src = (0, dst, i)"
| "strlcpy_loop (Suc nleft) dst i src =
     (if nleft = 0 then (0, dst, i)
      else let c = src_at src i; dst' = dst[i := c]
           in if c = NUL then (nleft, dst', Suc i) else strlcpy_loop nleft dst' (Suc i) src)"

text \<open>\<open>while (*src++);\<close> returns the offset behind the terminating NUL.\<close>

function skip_src :: "string \<Rightarrow> nat \<Rightarrow> nat" where
  "skip_src src i = (if src_at src i = NUL then Suc i else skip_src src (Suc i))"
  by pat_completeness auto
termination
  by (relation "measure (\<lambda>(src, i). length src - i)") (auto simp: src_at_def split: if_splits)

declare skip_src.simps [simp del]

definition strlcpy :: "char list \<Rightarrow> string \<Rightarrow> nat \<Rightarrow> char list \<times> nat" where
  "strlcpy dst src dsize =
     (let (nleft, d, i) = (if dsize \<noteq> 0 then strlcpy_loop dsize dst 0 src else (0, dst, 0)) in
      if nleft = 0
      then (if dsize \<noteq> 0 then d[i := NUL] else d, skip_src src i - 1)
      else (d, i - 1))"

text \<open>The C string held by a buffer.\<close>

definition cstr :: "char list \<Rightarrow> string" where
  "cstr buf = takeWhile (\<lambda>c. c \<noteq> NUL) buf"

text \<open>Fields of fixed size filled by \<open>strlcpy\<close>: the value of the field is the truncated source.\<close>

definition strlcpy_field :: "nat \<Rightarrow> string \<Rightarrow> string" where
  "strlcpy_field n src = take (n - 1) src"

lemma skip_src_eq: "NUL \<notin> set src \<Longrightarrow> i \<le> length src \<Longrightarrow> skip_src src i = Suc (length src)"
proof (induction src i rule: skip_src.induct)
  case (1 src i)
  show ?case
  proof (cases "i < length src")
    case True
    then have "src_at src i \<noteq> NUL" using 1(2) by (metis nth_mem src_at_def)
    with 1 True show ?thesis by (simp add: skip_src.simps [of src i])
  next
    case False
    with 1(3) have "i = length src" by simp
    then show ?thesis by (simp add: skip_src.simps [of src "length src"] src_at_def)
  qed
qed

text \<open>What the copying loop does from offset \<open>i\<close>: either the source ended within the room left,
  and it has been copied with its terminator, or the room is used up.\<close>

lemma strlcpy_loop_spec:
  assumes "NUL \<notin> set src" "0 < nleft" "i + nleft \<le> length dst" "i \<le> length src"
    "take i dst = take i src"
  shows "(if length src - i < nleft - 1
     then \<exists>d n. strlcpy_loop nleft dst i src = (n, d, Suc (length src)) \<and> 0 < n
            \<and> length d = length dst \<and> take (Suc (length src)) d = src @ [NUL]
     else \<exists>d. strlcpy_loop nleft dst i src = (0, d, i + (nleft - 1)) \<and> length d = length dst
            \<and> take (i + (nleft - 1)) d = take (i + (nleft - 1)) src)"
  using assms
proof (induction nleft dst i src rule: strlcpy_loop.induct)
  case (2 nleft dst i src)
  show ?case
  proof (cases "nleft = 0")
    case False
    let ?d = "dst[i := src_at src i]"
    have i: "i < length dst" using 2(4) by simp
    show ?thesis
    proof (cases "i < length src")
      case True
      have c: "src_at src i = src ! i" "src_at src i \<noteq> NUL"
        using True 2(2) by (auto simp: src_at_def) (metis nth_mem)
      have tk: "take (Suc i) ?d = take (Suc i) src"
        using True i 2(6) c by (simp add: take_Suc_conv_app_nth)
      have eq: "strlcpy_loop (Suc nleft) dst i src = strlcpy_loop nleft ?d (Suc i) src"
        using False c by (simp add: Let_def)
      have "0 < nleft" "Suc i + nleft \<le> length ?d" "Suc i \<le> length src"
        using False 2(4) True by auto
      note IH = 2(1) [OF False refl refl c(2) 2(2) this tk]
      show ?thesis
      proof (cases "length src - i < nleft")
        case True
        then have "length src - Suc i < nleft - 1" using \<open>i < length src\<close> by linarith
        with IH True show ?thesis unfolding eq by simp
      next
        case False
        then have "\<not> length src - Suc i < nleft - 1" using \<open>0 < nleft\<close> by linarith
        with IH False \<open>0 < nleft\<close> show ?thesis unfolding eq by simp
      qed
    next
      case fin: False
      then have "i = length src" "src_at src i = NUL" using 2(5) by (auto simp: src_at_def)
      with False 2 i show ?thesis
        by (auto simp: Let_def take_Suc_conv_app_nth)
    qed
  qed (use 2 in auto)
qed simp

text \<open>The buffer holds the source truncated to \<open>dsize - 1\<close> characters and the result is the
  length of the source.\<close>

lemma strlcpy_correct:
  assumes "NUL \<notin> set src" "0 < dsize" "dsize \<le> length dst"
  shows "cstr (fst (strlcpy dst src dsize)) = strlcpy_field dsize src
    \<and> snd (strlcpy dst src dsize) = length src
    \<and> length (fst (strlcpy dst src dsize)) = length dst"
proof -
  have nn: "takeWhile (\<lambda>c. c \<noteq> NUL) (take k src @ NUL # ys) = take k src" for k ys
    using assms(1) by (metis in_set_takeD takeWhile_NUL)
  show ?thesis
  proof (cases "length src < dsize - 1")
    case True
    then obtain d n where d: "strlcpy_loop dsize dst 0 src = (n, d, Suc (length src))" "0 < n"
      "length d = length dst" "take (Suc (length src)) d = src @ [NUL]"
      using strlcpy_loop_spec [OF assms(1,2), of 0 dst] assms by auto
    have "d = src @ NUL # drop (Suc (length src)) d"
      using append_take_drop_id [of "Suc (length src)" d] d(4) by simp
    then have "cstr d = src" using nn [of "length src"] by (metis cstr_def take_all_iff order_refl)
    with d True assms show ?thesis by (simp add: strlcpy_def strlcpy_field_def)
  next
    case False
    then obtain d where d: "strlcpy_loop dsize dst 0 src = (0, d, dsize - 1)"
      "length d = length dst" "take (dsize - 1) d = take (dsize - 1) src"
      using strlcpy_loop_spec [OF assms(1,2), of 0 dst] assms by auto
    have "d[dsize - 1 := NUL] = take (dsize - 1) src @ NUL # drop dsize d"
      using assms d(2,3) by (simp add: upd_conv_take_nth_drop)
    with nn have "cstr (d[dsize - 1 := NUL]) = take (dsize - 1) src" by (simp add: cstr_def)
    with d False assms show ?thesis
      by (simp add: strlcpy_def strlcpy_field_def skip_src_eq)
  qed
qed

lemma strlcpy_zero: "NUL \<notin> set src \<Longrightarrow> strlcpy dst src 0 = (dst, length src)"
  by (simp add: strlcpy_def skip_src_eq)

lemma strlcpy_field_length: "0 < n \<Longrightarrow> length (strlcpy_field n s) < n"
  by (simp add: strlcpy_field_def)

lemma strlcpy_field_id: "length s < n \<Longrightarrow> strlcpy_field n s = s"
  by (simp add: strlcpy_field_def)

lemma strlcpy_field_idem: "strlcpy_field n (strlcpy_field n s) = strlcpy_field n s"
  by (simp add: strlcpy_field_def)

section \<open>Transfer loops\<close>

type_synonym byte = "8 word"

datatype errno = EINTR | EAGAIN | EWOULDBLOCK | ECONNRESET | EPIPE | ECONNABORTED | ENOENT | EEXIST
  | EOTHER nat

text \<open>One system call: an error, or the number of bytes a \<open>write\<close> took, or the bytes a \<open>read\<close>
  delivered (none at end of file).\<close>

datatype wcall = WErr errno | WOk nat
datatype rcall = RErr errno | ROk "byte list"

text \<open>\<^verbatim>\<open>RETRY_INTR\<close>: the first outcome that is not an interruption, with the outcomes left.\<close>

fun retry_write :: "wcall list \<Rightarrow> (wcall \<times> wcall list) option" where
  "retry_write [] = None"
| "retry_write (WErr EINTR # cs) = retry_write cs"
| "retry_write (c # cs) = Some (c, cs)"

fun retry_read :: "rcall list \<Rightarrow> (rcall \<times> rcall list) option" where
  "retry_read [] = None"
| "retry_read (RErr EINTR # cs) = retry_read cs"
| "retry_read (c # cs) = Some (c, cs)"

lemma retry_write_shorter: "retry_write cs = Some (c, cs') \<Longrightarrow> length cs' < length cs"
  by (induction cs rule: retry_write.induct) auto

lemma retry_read_shorter: "retry_read cs = Some (c, cs') \<Longrightarrow> length cs' < length cs"
  by (induction cs rule: retry_read.induct) auto

text \<open>\<open>write_whole\<close> returns the error of the failing call or success, the bytes that reached
  the kernel, and the outcomes left; \<open>None\<close> when it blocks.\<close>

function write_whole :: "wcall list \<Rightarrow> byte list \<Rightarrow> ((errno + nat) \<times> byte list \<times> wcall list) option" where
  "write_whole cs buf =
     (if buf = [] then Some (Inr 0, [], cs)
      else case retry_write cs of
             None \<Rightarrow> None
           | Some (WErr e, cs') \<Rightarrow> Some (Inl e, [], cs')
           | Some (WOk n, cs') \<Rightarrow>
               (case write_whole cs' (drop n buf) of
                  None \<Rightarrow> None
                | Some (Inl e, sent, cs'') \<Rightarrow> Some (Inl e, take n buf @ sent, cs'')
                | Some (Inr k, sent, cs'') \<Rightarrow> Some (Inr (min n (length buf) + k), take n buf @ sent, cs'')))"
  by pat_completeness auto
termination
  by (relation "measure (\<lambda>(cs, buf). length cs)") (auto dest: retry_write_shorter)

function read_whole :: "rcall list \<Rightarrow> nat \<Rightarrow> ((errno + byte list) \<times> rcall list) option" where
  "read_whole cs cnt =
     (if cnt = 0 then Some (Inr [], cs)
      else case retry_read cs of
             None \<Rightarrow> None
           | Some (RErr e, cs') \<Rightarrow> Some (Inl e, cs')
           | Some (ROk bs, cs') \<Rightarrow>
               (if bs = [] then Some (Inr [], cs')
                else case read_whole cs' (cnt - length bs) of
                  None \<Rightarrow> None
                | Some (Inl e, cs'') \<Rightarrow> Some (Inl e, cs'')
                | Some (Inr r, cs'') \<Rightarrow> Some (Inr (bs @ r), cs'')))"
  by pat_completeness auto
termination
  by (relation "measure (\<lambda>(cs, cnt). length cs)") (auto dest: retry_read_shorter)

declare write_whole.simps [simp del] read_whole.simps [simp del]

lemma write_whole_Nil [simp]: "write_whole cs [] = Some (Inr 0, [], cs)"
  by (simp add: write_whole.simps)

lemma read_whole_0 [simp]: "read_whole cs 0 = Some (Inr [], cs)"
  by (simp add: read_whole.simps)

lemma write_whole_success:
  "write_whole cs buf = Some (Inr k, sent, cs') \<Longrightarrow> sent = buf \<and> k = length buf"
proof (induction cs buf arbitrary: k sent cs' rule: write_whole.induct)
  case (1 cs buf)
  show ?case
  proof (cases "buf = []")
    case False
    with 1(2) obtain n cs1 k1 sent1 where r: "retry_write cs = Some (WOk n, cs1)"
      "write_whole cs1 (drop n buf) = Some (Inr k1, sent1, cs')"
      "k = min n (length buf) + k1" "sent = take n buf @ sent1"
      by (subst (asm) write_whole.simps) (auto split: option.splits wcall.splits sum.splits)
    with 1(1) [OF False r(1) refl refl r(2)] show ?thesis by simp
  qed (use 1 in simp)
qed

lemma write_whole_failure:
  "write_whole cs buf = Some (Inl e, sent, cs') \<Longrightarrow> e \<noteq> EINTR \<and> (\<exists>rest. buf = sent @ rest \<and> rest \<noteq> [])"
proof (induction cs buf arbitrary: e sent cs' rule: write_whole.induct)
  case (1 cs buf)
  have ne: "buf \<noteq> []" using 1(2) by (auto simp: write_whole.simps [of cs buf])
  have noint: "retry_write cs = Some (WErr e', cs1) \<Longrightarrow> e' \<noteq> EINTR" for e' cs1
    by (induction cs rule: retry_write.induct) auto
  obtain c cs1 where r: "retry_write cs = Some (c, cs1)"
    using 1(2) ne by (auto simp: write_whole.simps [of cs buf] split: option.splits)
  show ?case
  proof (cases c)
    case (WErr e1)
    with 1(2) ne r noint show ?thesis by (auto simp: write_whole.simps [of cs buf])
  next
    case (WOk n)
    with 1(2) ne r obtain sent1 where w: "write_whole cs1 (drop n buf) = Some (Inl e, sent1, cs')"
      "sent = take n buf @ sent1"
      by (subst (asm) write_whole.simps) (auto split: option.splits sum.splits)
    from 1(1) [OF ne r refl WOk w(1)] obtain rest where
      "e \<noteq> EINTR" "drop n buf = sent1 @ rest" "rest \<noteq> []" by auto
    then show ?thesis using w(2) by (metis append.assoc append_take_drop_id)
  qed
qed

text \<open>The bytes the kernel delivers, in order, over the outcomes of a connection.\<close>

fun delivered :: "rcall list \<Rightarrow> byte list" where
  "delivered [] = []"
| "delivered (ROk bs # cs) = bs @ delivered cs"
| "delivered (RErr _ # cs) = delivered cs"

lemma retry_read_delivered:
  "retry_read cs = Some (ROk bs, cs') \<Longrightarrow> delivered cs = bs @ delivered cs'"
  by (induction cs rule: retry_read.induct) auto

lemma retry_read_mem: "retry_read cs = Some (c, cs') \<Longrightarrow> c \<in> set cs \<and> set cs' \<subseteq> set cs"
  by (induction cs rule: retry_read.induct) auto

lemma read_whole_prefix:
  "read_whole cs cnt = Some (Inr bs, cs') \<Longrightarrow> \<exists>rest. delivered cs = bs @ rest"
proof (induction cs cnt arbitrary: bs cs' rule: read_whole.induct)
  case (1 cs cnt)
  show ?case
  proof (cases "cnt = 0")
    case False
    then obtain b1 cs1 where r: "retry_read cs = Some (ROk b1, cs1)"
      using 1(2) by (auto simp: read_whole.simps [of cs cnt] split: option.splits rcall.splits)
    show ?thesis
    proof (cases "b1 = []")
      case False
      with \<open>cnt \<noteq> 0\<close> r 1(2) obtain b2 where w: "read_whole cs1 (cnt - length b1) = Some (Inr b2, cs')"
        "bs = b1 @ b2"
        by (subst (asm) read_whole.simps) (auto split: option.splits sum.splits)
      from 1(1) [OF \<open>cnt \<noteq> 0\<close> r refl refl False w(1)] obtain rest where
        "delivered cs1 = b2 @ rest" by auto
      then show ?thesis using retry_read_delivered [OF r] w(2) by simp
    qed (use 1 r \<open>cnt \<noteq> 0\<close> in \<open>simp add: read_whole.simps [of cs cnt]\<close>)
  qed (use 1 in simp)
qed

section \<open>timespecsub\<close>

record timespec =
  tv_sec :: int
  tv_nsec :: int

definition timespecsub :: "timespec \<Rightarrow> timespec \<Rightarrow> timespec" where
  "timespecsub a b =
     (let s = tv_sec a - tv_sec b; n = tv_nsec a - tv_nsec b in
      if n < 0 then \<lparr>tv_sec = s - 1, tv_nsec = n + 1000000000\<rparr> else \<lparr>tv_sec = s, tv_nsec = n\<rparr>)"

definition ts_valid :: "timespec \<Rightarrow> bool" where
  "ts_valid t \<longleftrightarrow> 0 \<le> tv_nsec t \<and> tv_nsec t < 1000000000"

definition ts_ns :: "timespec \<Rightarrow> int" where
  "ts_ns t = tv_sec t * 1000000000 + tv_nsec t"

lemma timespecsub_correct:
  "ts_valid a \<Longrightarrow> ts_valid b \<Longrightarrow> ts_valid (timespecsub a b) \<and> ts_ns (timespecsub a b) = ts_ns a - ts_ns b"
  by (auto simp: ts_valid_def ts_ns_def timespecsub_def Let_def)

lemma timespecsub_nonneg:
  assumes "ts_valid a" "ts_valid b" "ts_ns b \<le> ts_ns a"
  shows "0 \<le> tv_sec (timespecsub a b)"
  using timespecsub_correct [OF assms(1,2)] assms(3) by (simp add: ts_valid_def ts_ns_def)

lemma write_whole_one: "length buf = n \<Longrightarrow> 0 < n \<Longrightarrow> write_whole [WOk n] buf = Some (Inr n, buf, [])"
  by (subst write_whole.simps) auto

end
