(* ===== verification/Comm.thy ===== *)
theory Comm
  imports Common
begin

unbundle bit_operations_syntax

text \<open>
  src/comm.h and src/comm.c: the message types and the packed message structure with its byte
  layout, the 64-bit identifier generator, the socket path, and the error paths of binding,
  connecting, accepting, sending and receiving on the UNIX socket.
\<close>

section \<open>Messages\<close>

text \<open>The type of an incoming message is one byte; \<open>BAD_TYPE\<close> stands for the codes outside
  the enumeration.\<close>

datatype message_type = REGISTER | SCHED_ON | SCHED_OFF | REQ_LOCK | LOCK_OK | DROP_LOCK
  | LOCK_RELEASED | SET_TQ | MEM_UPDATE | WAIT_FOR_MEM | MEM_AVAILABLE | PREPARE_SWAP_OUT
  | UPDATE_LIMIT | UPDATE_CORE_LIMIT | BAD_TYPE nat

fun msg_code :: "message_type \<Rightarrow> nat" where
  "msg_code REGISTER = 1"
| "msg_code SCHED_ON = 2"
| "msg_code SCHED_OFF = 3"
| "msg_code REQ_LOCK = 4"
| "msg_code LOCK_OK = 5"
| "msg_code DROP_LOCK = 6"
| "msg_code LOCK_RELEASED = 7"
| "msg_code SET_TQ = 8"
| "msg_code MEM_UPDATE = 9"
| "msg_code WAIT_FOR_MEM = 10"
| "msg_code MEM_AVAILABLE = 11"
| "msg_code PREPARE_SWAP_OUT = 12"
| "msg_code UPDATE_LIMIT = 13"
| "msg_code UPDATE_CORE_LIMIT = 14"
| "msg_code (BAD_TYPE n) = n"

definition msg_types :: "message_type list" where
  "msg_types = [REGISTER, SCHED_ON, SCHED_OFF, REQ_LOCK, LOCK_OK, DROP_LOCK, LOCK_RELEASED, SET_TQ,
     MEM_UPDATE, WAIT_FOR_MEM, MEM_AVAILABLE, PREPARE_SWAP_OUT, UPDATE_LIMIT, UPDATE_CORE_LIMIT]"

definition type_of_code :: "nat \<Rightarrow> message_type" where
  "type_of_code n = (if 1 \<le> n \<and> n \<le> 14 then msg_types ! (n - 1) else BAD_TYPE n)"

fun message_type_string :: "message_type \<Rightarrow> string option" where
  "message_type_string REGISTER = Some ''REGISTER''"
| "message_type_string SCHED_ON = Some ''SCHED_ON''"
| "message_type_string SCHED_OFF = Some ''SCHED_OFF''"
| "message_type_string REQ_LOCK = Some ''REQ_LOCK''"
| "message_type_string LOCK_OK = Some ''LOCK_OK''"
| "message_type_string DROP_LOCK = Some ''DROP_LOCK''"
| "message_type_string LOCK_RELEASED = Some ''LOCK_RELEASED''"
| "message_type_string SET_TQ = Some ''SET_TQ''"
| "message_type_string MEM_UPDATE = Some ''MEM_UPDATE''"
| "message_type_string WAIT_FOR_MEM = Some ''WAIT_FOR_MEM''"
| "message_type_string MEM_AVAILABLE = Some ''MEM_AVAILABLE''"
| "message_type_string PREPARE_SWAP_OUT = Some ''PREPARE_SWAP_OUT''"
| "message_type_string UPDATE_LIMIT = Some ''UPDATE_LIMIT''"
| "message_type_string UPDATE_CORE_LIMIT = Some ''UPDATE_CORE_LIMIT''"
| "message_type_string (BAD_TYPE n) = None"

definition MSG_DATA_LEN :: nat where "MSG_DATA_LEN = 20"
definition POD_NAME_LEN_MAX :: nat where "POD_NAME_LEN_MAX = 254"
definition POD_NAMESPACE_LEN_MAX :: nat where "POD_NAMESPACE_LEN_MAX = 254"
definition NVSHARE_GPU_UUID_LEN :: nat where "NVSHARE_GPU_UUID_LEN = 96"
definition NVSHARE_SOCK_PATH_MAX :: nat where "NVSHARE_SOCK_PATH_MAX = 108"
definition NVSHARE_UNREGISTERED_ID :: uint64 where "NVSHARE_UNREGISTERED_ID = 0xF00DF00DF00DF00D"

record message =
  m_type :: message_type
  m_protocol_version :: nat
  m_pod_name :: string
  m_pod_namespace :: string
  m_gpu_uuid :: string
  m_id :: uint64
  m_data :: string
  m_memory_usage :: size_t
  m_memory_limit :: size_t
  m_core_limit :: int
  m_host_pid :: int

definition zero_message :: message where
  "zero_message = \<lparr>m_type = BAD_TYPE 0, m_protocol_version = 0, m_pod_name = [], m_pod_namespace = [],
     m_gpu_uuid = [], m_id = 0, m_data = [], m_memory_usage = 0, m_memory_limit = 0, m_core_limit = 0,
     m_host_pid = 0\<rparr>"

subsection \<open>Byte layout\<close>

fun le_bytes :: "nat \<Rightarrow> nat \<Rightarrow> byte list" where
  "le_bytes 0 n = []"
| "le_bytes (Suc k) n = word_of_nat (n mod 256) # le_bytes k (n div 256)"

fun le_val :: "byte list \<Rightarrow> nat" where
  "le_val [] = 0"
| "le_val (b # bs) = unat b + 256 * le_val bs"

text \<open>A character array of \<open>n\<close> bytes: the string, then NUL bytes.\<close>

definition str_bytes :: "nat \<Rightarrow> string \<Rightarrow> byte list" where
  "str_bytes n s = take n (map of_char s @ replicate n 0)"

definition bytes_str :: "byte list \<Rightarrow> string" where
  "bytes_str bs = cstr (map (\<lambda>b. char_of (unat b)) bs)"

definition int32_nat :: "int \<Rightarrow> nat" where
  "int32_nat x = nat (x mod 2 ^ 32)"

definition encode_message :: "message \<Rightarrow> byte list" where
  "encode_message m =
     le_bytes 1 (msg_code (m_type m)) @ le_bytes 2 (m_protocol_version m)
     @ str_bytes POD_NAME_LEN_MAX (m_pod_name m) @ str_bytes POD_NAMESPACE_LEN_MAX (m_pod_namespace m)
     @ str_bytes NVSHARE_GPU_UUID_LEN (m_gpu_uuid m) @ le_bytes 8 (unat (m_id m))
     @ str_bytes MSG_DATA_LEN (m_data m) @ le_bytes 8 (unat (m_memory_usage m))
     @ le_bytes 8 (unat (m_memory_limit m)) @ le_bytes 4 (int32_nat (m_core_limit m))
     @ le_bytes 4 (int32_nat (m_host_pid m))"

definition field :: "nat \<Rightarrow> nat \<Rightarrow> byte list \<Rightarrow> byte list" where
  "field off n bs = take n (drop off bs)"

definition decode_message :: "byte list \<Rightarrow> message" where
  "decode_message bs = \<lparr>
     m_type = type_of_code (le_val (field 0 1 bs)),
     m_protocol_version = le_val (field 1 2 bs),
     m_pod_name = bytes_str (field 3 254 bs),
     m_pod_namespace = bytes_str (field 257 254 bs),
     m_gpu_uuid = bytes_str (field 511 96 bs),
     m_id = word_of_nat (le_val (field 607 8 bs)),
     m_data = bytes_str (field 615 20 bs),
     m_memory_usage = word_of_nat (le_val (field 635 8 bs)),
     m_memory_limit = word_of_nat (le_val (field 643 8 bs)),
     m_core_limit = to_int32 (int (le_val (field 651 4 bs))),
     m_host_pid = to_int32 (int (le_val (field 655 4 bs)))\<rparr>"

definition str_fits :: "nat \<Rightarrow> string \<Rightarrow> bool" where
  "str_fits n s \<longleftrightarrow> length s < n \<and> NUL \<notin> set s"

definition int32_ok :: "int \<Rightarrow> bool" where
  "int32_ok x \<longleftrightarrow> - (2 ^ 31) \<le> x \<and> x < 2 ^ 31"

definition type_ok :: "message_type \<Rightarrow> bool" where
  "type_ok t \<longleftrightarrow> (case t of BAD_TYPE n \<Rightarrow> (n = 0 \<or> 14 < n) \<and> n < 256 | _ \<Rightarrow> True)"

definition message_ok :: "message \<Rightarrow> bool" where
  "message_ok m \<longleftrightarrow> type_ok (m_type m) \<and> m_protocol_version m < 65536
     \<and> str_fits POD_NAME_LEN_MAX (m_pod_name m) \<and> str_fits POD_NAMESPACE_LEN_MAX (m_pod_namespace m)
     \<and> str_fits NVSHARE_GPU_UUID_LEN (m_gpu_uuid m) \<and> str_fits MSG_DATA_LEN (m_data m)
     \<and> int32_ok (m_core_limit m) \<and> int32_ok (m_host_pid m)"

section \<open>Identifiers\<close>

definition RAND_MAX :: nat where "RAND_MAX = 2147483647"

definition IMAX_BITS :: "nat \<Rightarrow> nat" where
  "IMAX_BITS m = m div (m mod 255 + 1) div 255 mod 255 * 8 + 7 - 86 div (m mod 255 + 12)"

definition RAND_MAX_WIDTH :: nat where "RAND_MAX_WIDTH = IMAX_BITS RAND_MAX"

lemma RAND_MAX_WIDTH_eq [simp]: "RAND_MAX_WIDTH = 31"
  by (simp add: RAND_MAX_WIDTH_def IMAX_BITS_def RAND_MAX_def)

text \<open>The loop over \<open>i\<close>; \<open>rnd k\<close> is the \<open>k\<close>-th value of \<^verbatim>\<open>rand()\<close>.\<close>

function gen_id_loop :: "nat \<Rightarrow> uint64 \<Rightarrow> (nat \<Rightarrow> nat) \<Rightarrow> nat \<Rightarrow> uint64 \<times> nat" where
  "gen_id_loop i r rnd k =
     (if i < 64 then gen_id_loop (i + RAND_MAX_WIDTH)
        (push_bit RAND_MAX_WIDTH r XOR word_of_nat (rnd k)) rnd (Suc k)
      else (r, k))"
  by pat_completeness auto
termination
  by (relation "measure (\<lambda>(i, r, rnd, k). 64 - i)") auto

definition nvshare_generate_id :: "(nat \<Rightarrow> nat) \<Rightarrow> nat \<Rightarrow> uint64 \<times> nat" where
  "nvshare_generate_id rnd k = gen_id_loop 0 0 rnd k"

section \<open>Socket path and sockets\<close>

definition NVSHARE_SOCK_DIR :: string where "NVSHARE_SOCK_DIR = ''/var/run/nvshare/''"

definition nvshare_get_scheduler_path :: string where
  "nvshare_get_scheduler_path =
     (let base = strlcpy_field NVSHARE_SOCK_PATH_MAX NVSHARE_SOCK_DIR; offset = length NVSHARE_SOCK_DIR
      in base @ take (NVSHARE_SOCK_PATH_MAX - offset - 1) ''scheduler.sock'')"

text \<open>A system call either succeeds with a value or fails with an error number.\<close>

datatype sys = SysOk int | SysErr int

record sock_result =
  so_ret :: int
  so_errno :: int
  so_sock :: "int option"
  so_closed :: bool

text \<open>\<open>errno0\<close> is the value of \<^verbatim>\<open>errno\<close> before the call, kept on success.\<close>

definition nvshare_unix_bind :: "int \<Rightarrow> sys \<Rightarrow> sys \<Rightarrow> sys \<Rightarrow> sock_result" where
  "nvshare_unix_bind errno0 c_socket c_unlink c_bind =
     (case c_socket of
        SysErr e \<Rightarrow> \<lparr>so_ret = - 1, so_errno = e, so_sock = None, so_closed = False\<rparr>
      | SysOk fd \<Rightarrow>
          (case c_unlink of
             SysErr e \<Rightarrow>
               if e \<noteq> 2 then \<lparr>so_ret = - 1, so_errno = e, so_sock = Some fd, so_closed = True\<rparr>
               else (case c_bind of
                       SysErr e' \<Rightarrow> \<lparr>so_ret = - 1, so_errno = e', so_sock = Some fd, so_closed = True\<rparr>
                     | SysOk _ \<Rightarrow> \<lparr>so_ret = 0, so_errno = e, so_sock = Some fd, so_closed = False\<rparr>)
           | SysOk _ \<Rightarrow>
               (case c_bind of
                  SysErr e' \<Rightarrow> \<lparr>so_ret = - 1, so_errno = e', so_sock = Some fd, so_closed = True\<rparr>
                | SysOk _ \<Rightarrow> \<lparr>so_ret = 0, so_errno = errno0, so_sock = Some fd, so_closed = False\<rparr>)))"

definition nvshare_unix_connect :: "int \<Rightarrow> sys \<Rightarrow> sys \<Rightarrow> sock_result" where
  "nvshare_unix_connect errno0 c_socket c_connect =
     (case c_socket of
        SysErr e \<Rightarrow> \<lparr>so_ret = - 1, so_errno = e, so_sock = None, so_closed = False\<rparr>
      | SysOk fd \<Rightarrow>
          (case c_connect of
             SysErr e \<Rightarrow> \<lparr>so_ret = - 1, so_errno = e, so_sock = Some fd, so_closed = True\<rparr>
           | SysOk _ \<Rightarrow> \<lparr>so_ret = 0, so_errno = errno0, so_sock = Some fd, so_closed = False\<rparr>))"

definition nvshare_bind_and_listen :: "int \<Rightarrow> sys \<Rightarrow> sys \<Rightarrow> sys \<Rightarrow> sys \<Rightarrow> sock_result" where
  "nvshare_bind_and_listen errno0 c_socket c_unlink c_bind c_listen =
     (let b = nvshare_unix_bind errno0 c_socket c_unlink c_bind in
      if so_ret b < 0 then b\<lparr>so_ret := - 1, so_errno := - so_ret b\<rparr>
      else (case c_listen of
              SysErr e \<Rightarrow> b\<lparr>so_ret := - 1, so_errno := e, so_closed := True\<rparr>
            | SysOk _ \<Rightarrow> b))"

text \<open>\<^verbatim>\<open>RETRY_INTR\<close> around one attempt: attempts that fail with \<^verbatim>\<open>EINTR\<close> (4) are repeated.\<close>

fun nvshare_connect :: "int \<Rightarrow> (sys \<times> sys) list \<Rightarrow> sock_result option" where
  "nvshare_connect errno0 [] = None"
| "nvshare_connect errno0 ((c1, c2) # cs) =
     (let r = nvshare_unix_connect errno0 c1 c2 in
      if so_ret r < 0 \<and> so_errno r = 4 then nvshare_connect (so_errno r) cs else Some r)"

fun nvshare_accept :: "sys list \<Rightarrow> (int + int) option" where
  "nvshare_accept [] = None"
| "nvshare_accept (SysOk fd # cs) = Some (Inr fd)"
| "nvshare_accept (SysErr e # cs) = (if e = 4 then nvshare_accept cs else Some (Inl e))"

text \<open>One write or read with \<^verbatim>\<open>RETRY_INTR\<close>; the receive buffer is zeroed first, so a short read
  leaves zero bytes behind it.\<close>

definition nvshare_send_noblock :: "wcall list \<Rightarrow> byte list \<Rightarrow> (errno + nat) option" where
  "nvshare_send_noblock cs msg =
     (case retry_write cs of None \<Rightarrow> None | Some (WErr e, _) \<Rightarrow> Some (Inl e)
      | Some (WOk n, _) \<Rightarrow> Some (Inr (min n (length msg))))"

definition nvshare_receive_noblock :: "rcall list \<Rightarrow> nat \<Rightarrow> ((errno + nat) \<times> byte list) option" where
  "nvshare_receive_noblock cs count =
     (case retry_read cs of None \<Rightarrow> None
      | Some (RErr e, _) \<Rightarrow> Some (Inl e, replicate count 0)
      | Some (ROk bs, _) \<Rightarrow> Some (Inr (min count (length bs)), take count (bs @ replicate count 0)))"

definition nvshare_receive_block :: "rcall list \<Rightarrow> nat \<Rightarrow> (errno + nat \<times> byte list) option" where
  "nvshare_receive_block cs count =
     (case read_whole cs count of None \<Rightarrow> None
      | Some (Inl e, _) \<Rightarrow> Some (Inl e)
      | Some (Inr bs, _) \<Rightarrow> Some (Inr (length bs, take count (bs @ replicate count 0))))"

section \<open>Lemmas\<close>

lemma le_bytes_length [simp]: "length (le_bytes k n) = k"
  by (induction k arbitrary: n) auto

lemma le_val_bytes [simp]: "n < 256 ^ k \<Longrightarrow> le_val (le_bytes k n) = n"
proof (induction k arbitrary: n)
  case (Suc k)
  have "n div 256 < 256 ^ k" using Suc.prems by (simp add: less_mult_imp_div_less mult.commute)
  with Suc.IH [of "n div 256"] show ?case by (simp add: unat_of_nat)
qed simp

lemma str_bytes_length [simp]: "length (str_bytes n s) = n"
  by (simp add: str_bytes_def)

lemma bytes_str_bytes [simp]:
  assumes "str_fits n s" shows "bytes_str (str_bytes n s) = s"
proof -
  have inv: "char_of (unat (of_char c :: byte)) = c" for c :: char
  proof -
    have "(of_char c :: byte) = of_nat (of_char c)" by (simp add: of_nat_of_char)
    then have "unat (of_char c :: byte) = (of_char c :: nat)"
      by (simp add: unat_of_nat del: of_nat_of_char)
    then show ?thesis by simp
  qed
  have tk: "str_bytes n s = map of_char s @ replicate (n - length s) 0"
    using assms by (simp add: str_bytes_def str_fits_def)
  have "0 < n - length s" using assms by (simp add: str_fits_def)
  then obtain k where k: "n - length s = Suc k" by (metis gr0_implies_Suc)
  have "char_of (unat (0::byte)) = NUL" by (simp add: char_of_def)
  with tk k inv show ?thesis using assms
    by (simp add: bytes_str_def cstr_def str_fits_def comp_def takeWhile_NUL)
qed

lemma int32_nat_less [simp]: "int32_nat x < 4294967296"
  using pos_mod_bound [of "2 ^ 32" x] by (simp add: int32_nat_def)

lemma to_int32_nat [simp]: "int32_ok x \<Longrightarrow> to_int32 (int (int32_nat x)) = x"
  by (simp add: int32_ok_def int32_nat_def to_int32_def mod_simps)

lemma type_of_msg_code [simp]: "type_ok t \<Longrightarrow> type_of_code (msg_code t) = t"
  by (cases t) (auto simp: type_of_code_def msg_types_def type_ok_def)

lemma msg_code_less [simp]: "type_ok t \<Longrightarrow> msg_code t < 256"
  by (cases t) (auto simp: type_ok_def)

lemma word64_le_val [simp]: "le_val (le_bytes 8 (unat (w :: uint64))) = unat w"
proof -
  have "unat w < 2 ^ LENGTH(64)" by (rule unsigned_less)
  then show ?thesis by simp
qed

lemmas field_lens = POD_NAME_LEN_MAX_def POD_NAMESPACE_LEN_MAX_def NVSHARE_GPU_UUID_LEN_def MSG_DATA_LEN_def

lemma encode_message_length: "length (encode_message m) = 659"
  by (simp add: encode_message_def field_lens)

text \<open>Reading a field behind, or at the front of, an encoded prefix.\<close>

lemma field_skip: "length a = n \<Longrightarrow> n \<le> off \<Longrightarrow> field off k (a @ b) = field (off - n) k b"
  by (simp add: field_def)

lemma field_hit: "length a = k \<Longrightarrow> field 0 k (a @ b) = a"
  by (simp add: field_def)

lemma field_last: "length a = k \<Longrightarrow> field 0 k a = a"
  by (simp add: field_def)

lemma encode_fields:
  "field 0 1 (encode_message m) = le_bytes 1 (msg_code (m_type m))"
  "field 1 2 (encode_message m) = le_bytes 2 (m_protocol_version m)"
  "field 3 254 (encode_message m) = str_bytes 254 (m_pod_name m)"
  "field 257 254 (encode_message m) = str_bytes 254 (m_pod_namespace m)"
  "field 511 96 (encode_message m) = str_bytes 96 (m_gpu_uuid m)"
  "field 607 8 (encode_message m) = le_bytes 8 (unat (m_id m))"
  "field 615 20 (encode_message m) = str_bytes 20 (m_data m)"
  "field 635 8 (encode_message m) = le_bytes 8 (unat (m_memory_usage m))"
  "field 643 8 (encode_message m) = le_bytes 8 (unat (m_memory_limit m))"
  "field 651 4 (encode_message m) = le_bytes 4 (int32_nat (m_core_limit m))"
  "field 655 4 (encode_message m) = le_bytes 4 (int32_nat (m_host_pid m))"
  unfolding encode_message_def field_lens
  by (simp_all only: field_skip field_hit field_last le_bytes_length str_bytes_length)
    (simp_all add: field_hit field_last del: le_bytes.simps)

lemma decode_encode_message:
  assumes "message_ok m" shows "decode_message (encode_message m) = m"
proof -
  note ok = assms [unfolded message_ok_def field_lens]
  have "le_val (le_bytes 2 (m_protocol_version m)) = m_protocol_version m"
    using ok by simp
  moreover have "le_val (le_bytes 1 (msg_code (m_type m))) = msg_code (m_type m)"
    using ok by (simp del: le_bytes.simps)
  ultimately show ?thesis
    using ok by (intro message.equality)
      (simp_all add: decode_message_def encode_fields del: le_bytes.simps One_nat_def)
qed

text \<open>A complete message written by one side is read back by the other.\<close>

lemma receive_block_complete:
  assumes "nvshare_receive_block cs n = Some (Inr (n, bs))"
  shows "length bs = n \<and> (\<exists>rest. delivered cs = bs @ rest)"
proof -
  obtain r cs' where r: "read_whole cs n = Some (Inr r, cs')" "length r = n" "bs = take n (r @ replicate n 0)"
    using assms by (auto simp: nvshare_receive_block_def split: option.splits sum.splits prod.splits)
  with read_whole_prefix [OF r(1)] show ?thesis by simp
qed

lemma generate_id_eq:
  "nvshare_generate_id rnd k =
     (push_bit 31 (push_bit 31 (word_of_nat (rnd k)) XOR word_of_nat (rnd (Suc k)))
        XOR word_of_nat (rnd (Suc (Suc k))), k + 3)"
  by (simp add: nvshare_generate_id_def gen_id_loop.simps numeral_eq_Suc)

end
