(* ===== verification/SchedState.thy ===== *)
theory SchedState
  imports Comm
begin

text \<open>
  The data of the scheduler daemon (src/scheduler.c): its configuration and \<open>init_config\<close>, the
  structures \<open>gpu_context\<close> and \<open>nvshare_client\<close>, the global state, and the outside world it
  reads from (clocks, \<^verbatim>\<open>rand\<close>, the outcome of each socket write). Client and context structures
  live in stores indexed by pointers; a client pointer is dereferenceable while it is in the
  global list of clients, since \<open>delete_client\<close> frees exactly the structures it unlinks.
\<close>

section \<open>Configuration\<close>

datatype switch_time_mode = SWITCH_TIME_AUTO | SWITCH_TIME_FIXED

datatype scheduling_mode = SCHED_MODE_AUTO | SCHED_MODE_SERIAL | SCHED_MODE_CONCURRENT

record scheduler_config =
  cfg_mode :: switch_time_mode
  cfg_scheduling_mode :: scheduling_mode
  cfg_fixed_switch_time :: int
  cfg_time_multiplier :: int
  cfg_memory_reserve_percent :: int
  cfg_max_runtime_sec :: int
  cfg_quota_sample_interval_ms :: int
  cfg_compute_window_ms :: int
  cfg_quota_carryover_percent :: int
  cfg_drop_tail_billing_percent :: int
  cfg_default_gpu_memory :: size_t

definition default_config :: scheduler_config where
  "default_config = \<lparr>cfg_mode = SWITCH_TIME_AUTO, cfg_scheduling_mode = SCHED_MODE_AUTO,
     cfg_fixed_switch_time = 60, cfg_time_multiplier = 5, cfg_memory_reserve_percent = 10,
     cfg_max_runtime_sec = 300, cfg_quota_sample_interval_ms = 50, cfg_compute_window_ms = 2000,
     cfg_quota_carryover_percent = 25, cfg_drop_tail_billing_percent = 70,
     cfg_default_gpu_memory = 16 * 1024 * 1024 * 1024\<rparr>"

definition clamp :: "int \<Rightarrow> int \<Rightarrow> int \<Rightarrow> int" where
  "clamp lo hi x = (if x < lo then lo else if x > hi then hi else x)"

definition init_config :: "(string \<Rightarrow> string option) \<Rightarrow> scheduler_config \<Rightarrow> scheduler_config" where
  "init_config getenv c0 =
    (let c1 = from_env getenv ''NVSHARE_SWITCH_TIME_MODE''
                (\<lambda>v c. if v = ''fixed'' then c\<lparr>cfg_mode := SWITCH_TIME_FIXED\<rparr> else c) c0;
         c2 = from_env getenv ''NVSHARE_SWITCH_TIME_FIXED'' (\<lambda>v c. c\<lparr>cfg_fixed_switch_time := atoi v\<rparr>) c1;
         c3 = from_env getenv ''NVSHARE_SWITCH_TIME_MULTIPLIER'' (\<lambda>v c. c\<lparr>cfg_time_multiplier := atoi v\<rparr>) c2;
         c4 = from_env getenv ''NVSHARE_MEMORY_RESERVE_PERCENT''
                (\<lambda>v c. c\<lparr>cfg_memory_reserve_percent := atoi v\<rparr>) c3;
         c5 = from_env getenv ''NVSHARE_DEFAULT_GPU_MEMORY_GB''
                (\<lambda>v c. c\<lparr>cfg_default_gpu_memory := word_of_int (atoi v) * 1024 * 1024 * 1024\<rparr>) c4;
         c6 = from_env getenv ''NVSHARE_SCHEDULING_MODE''
                (\<lambda>v c. if v = ''serial'' then c\<lparr>cfg_scheduling_mode := SCHED_MODE_SERIAL\<rparr>
                       else if v = ''concurrent'' then c\<lparr>cfg_scheduling_mode := SCHED_MODE_CONCURRENT\<rparr>
                       else c\<lparr>cfg_scheduling_mode := SCHED_MODE_AUTO\<rparr>) c5;
         c7 = from_env getenv ''NVSHARE_MAX_RUNTIME_SEC''
                (\<lambda>v c. c\<lparr>cfg_max_runtime_sec := (if atoi v < 10 then 10 else atoi v)\<rparr>) c6;
         c8 = from_env getenv ''NVSHARE_QUOTA_SAMPLE_INTERVAL_MS''
                (\<lambda>v c. c\<lparr>cfg_quota_sample_interval_ms := clamp 10 1000 (atoi v)\<rparr>) c7;
         c9 = from_env getenv ''NVSHARE_COMPUTE_WINDOW_MS''
                (\<lambda>v c. c\<lparr>cfg_compute_window_ms := clamp 500 20000 (atoi v)\<rparr>) c8;
         c10 = from_env getenv ''NVSHARE_QUOTA_CARRYOVER_PERCENT''
                (\<lambda>v c. c\<lparr>cfg_quota_carryover_percent := clamp 0 100 (atoi v)\<rparr>) c9
     in from_env getenv ''NVSHARE_DROP_TAIL_BILLING_PERCENT''
          (\<lambda>v c. c\<lparr>cfg_drop_tail_billing_percent := clamp 0 100 (atoi v)\<rparr>) c10)"

text \<open>The ranges that \<open>init_config\<close> enforces; the other settings are taken as given.\<close>

definition config_ok :: "scheduler_config \<Rightarrow> bool" where
  "config_ok c \<longleftrightarrow> 10 \<le> cfg_max_runtime_sec c
     \<and> 10 \<le> cfg_quota_sample_interval_ms c \<and> cfg_quota_sample_interval_ms c \<le> 1000
     \<and> 500 \<le> cfg_compute_window_ms c \<and> cfg_compute_window_ms c \<le> 20000
     \<and> 0 \<le> cfg_quota_carryover_percent c \<and> cfg_quota_carryover_percent c \<le> 100
     \<and> 0 \<le> cfg_drop_tail_billing_percent c \<and> cfg_drop_tail_billing_percent c \<le> 100"

lemma config_ok_default [simp]: "config_ok default_config"
  by (simp add: config_ok_def default_config_def)

lemma from_env_pres: "P c \<Longrightarrow> (\<And>v c. P c \<Longrightarrow> P (f v c)) \<Longrightarrow> P (from_env getenv name f c)"
  by (simp add: from_env_def split: option.split)

lemma config_ok_if: "(b \<Longrightarrow> config_ok x) \<Longrightarrow> (\<not> b \<Longrightarrow> config_ok y) \<Longrightarrow> config_ok (if b then x else y)"
  by simp

lemma clamp_bounds: "lo \<le> hi \<Longrightarrow> lo \<le> clamp lo hi x" "lo \<le> hi \<Longrightarrow> clamp lo hi x \<le> hi"
  by (auto simp: clamp_def)

lemma config_ok_fields:
  "config_ok c \<Longrightarrow> config_ok (c\<lparr>cfg_mode := a\<rparr>)"
  "config_ok c \<Longrightarrow> config_ok (c\<lparr>cfg_scheduling_mode := b\<rparr>)"
  "config_ok c \<Longrightarrow> config_ok (c\<lparr>cfg_fixed_switch_time := x\<rparr>)"
  "config_ok c \<Longrightarrow> config_ok (c\<lparr>cfg_time_multiplier := x\<rparr>)"
  "config_ok c \<Longrightarrow> config_ok (c\<lparr>cfg_memory_reserve_percent := x\<rparr>)"
  "config_ok c \<Longrightarrow> config_ok (c\<lparr>cfg_default_gpu_memory := m\<rparr>)"
  "config_ok c \<Longrightarrow> 10 \<le> x \<Longrightarrow> config_ok (c\<lparr>cfg_max_runtime_sec := x\<rparr>)"
  "config_ok c \<Longrightarrow> 10 \<le> x \<Longrightarrow> x \<le> 1000 \<Longrightarrow> config_ok (c\<lparr>cfg_quota_sample_interval_ms := x\<rparr>)"
  "config_ok c \<Longrightarrow> 500 \<le> x \<Longrightarrow> x \<le> 20000 \<Longrightarrow> config_ok (c\<lparr>cfg_compute_window_ms := x\<rparr>)"
  "config_ok c \<Longrightarrow> 0 \<le> x \<Longrightarrow> x \<le> 100 \<Longrightarrow> config_ok (c\<lparr>cfg_quota_carryover_percent := x\<rparr>)"
  "config_ok c \<Longrightarrow> 0 \<le> x \<Longrightarrow> x \<le> 100 \<Longrightarrow> config_ok (c\<lparr>cfg_drop_tail_billing_percent := x\<rparr>)"
  by (simp_all add: config_ok_def)

lemma config_ok_init: "config_ok c \<Longrightarrow> config_ok (init_config getenv c)"
  unfolding init_config_def Let_def
  by (intro from_env_pres [where P = config_ok] config_ok_fields config_ok_if clamp_bounds)
    (assumption | simp)+

section \<open>Structures\<close>

type_synonym cptr = nat
type_synonym gptr = nat

record nvshare_client =
  c_fd :: int
  c_id :: uint64
  c_pod_name :: string
  c_pod_namespace :: string
  c_context :: "gptr option"
  c_memory_allocated :: size_t
  c_peak_allocated :: size_t
  c_is_running :: bool
  c_last_scheduled_time :: int
  c_memory_limit :: size_t
  c_host_pid :: int
  c_core_limit :: int
  c_run_time_in_window_ms :: int
  c_current_run_start_ms :: int
  c_is_throttled :: bool
  c_pending_drop :: bool
  c_drop_concurrency :: int
  c_last_drop_sent_ms :: int
  c_quota_debt_ms :: int

text \<open>A request node only carries its client pointer, so the three queues of a context are lists
  of client pointers. \<open>g_timer_wake\<close> and \<open>g_sched_wake\<close> record signals on the two condition
  variables that no waiter has consumed yet.\<close>

record gpu_context =
  g_uuid :: string
  g_requests :: "cptr list"
  g_running_list :: "cptr list"
  g_lock_held :: bool
  g_must_reset_timer :: bool
  g_total_memory :: size_t
  g_available_memory :: size_t
  g_running_memory_usage :: size_t
  g_peak_memory_usage :: size_t
  g_memory_overloaded :: bool
  g_wait_queue :: "cptr list"
  g_window_start_ms :: int
  g_timer_wake :: bool
  g_sched_wake :: bool

text \<open>The outside world: the \<open>k\<close>-th reading of the monotonic clock in milliseconds, of
  \<^verbatim>\<open>time(NULL)\<close> and of \<^verbatim>\<open>rand()\<close>, the outcome of the \<open>k\<close>-th socket write on a descriptor, and
  the value that a read of the \<open>fd\<close> field of freed client memory yields. \<open>w_sent\<close> lists the
  messages written so far, last one first.\<close>

record world =
  w_clock :: "nat \<Rightarrow> int"
  w_time :: "nat \<Rightarrow> int"
  w_rand :: "nat \<Rightarrow> nat"
  w_write :: "nat \<Rightarrow> int \<Rightarrow> errno + nat"
  w_stale_fd :: int
  w_clock_n :: nat
  w_time_n :: nat
  w_rand_n :: nat
  w_write_n :: nat
  w_sent :: "(int \<times> message) list"

record metrics_counters =
  mt_msg :: "nat \<Rightarrow> 64 word"
  mt_drop_lock :: "64 word"
  mt_client_disconnect :: "64 word"
  mt_wait_for_mem :: "64 word"
  mt_mem_available :: "64 word"

record sched_state =
  s_config :: scheduler_config
  s_on :: bool
  s_tq :: int
  s_out_msg :: message
  s_clients :: "cptr list"
  s_cmem :: "cptr \<Rightarrow> nvshare_client"
  s_contexts :: "gptr list"
  s_gmem :: "gptr \<Rightarrow> gpu_context"
  s_epoll :: "int list"
  s_metrics :: metrics_counters
  s_world :: world

abbreviation client :: "sched_state \<Rightarrow> cptr \<Rightarrow> nvshare_client" where
  "client s p \<equiv> s_cmem s p"

abbreviation gpu :: "sched_state \<Rightarrow> gptr \<Rightarrow> gpu_context" where
  "gpu s g \<equiv> s_gmem s g"

definition alive :: "sched_state \<Rightarrow> cptr \<Rightarrow> bool" where
  "alive s p \<longleftrightarrow> p \<in> set (s_clients s)"

definition upd_client :: "cptr \<Rightarrow> (nvshare_client \<Rightarrow> nvshare_client) \<Rightarrow> sched_state \<Rightarrow> sched_state" where
  "upd_client p f s = s\<lparr>s_cmem := (s_cmem s)(p := f (s_cmem s p))\<rparr>"

definition upd_gpu :: "gptr \<Rightarrow> (gpu_context \<Rightarrow> gpu_context) \<Rightarrow> sched_state \<Rightarrow> sched_state" where
  "upd_gpu g f s = s\<lparr>s_gmem := (s_gmem s)(g := f (s_gmem s g))\<rparr>"

text \<open>A dereference of every pointer in a list.\<close>

definition guard_live :: "cptr list \<Rightarrow> sched_state \<Rightarrow> sched_state res" where
  "guard_live ps s = (if list_all (alive s) ps then Inr s else Inl UseAfterFree)"

definition has_registered :: "nvshare_client \<Rightarrow> bool" where
  "has_registered c \<longleftrightarrow> c_id c \<noteq> NVSHARE_UNREGISTERED_ID"

definition client_id_as_string :: "uint64 \<Rightarrow> string" where
  "client_id_as_string i = (if i = NVSHARE_UNREGISTERED_ID then ''<UNREGISTERED>'' else hex16 i)"

section \<open>Reading the world\<close>

definition current_time_ms :: "sched_state \<Rightarrow> int \<times> sched_state" where
  "current_time_ms s = (w_clock (s_world s) (w_clock_n (s_world s)),
     s\<lparr>s_world := (s_world s)\<lparr>w_clock_n := Suc (w_clock_n (s_world s))\<rparr>\<rparr>)"

definition time_null :: "sched_state \<Rightarrow> int \<times> sched_state" where
  "time_null s = (w_time (s_world s) (w_time_n (s_world s)),
     s\<lparr>s_world := (s_world s)\<lparr>w_time_n := Suc (w_time_n (s_world s))\<rparr>\<rparr>)"

text \<open>\<open>send_message\<close> returns whether the whole message was written; errors other than the four
  it tolerates end the process.\<close>

definition send_message :: "cptr \<Rightarrow> message \<Rightarrow> sched_state \<Rightarrow> (bool \<times> sched_state) res" where
  "send_message p msg s =
     (let w = s_world s; k = w_write_n w; fd = c_fd (client s p);
          s' = s\<lparr>s_world := w\<lparr>w_write_n := Suc k\<rparr>\<rparr>
      in if \<not> alive s p then Inl UseAfterFree
         else case w_write w k fd of
             Inl e \<Rightarrow> if e = EAGAIN \<or> e = EWOULDBLOCK \<or> e = ECONNRESET \<or> e = EPIPE
                     then Inr (False, s') else Inl Exited
           | Inr n \<Rightarrow> if n < 659 then Inr (False, s')
                     else Inr (True, s'\<lparr>s_world := (s_world s')\<lparr>w_sent := (fd, msg) # w_sent w\<rparr>\<rparr>))"

definition set_out_type :: "message_type \<Rightarrow> sched_state \<Rightarrow> sched_state" where
  "set_out_type t s = s\<lparr>s_out_msg := (s_out_msg s)\<lparr>m_type := t\<rparr>\<rparr>"

section \<open>Event counters (src/metrics_exporter.h)\<close>

definition NVSHARE_MSG_TYPE_COUNT :: nat where "NVSHARE_MSG_TYPE_COUNT = 16"

definition metrics_inc_msg :: "nat \<Rightarrow> sched_state \<Rightarrow> sched_state" where
  "metrics_inc_msg t s = (if t < NVSHARE_MSG_TYPE_COUNT
     then s\<lparr>s_metrics := (s_metrics s)\<lparr>mt_msg := (mt_msg (s_metrics s))(t := mt_msg (s_metrics s) t + 1)\<rparr>\<rparr>
     else s)"

definition metrics_inc_drop_lock :: "sched_state \<Rightarrow> sched_state" where
  "metrics_inc_drop_lock s = s\<lparr>s_metrics := (s_metrics s)\<lparr>mt_drop_lock := mt_drop_lock (s_metrics s) + 1\<rparr>\<rparr>"

definition metrics_inc_client_disconnect :: "sched_state \<Rightarrow> sched_state" where
  "metrics_inc_client_disconnect s =
     s\<lparr>s_metrics := (s_metrics s)\<lparr>mt_client_disconnect := mt_client_disconnect (s_metrics s) + 1\<rparr>\<rparr>"

definition metrics_inc_wait_for_mem :: "sched_state \<Rightarrow> sched_state" where
  "metrics_inc_wait_for_mem s =
     s\<lparr>s_metrics := (s_metrics s)\<lparr>mt_wait_for_mem := mt_wait_for_mem (s_metrics s) + 1\<rparr>\<rparr>"

definition metrics_inc_mem_available :: "sched_state \<Rightarrow> sched_state" where
  "metrics_inc_mem_available s =
     s\<lparr>s_metrics := (s_metrics s)\<lparr>mt_mem_available := mt_mem_available (s_metrics s) + 1\<rparr>\<rparr>"

end
