(* ===== verification/SchedQuota.thy ===== *)
theory SchedQuota
  imports SchedState
begin

text \<open>
  Compute quotas and admission of the scheduler (src/scheduler.c, \<open>calculate_total_quota\<close> to
  \<open>can_run\<close> and \<open>can_run_with_memory\<close>): the proportional scaling of quotas, the weighted billing
  of running clients, the reset of the accounting window and the admission test. The lemmas give
  the effect of each on the clients, the fairness bounds, and the frame of \<open>can_run\<close>: it changes
  accounting fields only (\<open>skel\<close>).
\<close>

section \<open>Definitions\<close>

definition limited_on :: "gptr \<Rightarrow> sched_state \<Rightarrow> cptr \<Rightarrow> bool" where
  "limited_on g s p \<longleftrightarrow> c_context (client s p) = Some g \<and> c_core_limit (client s p) < 100"

definition calculate_total_quota :: "gptr \<Rightarrow> sched_state \<Rightarrow> int" where
  "calculate_total_quota g s =
     (let tot = sum_list (map (\<lambda>p. if limited_on g s p then c_core_limit (client s p) else 0) (s_clients s))
      in if tot > 0 then tot else 100)"

definition count_running_clients :: "gptr \<Rightarrow> sched_state \<Rightarrow> int" where
  "count_running_clients g s =
     (let count = int (length (filter (\<lambda>p. c_core_limit (client s p) < 100) (g_running_list (gpu s g))))
      in if count > 0 then count else 1)"

definition get_effective_quota_ms :: "gptr \<Rightarrow> cptr \<Rightarrow> sched_state \<Rightarrow> int" where
  "get_effective_quota_ms g p s =
     (let total_quota = calculate_total_quota g s;
          base_quota_ms = cfg_compute_window_ms (s_config s) * c_core_limit (client s p) sdiv 100
      in if total_quota \<le> 100 then base_quota_ms else base_quota_ms * 100 sdiv total_quota)"

definition accrue_one :: "int \<Rightarrow> int \<Rightarrow> cptr option \<Rightarrow> cptr \<Rightarrow> sched_state \<Rightarrow> sched_state" where
  "accrue_one now n_running exclude p s =
     (let c = client s p; duration = now - c_current_run_start_ms c in
      if exclude = Some p \<or> c_core_limit c \<ge> 100 \<or> c_pending_drop c
         \<or> c_current_run_start_ms c \<le> 0 \<or> duration \<le> 0 then s
      else upd_client p (\<lambda>c. c\<lparr>c_run_time_in_window_ms := c_run_time_in_window_ms c + duration sdiv n_running,
                               c_current_run_start_ms := now\<rparr>) s)"

definition accrue_running_usage :: "gptr \<Rightarrow> int \<Rightarrow> cptr option \<Rightarrow> sched_state \<Rightarrow> sched_state res" where
  "accrue_running_usage g now exclude s =
     bindR (guard_live (g_running_list (gpu s g)) s) (\<lambda>s.
       Inr (fold (accrue_one now (count_running_clients g s) exclude) (g_running_list (gpu s g)) s))"

definition reset_client :: "gptr \<Rightarrow> cptr \<Rightarrow> sched_state \<Rightarrow> sched_state" where
  "reset_client g p s =
     (if c_context (client s p) = Some g then
        (if c_core_limit (client s p) < 100 then
           (let limit_ms = get_effective_quota_ms g p s;
                used = c_run_time_in_window_ms (client s p);
                carry_ms = (if used > limit_ms
                            then (used - limit_ms) * cfg_quota_carryover_percent (s_config s) sdiv 100 else 0)
            in upd_client p (\<lambda>c. c\<lparr>c_quota_debt_ms := carry_ms, c_run_time_in_window_ms := carry_ms,
                                   c_is_throttled := False\<rparr>) s)
         else upd_client p (\<lambda>c. c\<lparr>c_quota_debt_ms := 0, c_run_time_in_window_ms := 0,
                                  c_is_throttled := False\<rparr>) s)
      else s)"

definition check_and_reset_window :: "gptr \<Rightarrow> sched_state \<Rightarrow> (bool \<times> sched_state) res" where
  "check_and_reset_window g s =
     (let (now, s1) = current_time_ms s;
          s2 = (if g_window_start_ms (gpu s1 g) = 0 then upd_gpu g (\<lambda>x. x\<lparr>g_window_start_ms := now\<rparr>) s1 else s1)
      in if now - g_window_start_ms (gpu s2 g) \<ge> cfg_compute_window_ms (s_config s2) then
           (let s3 = upd_gpu g (\<lambda>x. x\<lparr>g_window_start_ms := now\<rparr>) s2 in
            bindR (accrue_running_usage g now None s3) (\<lambda>s4.
              Inr (True, upd_gpu g (\<lambda>x. x\<lparr>g_sched_wake := True\<rparr>)
                           (fold (reset_client g) (s_clients s4) s4))))
         else Inr (False, s2))"

definition safe_limit :: "size_t \<Rightarrow> int \<Rightarrow> size_t" where
  "safe_limit tot reserve = tot * word_of_int (100 - reserve) div 100"

definition can_run_with_memory :: "gptr \<Rightarrow> cptr \<Rightarrow> sched_state \<Rightarrow> bool" where
  "can_run_with_memory g p s =
     (let ctx = gpu s g; cfg = s_config s;
          limit = safe_limit (g_total_memory ctx) (cfg_memory_reserve_percent cfg);
          needed = g_running_memory_usage ctx + c_memory_allocated (client s p)
      in if g_memory_overloaded ctx then \<not> g_lock_held ctx
         else case cfg_scheduling_mode cfg of
             SCHED_MODE_SERIAL \<Rightarrow> \<not> g_lock_held ctx
           | SCHED_MODE_CONCURRENT \<Rightarrow> g_running_memory_usage ctx = 0 \<or> needed \<le> limit
           | SCHED_MODE_AUTO \<Rightarrow> g_running_memory_usage ctx = 0 \<or> needed \<le> limit \<or> \<not> g_lock_held ctx)"

text \<open>The quota part of the admission test.\<close>

definition quota_ok :: "gptr \<Rightarrow> cptr \<Rightarrow> sched_state \<Rightarrow> bool" where
  "quota_ok g p s \<longleftrightarrow> c_core_limit (client s p) < 100 \<longrightarrow>
     \<not> c_is_throttled (client s p) \<and> c_run_time_in_window_ms (client s p) < get_effective_quota_ms g p s"

definition can_run :: "gptr \<Rightarrow> cptr \<Rightarrow> sched_state \<Rightarrow> (bool \<times> sched_state) res" where
  "can_run g p s =
     bindR (check_and_reset_window g s) (\<lambda>(_, s1).
       bindR (guard_live [p] s1) (\<lambda>s2. Inr (quota_ok g p s2 \<and> can_run_with_memory g p s2, s2)))"

section \<open>The frame of the accounting operations\<close>

definition qerase :: "nvshare_client \<Rightarrow> nvshare_client" where
  "qerase c = c\<lparr>c_run_time_in_window_ms := 0, c_current_run_start_ms := 0, c_is_throttled := False,
     c_quota_debt_ms := 0\<rparr>"

definition gerase :: "gpu_context \<Rightarrow> gpu_context" where
  "gerase x = x\<lparr>g_window_start_ms := 0, g_sched_wake := False\<rparr>"

definition skel :: "sched_state \<Rightarrow> sched_state" where
  "skel s = s\<lparr>s_cmem := qerase \<circ> s_cmem s, s_gmem := gerase \<circ> s_gmem s,
     s_world := (s_world s)\<lparr>w_clock_n := 0\<rparr>\<rparr>"

lemma skel_upd_client: "(\<And>c. qerase (f c) = qerase c) \<Longrightarrow> skel (upd_client p f s) = skel s"
  by (simp add: skel_def upd_client_def fun_eq_iff)

lemma skel_upd_gpu: "(\<And>x. gerase (f x) = gerase x) \<Longrightarrow> skel (upd_gpu g f s) = skel s"
  by (simp add: skel_def upd_gpu_def fun_eq_iff)

lemma skel_fold: "(\<And>p s. skel (f p s) = skel s) \<Longrightarrow> skel (fold f ps s) = skel s"
  by (induction ps arbitrary: s) auto

lemma skel_accrue_one: "skel (accrue_one now n e p s) = skel s"
  by (simp add: accrue_one_def Let_def skel_upd_client qerase_def)

lemma skel_reset_client: "skel (reset_client g p s) = skel s"
  by (simp add: reset_client_def Let_def skel_upd_client qerase_def)

lemma skel_current_time: "skel (snd (current_time_ms s)) = skel s"
  by (simp add: current_time_ms_def skel_def)

lemma skel_accrue: "accrue_running_usage g now e s = Inr s' \<Longrightarrow> skel s' = skel s"
  by (auto simp: accrue_running_usage_def guard_live_def skel_fold skel_accrue_one split: if_splits)

lemma skel_check_window:
  assumes "check_and_reset_window g s = Inr (b, s')" shows "skel s' = skel s"
proof -
  let ?now = "fst (current_time_ms s)" and ?s1 = "snd (current_time_ms s)"
  let ?s2 = "if g_window_start_ms (gpu ?s1 g) = 0
    then upd_gpu g (\<lambda>x. x\<lparr>g_window_start_ms := ?now\<rparr>) ?s1 else ?s1"
  have 2: "skel ?s2 = skel s" by (simp add: skel_upd_gpu gerase_def skel_current_time)
  show ?thesis
  proof (cases "?now - g_window_start_ms (gpu ?s2 g) \<ge> cfg_compute_window_ms (s_config ?s2)")
    case True
    then obtain s4 where "accrue_running_usage g ?now None (upd_gpu g (\<lambda>x. x\<lparr>g_window_start_ms := ?now\<rparr>) ?s2) = Inr s4"
      and "s' = upd_gpu g (\<lambda>x. x\<lparr>g_sched_wake := True\<rparr>) (fold (reset_client g) (s_clients s4) s4)"
      using assms by (auto simp: check_and_reset_window_def Let_def case_prod_beta bindR_Inr_iff)
    with 2 show ?thesis
      by (auto dest!: skel_accrue simp: skel_upd_gpu gerase_def skel_fold skel_reset_client)
  next
    case False
    with assms 2 show ?thesis
      by (auto simp: check_and_reset_window_def Let_def case_prod_beta)
  qed
qed

lemma skel_can_run: "can_run g p s = Inr (b, s') \<Longrightarrow> skel s' = skel s"
  by (auto simp: can_run_def bindR_Inr_iff guard_live_def dest: skel_check_window split: if_splits)

text \<open>What two states with the same skeleton agree on.\<close>

lemma skel_fields:
  assumes "skel s' = skel s"
  shows "s_config s' = s_config s" "s_on s' = s_on s" "s_tq s' = s_tq s" "s_out_msg s' = s_out_msg s"
    "s_clients s' = s_clients s" "s_contexts s' = s_contexts s" "s_epoll s' = s_epoll s"
    "s_metrics s' = s_metrics s" "alive s' p = alive s p"
proof -
  have "f (skel s') = f (skel s)" for f :: "sched_state \<Rightarrow> 'z" using assms by simp
  from this [of s_config] this [of s_on] this [of s_tq] this [of s_out_msg] this [of s_clients]
    this [of s_contexts] this [of s_epoll] this [of s_metrics]
  show "s_config s' = s_config s" "s_on s' = s_on s" "s_tq s' = s_tq s" "s_out_msg s' = s_out_msg s"
    "s_clients s' = s_clients s" "s_contexts s' = s_contexts s" "s_epoll s' = s_epoll s"
    "s_metrics s' = s_metrics s" "alive s' p = alive s p"
    by (simp_all add: skel_def alive_def)
qed

lemma skel_client:
  assumes "skel s' = skel s" shows "qerase (client s' p) = qerase (client s p)"
proof -
  have "s_cmem (skel s') p = s_cmem (skel s) p" using assms by simp
  then show ?thesis by (simp add: skel_def)
qed

lemma skel_gpu:
  assumes "skel s' = skel s" shows "gerase (gpu s' g) = gerase (gpu s g)"
proof -
  have "s_gmem (skel s') g = s_gmem (skel s) g" using assms by simp
  then show ?thesis by (simp add: skel_def)
qed

lemma qerase_fields:
  assumes "qerase c' = qerase c"
  shows "c_fd c' = c_fd c" "c_id c' = c_id c" "c_context c' = c_context c"
    "c_memory_allocated c' = c_memory_allocated c" "c_is_running c' = c_is_running c"
    "c_core_limit c' = c_core_limit c" "c_pending_drop c' = c_pending_drop c"
    "c_drop_concurrency c' = c_drop_concurrency c" "c_last_drop_sent_ms c' = c_last_drop_sent_ms c"
    "c_memory_limit c' = c_memory_limit c" "c_peak_allocated c' = c_peak_allocated c"
  using arg_cong [OF assms, of c_fd] arg_cong [OF assms, of c_id] arg_cong [OF assms, of c_context]
    arg_cong [OF assms, of c_memory_allocated] arg_cong [OF assms, of c_is_running]
    arg_cong [OF assms, of c_core_limit] arg_cong [OF assms, of c_pending_drop]
    arg_cong [OF assms, of c_drop_concurrency] arg_cong [OF assms, of c_last_drop_sent_ms]
    arg_cong [OF assms, of c_memory_limit] arg_cong [OF assms, of c_peak_allocated]
  by (simp_all add: qerase_def)

lemma gerase_fields:
  assumes "gerase x' = gerase x"
  shows "g_uuid x' = g_uuid x" "g_requests x' = g_requests x" "g_running_list x' = g_running_list x"
    "g_lock_held x' = g_lock_held x" "g_must_reset_timer x' = g_must_reset_timer x"
    "g_total_memory x' = g_total_memory x" "g_running_memory_usage x' = g_running_memory_usage x"
    "g_peak_memory_usage x' = g_peak_memory_usage x" "g_memory_overloaded x' = g_memory_overloaded x"
    "g_wait_queue x' = g_wait_queue x" "g_timer_wake x' = g_timer_wake x"
  using arg_cong [OF assms, of g_uuid] arg_cong [OF assms, of g_requests] arg_cong [OF assms, of g_running_list]
    arg_cong [OF assms, of g_lock_held] arg_cong [OF assms, of g_must_reset_timer]
    arg_cong [OF assms, of g_total_memory] arg_cong [OF assms, of g_running_memory_usage]
    arg_cong [OF assms, of g_peak_memory_usage] arg_cong [OF assms, of g_memory_overloaded]
    arg_cong [OF assms, of g_wait_queue] arg_cong [OF assms, of g_timer_wake]
  by (simp_all add: gerase_def)

lemmas skel_simps = skel_fields qerase_fields [OF skel_client] gerase_fields [OF skel_gpu]

lemma skel_world:
  assumes "skel s' = skel s"
  shows "w_clock (s_world s') = w_clock (s_world s)" "w_write (s_world s') = w_write (s_world s)"
    "w_stale_fd (s_world s') = w_stale_fd (s_world s)" "w_sent (s_world s') = w_sent (s_world s)"
    "w_write_n (s_world s') = w_write_n (s_world s)" "w_rand (s_world s') = w_rand (s_world s)"
    "w_rand_n (s_world s') = w_rand_n (s_world s)" "w_time (s_world s') = w_time (s_world s)"
    "w_time_n (s_world s') = w_time_n (s_world s)"
proof -
  have w: "s_world (skel s') = s_world (skel s)" using assms by simp
  show "w_clock (s_world s') = w_clock (s_world s)" "w_write (s_world s') = w_write (s_world s)"
    "w_stale_fd (s_world s') = w_stale_fd (s_world s)" "w_sent (s_world s') = w_sent (s_world s)"
    "w_write_n (s_world s') = w_write_n (s_world s)" "w_rand (s_world s') = w_rand (s_world s)"
    "w_rand_n (s_world s') = w_rand_n (s_world s)" "w_time (s_world s') = w_time (s_world s)"
    "w_time_n (s_world s') = w_time_n (s_world s)"
    using arg_cong [OF w, of w_clock] arg_cong [OF w, of w_write] arg_cong [OF w, of w_stale_fd]
      arg_cong [OF w, of w_sent] arg_cong [OF w, of w_write_n] arg_cong [OF w, of w_rand]
      arg_cong [OF w, of w_rand_n] arg_cong [OF w, of w_time] arg_cong [OF w, of w_time_n]
    by (simp_all add: skel_def)
qed

section \<open>Effect on the clients\<close>

lemma limited_on_skel:
  assumes h: "skel s' = skel s" shows "limited_on g s' p = limited_on g s p"
  by (simp add: limited_on_def skel_simps [OF h])

lemma total_quota_skel:
  assumes h: "skel s' = skel s" shows "calculate_total_quota g s' = calculate_total_quota g s"
  by (simp add: calculate_total_quota_def limited_on_skel [OF h] skel_simps [OF h] cong: if_cong)

lemma effective_quota_skel:
  assumes h: "skel s' = skel s" shows "get_effective_quota_ms g p s' = get_effective_quota_ms g p s"
  by (simp add: get_effective_quota_ms_def total_quota_skel [OF h] skel_simps [OF h])

lemma count_running_skel:
  assumes h: "skel s' = skel s" shows "count_running_clients g s' = count_running_clients g s"
  by (simp add: count_running_clients_def skel_simps [OF h])

lemma memory_test_skel:
  assumes h: "skel s' = skel s" shows "can_run_with_memory g p s' = can_run_with_memory g p s"
  by (simp add: can_run_with_memory_def Let_def skel_simps [OF h] split: scheduling_mode.split)

lemma count_running_pos: "1 \<le> count_running_clients g s"
  by (auto simp: count_running_clients_def Let_def Suc_le_eq)

lemma client_upd_client [simp]: "client (upd_client p f s) q = (if q = p then f (client s p) else client s q)"
  by (simp add: upd_client_def)

lemma gpu_upd_client [simp]: "gpu (upd_client p f s) g = gpu s g"
  by (simp add: upd_client_def)

lemma gpu_upd_gpu [simp]: "gpu (upd_gpu g f s) h = (if h = g then f (gpu s g) else gpu s h)"
  by (simp add: upd_gpu_def)

lemma client_upd_gpu [simp]: "client (upd_gpu g f s) p = client s p"
  by (simp add: upd_gpu_def)

lemma upd_other_fields [simp]:
  "s_config (upd_client p f s) = s_config s" "s_config (upd_gpu g h s) = s_config s"
  "s_clients (upd_client p f s) = s_clients s" "s_clients (upd_gpu g h s) = s_clients s"
  "s_contexts (upd_client p f s) = s_contexts s" "s_contexts (upd_gpu g h s) = s_contexts s"
  "s_epoll (upd_client p f s) = s_epoll s" "s_epoll (upd_gpu g h s) = s_epoll s"
  "s_world (upd_client p f s) = s_world s" "s_world (upd_gpu g h s) = s_world s"
  "s_out_msg (upd_client p f s) = s_out_msg s" "s_out_msg (upd_gpu g h s) = s_out_msg s"
  "s_on (upd_client p f s) = s_on s" "s_on (upd_gpu g h s) = s_on s"
  "s_tq (upd_client p f s) = s_tq s" "s_tq (upd_gpu g h s) = s_tq s"
  "s_metrics (upd_client p f s) = s_metrics s" "s_metrics (upd_gpu g h s) = s_metrics s"
  by (simp_all add: upd_client_def upd_gpu_def)

lemma alive_upd [simp]: "alive (upd_client p f s) q = alive s q" "alive (upd_gpu g h s) q = alive s q"
  by (simp_all add: alive_def)

lemma accrue_one_other: "q \<noteq> p \<Longrightarrow> client (accrue_one now n e p s) q = client s q"
  by (simp add: accrue_one_def Let_def)

lemma fold_accrue_other: "q \<notin> set ps \<Longrightarrow> client (fold (accrue_one now n e) ps s) q = client s q"
  by (induction ps arbitrary: s) (auto simp: accrue_one_other)

lemma accrue_one_local:
  "client s' p = client s p \<Longrightarrow> client (accrue_one now n e p s') p = client (accrue_one now n e p s) p"
  by (simp add: accrue_one_def Let_def)

lemma fold_accrue_member:
  "distinct ps \<Longrightarrow> p \<in> set ps \<Longrightarrow>
   client (fold (accrue_one now n e) ps s) p = client (accrue_one now n e p s) p"
proof (induction ps arbitrary: s)
  case (Cons q ps)
  show ?case
  proof (cases "p = q")
    case True
    with Cons.prems show ?thesis by (simp add: fold_accrue_other)
  next
    case False
    then have "client (fold (accrue_one now n e) ps (accrue_one now n e q s)) p
      = client (accrue_one now n e p (accrue_one now n e q s)) p"
      using Cons by simp
    also have "\<dots> = client (accrue_one now n e p s) p"
      using False by (intro accrue_one_local) (simp add: accrue_one_other)
    finally show ?thesis by simp
  qed
qed simp

lemma reset_client_other: "q \<noteq> p \<Longrightarrow> client (reset_client g p s) q = client s q"
  by (simp add: reset_client_def Let_def)

lemma reset_client_local:
  assumes h: "skel s' = skel s" and p: "client s' p = client s p"
  shows "client (reset_client g p s') p = client (reset_client g p s) p"
  by (simp add: reset_client_def Let_def p effective_quota_skel [OF h] skel_fields [OF h])

lemma fold_reset_other: "q \<notin> set ps \<Longrightarrow> client (fold (reset_client g) ps s) q = client s q"
  by (induction ps arbitrary: s) (auto simp: reset_client_other)

lemma fold_reset_member:
  "distinct ps \<Longrightarrow> p \<in> set ps \<Longrightarrow> client (fold (reset_client g) ps s) p = client (reset_client g p s) p"
proof (induction ps arbitrary: s)
  case (Cons q ps)
  show ?case
  proof (cases "p = q")
    case True
    with Cons.prems show ?thesis by (simp add: fold_reset_other)
  next
    case False
    then have "client (fold (reset_client g) ps (reset_client g q s)) p
      = client (reset_client g p (reset_client g q s)) p"
      using Cons by simp
    also have "\<dots> = client (reset_client g p s) p"
      using False by (intro reset_client_local) (simp_all add: reset_client_other skel_reset_client)
    finally show ?thesis by simp
  qed
qed simp

section \<open>Fairness of the quotas\<close>

lemma sum_div_le: "0 < n \<Longrightarrow> sum_list (map (\<lambda>x. f x div n) xs) \<le> sum_list (map f xs) div (n::int)"
proof -
  assume n: "0 < n"
  have "sum_list (map (\<lambda>x. f x div n) xs) * n \<le> sum_list (map f xs)"
  proof (induction xs)
    case (Cons x xs)
    have "f x div n * n \<le> f x" using n by (simp add: minus_mod_eq_div_mult [symmetric])
    with Cons show ?case by (simp add: distrib_right)
  qed simp
  from zdiv_mono1 [OF this n] show ?thesis using n by simp
qed

lemma sum_list_filter_if:
  "sum_list (map f (filter P xs)) = sum_list (map (\<lambda>x. if P x then f x else 0) (xs :: 'a list))"
  for f :: "'a \<Rightarrow> int"
  by (induction xs) auto

definition limited_clients :: "gptr \<Rightarrow> sched_state \<Rightarrow> cptr list" where
  "limited_clients g s = filter (limited_on g s) (s_clients s)"

definition limits_ok :: "gptr \<Rightarrow> sched_state \<Rightarrow> bool" where
  "limits_ok g s \<longleftrightarrow> list_all (\<lambda>p. 0 \<le> c_core_limit (client s p)) (limited_clients g s)"

lemma total_quota_eq:
  "calculate_total_quota g s =
    (let t = sum_list (map (\<lambda>p. c_core_limit (client s p)) (limited_clients g s)) in if t > 0 then t else 100)"
  by (simp add: calculate_total_quota_def limited_clients_def sum_list_filter_if)

lemma total_quota_pos: "0 < calculate_total_quota g s"
  by (simp add: calculate_total_quota_def Let_def)

text \<open>The effective quota without truncating division.\<close>

lemma effective_quota_eq:
  assumes "config_ok (s_config s)" "0 \<le> c_core_limit (client s p)"
  shows "get_effective_quota_ms g p s =
    (let base = cfg_compute_window_ms (s_config s) * c_core_limit (client s p) div 100;
         t = calculate_total_quota g s in if t \<le> 100 then base else base * 100 div t)"
proof -
  have "0 \<le> cfg_compute_window_ms (s_config s)" using assms by (simp add: config_ok_def)
  then show ?thesis using assms total_quota_pos [of g s]
    by (simp add: get_effective_quota_ms_def Let_def pos_imp_zdiv_nonneg_iff)
qed

lemma effective_quota_nonneg:
  assumes "config_ok (s_config s)" "0 \<le> c_core_limit (client s p)"
  shows "0 \<le> get_effective_quota_ms g p s"
proof -
  have "0 \<le> cfg_compute_window_ms (s_config s)" using assms by (simp add: config_ok_def)
  then show ?thesis using assms total_quota_pos [of g s]
    by (simp add: effective_quota_eq Let_def pos_imp_zdiv_nonneg_iff)
qed

lemma quota_sum_le_window:
  assumes cfg: "config_ok (s_config s)" and lim: "limits_ok g s"
  shows "sum_list (map (\<lambda>p. get_effective_quota_ms g p s) (limited_clients g s))
    \<le> cfg_compute_window_ms (s_config s)"
proof -
  let ?W = "cfg_compute_window_ms (s_config s)" and ?L = "limited_clients g s"
  let ?cl = "\<lambda>p. c_core_limit (client s p)" and ?T = "calculate_total_quota g s"
  let ?S = "sum_list (map ?cl ?L)"
  have W: "0 \<le> ?W" using cfg by (simp add: config_ok_def)
  have ST: "?S \<le> ?T" by (simp add: total_quota_eq Let_def)
  have base: "sum_list (map (\<lambda>p. ?W * ?cl p div 100) ?L) \<le> ?W * ?T div 100"
  proof -
    have "sum_list (map (\<lambda>p. ?W * ?cl p div 100) ?L) \<le> sum_list (map (\<lambda>p. ?W * ?cl p) ?L) div 100"
      by (rule sum_div_le) simp
    also have "\<dots> = ?W * ?S div 100" by (simp add: sum_list_const_mult)
    also have "\<dots> \<le> ?W * ?T div 100" using W ST by (simp add: zdiv_mono1 mult_left_mono)
    finally show ?thesis .
  qed
  have eq: "map (\<lambda>p. get_effective_quota_ms g p s) ?L
    = map (\<lambda>p. if ?T \<le> 100 then ?W * ?cl p div 100 else ?W * ?cl p div 100 * 100 div ?T) ?L"
    using lim cfg by (auto simp: limits_ok_def list_all_iff effective_quota_eq Let_def)
  show ?thesis
  proof (cases "?T \<le> 100")
    case True
    have "?W * ?T div 100 \<le> ?W * 100 div 100" using True W by (intro zdiv_mono1 mult_left_mono) auto
    then show ?thesis using base True by (simp add: eq)
  next
    case False
    have "sum_list (map (\<lambda>p. ?W * ?cl p div 100 * 100 div ?T) ?L)
      \<le> sum_list (map (\<lambda>p. ?W * ?cl p div 100 * 100) ?L) div ?T"
      using False by (intro sum_div_le) simp
    also have "sum_list (map (\<lambda>p. ?W * ?cl p div 100 * 100) ?L) = sum_list (map (\<lambda>p. ?W * ?cl p div 100) ?L) * 100"
      by (simp add: sum_list_mult_const)
    also have "\<dots> div ?T \<le> ?W * ?T div ?T"
    proof (intro zdiv_mono1)
      have "?W * ?T div 100 * 100 \<le> ?W * ?T" by (simp add: minus_mod_eq_div_mult [symmetric])
      then show "sum_list (map (\<lambda>p. ?W * ?cl p div 100) ?L) * 100 \<le> ?W * ?T" using base by linarith
    qed (use False in simp)
    finally show ?thesis using False by (simp add: eq)
  qed
qed

section \<open>Weighted billing\<close>

text \<open>What one accounting step adds to a client, and the clients it charges.\<close>

definition charged :: "int \<Rightarrow> cptr option \<Rightarrow> sched_state \<Rightarrow> cptr \<Rightarrow> bool" where
  "charged now e s p \<longleftrightarrow> e \<noteq> Some p \<and> c_core_limit (client s p) < 100 \<and> \<not> c_pending_drop (client s p)
     \<and> 0 < c_current_run_start_ms (client s p) \<and> c_current_run_start_ms (client s p) < now"

lemma accrue_one_charged:
  "client (accrue_one now n e p s) p =
    (if charged now e s p
     then (client s p)\<lparr>c_run_time_in_window_ms := c_run_time_in_window_ms (client s p)
            + (now - c_current_run_start_ms (client s p)) sdiv n, c_current_run_start_ms := now\<rparr>
     else client s p)"
  by (auto simp: accrue_one_def charged_def Let_def)

lemma accrue_client:
  assumes "accrue_running_usage g now e s = Inr s'" "distinct (g_running_list (gpu s g))"
  shows "client s' p = (if p \<in> set (g_running_list (gpu s g))
    then client (accrue_one now (count_running_clients g s) e p s) p else client s p)"
  using assms by (auto simp: accrue_running_usage_def guard_live_def fold_accrue_member fold_accrue_other
      split: if_splits)

lemma accrue_total:
  "list_all (alive s) (g_running_list (gpu s g)) \<Longrightarrow>
   accrue_running_usage g now e s
     = Inr (fold (accrue_one now (count_running_clients g s) e) (g_running_list (gpu s g)) s)"
  by (simp add: accrue_running_usage_def guard_live_def)

lemma count_charged_le:
  "int (length (filter (charged now e s) (g_running_list (gpu s g)))) \<le> count_running_clients g s"
proof -
  have "length (filter (charged now e s) rs) \<le> length (filter (\<lambda>p. c_core_limit (client s p) < 100) rs)" for rs
    by (induction rs) (auto simp: charged_def)
  from this [of "g_running_list (gpu s g)"] show ?thesis
    by (auto simp: count_running_clients_def Let_def)
qed

lemma accrue_conservation:
  assumes acc: "accrue_running_usage g now e s = Inr s'"
    and dist: "distinct (g_running_list (gpu s g))"
    and start: "\<forall>p \<in> set (g_running_list (gpu s g)). t0 \<le> c_current_run_start_ms (client s p)"
    and t0: "t0 \<le> now"
  shows "sum_list (map (\<lambda>p. c_run_time_in_window_ms (client s' p) - c_run_time_in_window_ms (client s p))
           (g_running_list (gpu s g))) \<le> now - t0"
proof -
  let ?R = "g_running_list (gpu s g)" and ?n = "count_running_clients g s"
  let ?d = "\<lambda>p. c_run_time_in_window_ms (client s' p) - c_run_time_in_window_ms (client s p)"
  let ?q = "(now - t0) div ?n"
  have n: "1 \<le> ?n" by (rule count_running_pos)
  have q: "0 \<le> ?q" using n t0 by (simp add: pos_imp_zdiv_nonneg_iff)
  have each: "?d p \<le> (if charged now e s p then ?q else 0)" if "p \<in> set ?R" for p
  proof -
    have "charged now e s p \<Longrightarrow> (now - c_current_run_start_ms (client s p)) sdiv ?n \<le> ?q"
      using start that n by (auto simp: charged_def intro!: zdiv_mono1)
    then show ?thesis by (simp add: accrue_client [OF acc dist] that accrue_one_charged)
  qed
  have "sum_list (map ?d ?R) \<le> sum_list (map (\<lambda>p. if charged now e s p then ?q else 0) ?R)"
    using each by (rule sum_list_mono)
  also have "\<dots> = int (length (filter (charged now e s) ?R)) * ?q"
  proof -
    have "sum_list (map (\<lambda>p. if charged now e s p then ?q else 0) rs) = int (length (filter (charged now e s) rs)) * ?q" for rs
      by (induction rs) (auto simp: distrib_right)
    then show ?thesis .
  qed
  also have "\<dots> \<le> ?n * ?q" using count_charged_le q by (rule mult_right_mono)
  also have "\<dots> \<le> now - t0" using n by (simp add: minus_mod_eq_mult_div [symmetric])
  finally show ?thesis .
qed

section \<open>The window reset and the admission test\<close>

text \<open>The carry of a client after a reset.\<close>

definition carry_ms :: "gptr \<Rightarrow> sched_state \<Rightarrow> cptr \<Rightarrow> int" where
  "carry_ms g s p = (let used = c_run_time_in_window_ms (client s p); limit = get_effective_quota_ms g p s in
     if c_core_limit (client s p) < 100 \<and> used > limit
     then (used - limit) * cfg_quota_carryover_percent (s_config s) sdiv 100 else 0)"

lemma reset_client_self:
  "c_context (client s p) = Some g \<Longrightarrow> client (reset_client g p s) p =
     (client s p)\<lparr>c_quota_debt_ms := carry_ms g s p, c_run_time_in_window_ms := carry_ms g s p,
                   c_is_throttled := False\<rparr>"
  by (simp add: reset_client_def carry_ms_def Let_def)

lemma reset_client_foreign: "c_context (client s p) \<noteq> Some g \<Longrightarrow> reset_client g p s = s"
  by (simp add: reset_client_def)

lemma carry_bounds:
  assumes "config_ok (s_config s)"
  shows "0 \<le> carry_ms g s p"
    and "get_effective_quota_ms g p s \<le> c_run_time_in_window_ms (client s p) \<Longrightarrow>
      carry_ms g s p \<le> c_run_time_in_window_ms (client s p) - get_effective_quota_ms g p s"
    and "c_run_time_in_window_ms (client s p) \<le> get_effective_quota_ms g p s \<Longrightarrow> carry_ms g s p = 0"
  using assms by (auto simp: carry_ms_def Let_def config_ok_def percent_le simp del: sdiv_pos
      intro!: sdiv_nonneg)

lemma current_time_simps [simp]:
  "client (snd (current_time_ms s)) p = client s p" "gpu (snd (current_time_ms s)) g = gpu s g"
  "s_clients (snd (current_time_ms s)) = s_clients s" "s_config (snd (current_time_ms s)) = s_config s"
  "s_contexts (snd (current_time_ms s)) = s_contexts s" "s_epoll (snd (current_time_ms s)) = s_epoll s"
  "s_out_msg (snd (current_time_ms s)) = s_out_msg s" "s_on (snd (current_time_ms s)) = s_on s"
  "s_tq (snd (current_time_ms s)) = s_tq s" "s_metrics (snd (current_time_ms s)) = s_metrics s"
  "alive (snd (current_time_ms s)) p = alive s p"
  by (simp_all add: current_time_ms_def alive_def)

definition running_live :: "gptr \<Rightarrow> sched_state \<Rightarrow> bool" where
  "running_live g s \<longleftrightarrow> list_all (alive s) (g_running_list (gpu s g))"

lemma check_window_total: "running_live g s \<Longrightarrow> \<exists>b s'. check_and_reset_window g s = Inr (b, s')"
  by (auto simp: check_and_reset_window_def Let_def case_prod_beta running_live_def accrue_total list_all_iff)

lemma can_run_total:
  assumes "running_live g s" "alive s p" shows "\<exists>b s'. can_run g p s = Inr (b, s')"
proof -
  obtain b s1 where c: "check_and_reset_window g s = Inr (b, s1)" using check_window_total assms by blast
  have "alive s1 p" using skel_fields(9) [OF skel_check_window [OF c]] assms by simp
  then show ?thesis by (simp add: can_run_def c guard_live_def)
qed

lemma can_run_value: "can_run g p s = Inr (b, s') \<Longrightarrow> b \<longleftrightarrow> quota_ok g p s' \<and> can_run_with_memory g p s'"
  by (auto simp: can_run_def bindR_Inr_iff guard_live_def split: if_splits)

lemma can_run_window: "can_run g p s = Inr (b, s') \<Longrightarrow> \<exists>r. check_and_reset_window g s = Inr (r, s')"
  by (auto simp: can_run_def bindR_Inr_iff guard_live_def split: if_splits)

text \<open>A client that is not running is left alone or reset.\<close>

lemma check_window_client:
  assumes c: "check_and_reset_window g s = Inr (b, s')" and p: "p \<notin> set (g_running_list (gpu s g))"
    and dist: "distinct (s_clients s)" "distinct (g_running_list (gpu s g))"
  shows "client s' p = client s p \<or> b \<and> alive s p \<and> client s' p = client (reset_client g p s) p"
proof -
  let ?now = "fst (current_time_ms s)" and ?s1 = "snd (current_time_ms s)"
  let ?s2 = "if g_window_start_ms (gpu ?s1 g) = 0
    then upd_gpu g (\<lambda>x. x\<lparr>g_window_start_ms := ?now\<rparr>) ?s1 else ?s1"
  let ?s3 = "upd_gpu g (\<lambda>x. x\<lparr>g_window_start_ms := ?now\<rparr>) ?s2"
  show ?thesis
  proof (cases "?now - g_window_start_ms (gpu ?s2 g) \<ge> cfg_compute_window_ms (s_config ?s2)")
    case True
    then obtain s4 where a: "accrue_running_usage g ?now None ?s3 = Inr s4"
      and s': "b" "s' = upd_gpu g (\<lambda>x. x\<lparr>g_sched_wake := True\<rparr>) (fold (reset_client g) (s_clients s4) s4)"
      using c by (auto simp: check_and_reset_window_def Let_def case_prod_beta bindR_Inr_iff)
    have same: "skel s4 = skel s"
      using skel_accrue [OF a] by (simp add: skel_upd_gpu gerase_def skel_current_time)
    have p4: "client s4 p = client s p"
      using a p dist by (subst accrue_client [OF a]) auto
    show ?thesis
    proof (cases "alive s p")
      case True
      then show ?thesis using s' dist p4 skel_fields(5) [OF same] reset_client_local [OF same p4]
        by (simp add: fold_reset_member alive_def)
    next
      case False
      then show ?thesis using s' p4 skel_fields(5) [OF same] by (simp add: fold_reset_other alive_def)
    qed
  next
    case False
    then show ?thesis using c by (auto simp: check_and_reset_window_def Let_def case_prod_beta)
  qed
qed

lemma check_window_quota_ok:
  assumes c: "check_and_reset_window g s = Inr (b, s')" and p: "p \<notin> set (g_running_list (gpu s g))"
    and dist: "distinct (s_clients s)" "distinct (g_running_list (gpu s g))"
    and cfg: "config_ok (s_config s)" and nonneg: "0 \<le> c_run_time_in_window_ms (client s p)"
    and ok: "quota_ok g p s"
  shows "quota_ok g p s'"
proof -
  have eq: "get_effective_quota_ms g p s' = get_effective_quota_ms g p s"
    by (rule effective_quota_skel [OF skel_check_window [OF c]])
  from check_window_client [OF c p dist] show ?thesis
  proof
    assume "client s' p = client s p"
    with ok eq show ?thesis by (simp add: quota_ok_def)
  next
    assume r: "b \<and> alive s p \<and> client s' p = client (reset_client g p s) p"
    show ?thesis
    proof (cases "c_context (client s p) = Some g")
      case True
      with r have "client s' p = (client s p)\<lparr>c_quota_debt_ms := carry_ms g s p,
        c_run_time_in_window_ms := carry_ms g s p, c_is_throttled := False\<rparr>"
        by (simp add: reset_client_self)
      moreover have "carry_ms g s p = 0" if "c_core_limit (client s p) < 100"
        using ok that carry_bounds(3) [OF cfg] by (simp add: quota_ok_def)
      ultimately show ?thesis using ok eq nonneg by (auto simp: quota_ok_def)
    next
      case False
      with r ok eq show ?thesis by (simp add: quota_ok_def reset_client_foreign)
    qed
  qed
qed

text \<open>An admission test that would succeed now still succeeds when it is made: a window reset in
  between can only help a client that is not running.\<close>

lemma can_run_admits:
  assumes live: "running_live g s" "alive s p" and p: "p \<notin> set (g_running_list (gpu s g))"
    and dist: "distinct (s_clients s)" "distinct (g_running_list (gpu s g))"
    and cfg: "config_ok (s_config s)" and nonneg: "0 \<le> c_run_time_in_window_ms (client s p)"
    and ok: "quota_ok g p s" "can_run_with_memory g p s"
  shows "\<exists>s'. can_run g p s = Inr (True, s') \<and> skel s' = skel s"
proof -
  obtain b s' where r: "can_run g p s = Inr (b, s')" using can_run_total live by blast
  obtain w where c: "check_and_reset_window g s = Inr (w, s')" using can_run_window [OF r] by blast
  have "quota_ok g p s'" by (rule check_window_quota_ok [OF c p dist cfg nonneg ok(1)])
  moreover have "can_run_with_memory g p s'" using ok(2) memory_test_skel [OF skel_can_run [OF r]] by simp
  ultimately show ?thesis using r can_run_value [OF r] skel_can_run [OF r] by simp
qed

text \<open>Accounting keeps the billed time of every registered client non-negative, and its share is
  a percentage.\<close>

definition bills_ok :: "sched_state \<Rightarrow> bool" where
  "bills_ok s \<longleftrightarrow> list_all (\<lambda>p. c_context (client s p) \<noteq> None \<longrightarrow> 0 \<le> c_run_time_in_window_ms (client s p)
     \<and> 1 \<le> c_core_limit (client s p) \<and> c_core_limit (client s p) \<le> 100) (s_clients s)"

lemma bills_okD:
  assumes "bills_ok s" "alive s p" "c_context (client s p) \<noteq> None"
  shows "0 \<le> c_run_time_in_window_ms (client s p)" "1 \<le> c_core_limit (client s p)" "c_core_limit (client s p) \<le> 100"
  using assms by (auto simp: bills_ok_def list_all_iff alive_def)

lemma accrue_one_bill:
  "1 \<le> n \<Longrightarrow> c_run_time_in_window_ms (client s q) \<le> c_run_time_in_window_ms (client (accrue_one now n e p s) q)"
  by (cases "q = p") (auto simp: accrue_one_other accrue_one_charged charged_def pos_imp_zdiv_nonneg_iff)

lemma fold_accrue_bill:
  "1 \<le> n \<Longrightarrow> c_run_time_in_window_ms (client s q) \<le> c_run_time_in_window_ms (client (fold (accrue_one now n e) ps s) q)"
  by (induction ps arbitrary: s) (auto intro: order_trans [OF accrue_one_bill])

lemma accrue_bill:
  assumes "accrue_running_usage g now e s = Inr s'"
  shows "c_run_time_in_window_ms (client s q) \<le> c_run_time_in_window_ms (client s' q)"
  using assms fold_accrue_bill [OF count_running_pos]
  by (auto simp: accrue_running_usage_def guard_live_def split: if_splits)

lemma reset_client_bill:
  assumes "config_ok (s_config s)" "0 \<le> c_run_time_in_window_ms (client s q)"
  shows "0 \<le> c_run_time_in_window_ms (client (reset_client g p s) q)"
proof (cases "q = p \<and> c_context (client s p) = Some g")
  case True
  then show ?thesis using carry_bounds(1) [OF assms(1)] by (simp add: reset_client_self)
next
  case False
  then show ?thesis using assms by (metis reset_client_foreign reset_client_other)
qed

lemma fold_reset_bill:
  "config_ok (s_config s) \<Longrightarrow> 0 \<le> c_run_time_in_window_ms (client s q) \<Longrightarrow>
   0 \<le> c_run_time_in_window_ms (client (fold (reset_client g) ps s) q)"
proof (induction ps arbitrary: s)
  case (Cons p ps)
  have "s_config (reset_client g p s) = s_config s" by (rule skel_fields(1) [OF skel_reset_client])
  with Cons show ?case by (simp add: reset_client_bill)
qed simp

lemma check_window_bill:
  assumes c: "check_and_reset_window g s = Inr (b, s')" and cfg: "config_ok (s_config s)"
    and q: "0 \<le> c_run_time_in_window_ms (client s q)"
  shows "0 \<le> c_run_time_in_window_ms (client s' q)"
proof (cases b)
  case True
  then obtain s3 s4 now where a: "accrue_running_usage g now None s3 = Inr s4"
    and s': "s' = upd_gpu g (\<lambda>x. x\<lparr>g_sched_wake := True\<rparr>) (fold (reset_client g) (s_clients s4) s4)"
    and s3: "client s3 q = client s q" "s_config s3 = s_config s"
    using c by (auto simp: check_and_reset_window_def Let_def case_prod_beta bindR_Inr_iff split: if_splits)
  have "0 \<le> c_run_time_in_window_ms (client s4 q)" using accrue_bill [OF a, of q] q s3 by simp
  then show ?thesis using cfg s' s3 skel_fields(1) [OF skel_accrue [OF a]] by (simp add: fold_reset_bill)
next
  case False
  then show ?thesis using c q
    by (auto simp: check_and_reset_window_def Let_def case_prod_beta bindR_Inr_iff split: if_splits)
qed

lemma bills_ok_step:
  assumes "bills_ok s" "s_clients s' = s_clients s" "\<And>p. c_context (client s' p) = c_context (client s p)"
    and "\<And>p. c_core_limit (client s' p) = c_core_limit (client s p)"
    and "\<And>p. 0 \<le> c_run_time_in_window_ms (client s p) \<Longrightarrow> 0 \<le> c_run_time_in_window_ms (client s' p)"
  shows "bills_ok s'"
  using assms by (simp add: bills_ok_def list_all_iff)

lemma can_run_bills:
  assumes r: "can_run g p s = Inr (b, s')" and "config_ok (s_config s)" "bills_ok s"
  shows "bills_ok s'"
proof -
  obtain w where c: "check_and_reset_window g s = Inr (w, s')" using can_run_window [OF r] by blast
  note k = skel_can_run [OF r]
  show ?thesis using assms(2-3)
    by (auto simp: skel_simps [OF k] intro!: bills_ok_step [of s s'] check_window_bill [OF c])
qed

lemma accrue_bills:
  assumes a: "accrue_running_usage g now e s = Inr s'" and "bills_ok s"
  shows "bills_ok s'"
  using assms(2) by (auto simp: skel_simps [OF skel_accrue [OF a]] intro!: bills_ok_step [of s s']
      order_trans [OF _ accrue_bill [OF a]])

end
