(* ===== verification/SchedQueue.thy ===== *)
theory SchedQueue
  imports SchedQuota "HOL-Library.Multiset"
begin

text \<open>
  The request queues and the scheduling loop of src/scheduler.c: \<open>insert_req\<close>, \<open>remove_req\<close>,
  \<open>delete_client\<close>, \<open>force_preemption\<close>, \<open>move_to_wait_queue\<close>, \<open>check_wait_queue\<close> and
  \<open>try_schedule\<close>. \<open>try_schedule\<close>, \<open>delete_client\<close> and \<open>remove_req\<close> call each other: the latter two
  take the recursive call as a parameter \<open>ts\<close>, and \<open>try_schedule\<close> is defined by recursion on
  fuel, one unit per turn of its \<^verbatim>\<open>goto try_again\<close> loop or nested call. Every read through a
  client pointer is guarded, so a read of freed memory is the failure \<open>UseAfterFree\<close>.
\<close>

section \<open>Insertion\<close>

text \<open>The duplicate test walks the requests up to the first one with the same descriptor.\<close>

fun has_request :: "sched_state \<Rightarrow> int \<Rightarrow> cptr list \<Rightarrow> bool res" where
  "has_request s fd [] = Inr False"
| "has_request s fd (r # rs) =
     (if \<not> alive s r then Inl UseAfterFree
      else if c_fd (client s r) = fd then Inr True else has_request s fd rs)"

definition insert_req :: "cptr \<Rightarrow> sched_state \<Rightarrow> sched_state res" where
  "insert_req p s =
     (case c_context (client s p) of
        None \<Rightarrow> Inr s
      | Some g \<Rightarrow> bindR (has_request s (c_fd (client s p)) (g_requests (gpu s g))) (\<lambda>dup.
          if dup then Inr s
          else Inr (upd_gpu g (\<lambda>x. x\<lparr>g_requests := g_requests x @ [p]\<rparr>) s)))"

section \<open>Preemption and the wait queue\<close>

fun preempt_loop :: "message \<Rightarrow> cptr list \<Rightarrow> sched_state \<Rightarrow> sched_state res" where
  "preempt_loop msg [] s = Inr s"
| "preempt_loop msg (p # ps) s =
     bindR (send_message p msg s) (\<lambda>(sent, s1).
       if sent
       then (let (now, s2) = current_time_ms s1 in
             preempt_loop msg ps
               (metrics_inc_drop_lock (upd_client p (\<lambda>c. c\<lparr>c_last_drop_sent_ms := now\<rparr>) s2)))
       else preempt_loop msg ps s1)"

definition force_preemption :: "gptr \<Rightarrow> sched_state \<Rightarrow> sched_state res" where
  "force_preemption g s = preempt_loop (zero_message\<lparr>m_type := DROP_LOCK\<rparr>) (g_running_list (gpu s g)) s"

text \<open>\<open>p\<close> is the client of the request at the head of the request queue.\<close>

definition move_to_wait_queue :: "gptr \<Rightarrow> cptr \<Rightarrow> sched_state \<Rightarrow> sched_state res" where
  "move_to_wait_queue g p s =
     (if p \<in> set (g_wait_queue (gpu s g)) then Inr s
      else (let s1 = upd_gpu g (\<lambda>x. x\<lparr>g_requests := tl (g_requests x), g_wait_queue := g_wait_queue x @ [p]\<rparr>) s in
            bindR (guard_live [p] s1) (\<lambda>s1.
              if c_core_limit (client s1 p) < 100 \<and> c_is_throttled (client s1 p) then Inr s1
              else (let s2 = set_out_type WAIT_FOR_MEM s1 in
                    bindR (send_message p (s_out_msg s2) s2) (\<lambda>(_, s3). Inr (metrics_inc_wait_for_mem s3))))))"

text \<open>The walk over the wait queue; \<open>pre\<close> holds the nodes already passed, last one first.\<close>

fun check_wait_loop :: "gptr \<Rightarrow> cptr list \<Rightarrow> cptr list \<Rightarrow> sched_state \<Rightarrow> sched_state res" where
  "check_wait_loop g pre [] s = Inr s"
| "check_wait_loop g pre (p # ps) s =
     bindR (can_run g p s) (\<lambda>(ok, s1).
       if ok then
         (let s2 = set_out_type MEM_AVAILABLE (upd_gpu g (\<lambda>x. x\<lparr>g_wait_queue := rev pre @ ps,
                     g_requests := p # g_requests x\<rparr>) s1) in
          bindR (send_message p (s_out_msg s2) s2) (\<lambda>(_, s3). Inr (metrics_inc_mem_available s3)))
       else check_wait_loop g (p # pre) ps s1)"

definition check_wait_queue :: "gptr \<Rightarrow> sched_state \<Rightarrow> sched_state res" where
  "check_wait_queue g s = check_wait_loop g [] (g_wait_queue (gpu s g)) s"

section \<open>Removal\<close>

text \<open>The walk over the running list up to the first node of the client: the nodes before it and
  after it, or nothing.\<close>

fun find_running :: "sched_state \<Rightarrow> int \<Rightarrow> cptr list \<Rightarrow> (cptr list \<times> cptr list) option res" where
  "find_running s fd [] = Inr None"
| "find_running s fd (r # rs) =
     (if \<not> alive s r then Inl UseAfterFree
      else if c_fd (client s r) = fd then Inr (Some ([], rs))
      else bindR (find_running s fd rs) (\<lambda>x. Inr (map_option (\<lambda>(a, b). (r # a, b)) x)))"

text \<open>Billing of the last stretch of a client that leaves the running list.\<close>

definition billed_duration :: "scheduler_config \<Rightarrow> nvshare_client \<Rightarrow> int \<Rightarrow> int \<Rightarrow> int" where
  "billed_duration cfg c duration n_running =
     (if c_pending_drop c
      then (let drop_n = (if c_drop_concurrency c > 0 then c_drop_concurrency c else 1) in
            duration sdiv drop_n * cfg_drop_tail_billing_percent cfg sdiv 100)
      else duration sdiv n_running)"

definition leave_running :: "gptr \<Rightarrow> cptr \<Rightarrow> cptr list \<Rightarrow> sched_state \<Rightarrow> sched_state res" where
  "leave_running g p rest s =
     (let mem_to_free = c_memory_allocated (client s p);
          s1 = upd_gpu g (\<lambda>x. x\<lparr>g_running_memory_usage :=
                 (if g_running_memory_usage x \<ge> mem_to_free then g_running_memory_usage x - mem_to_free else 0)\<rparr>) s;
          (now, s2) = current_time_ms s1
      in bindR (accrue_running_usage g now (Some p) s2) (\<lambda>s3.
           let c = client s3 p; duration = now - c_current_run_start_ms c;
               s4 = (if duration > 0
                     then upd_client p (\<lambda>c. c\<lparr>c_run_time_in_window_ms := c_run_time_in_window_ms c
                            + billed_duration (s_config s3) c duration (count_running_clients g s3)\<rparr>) s3
                     else s3);
               s5 = upd_client p (\<lambda>c. c\<lparr>c_last_drop_sent_ms :=
                            (if c_last_drop_sent_ms c > 0 then 0 else c_last_drop_sent_ms c),
                          c_pending_drop := False, c_drop_concurrency := 1, c_is_running := False\<rparr>) s4
           in Inr (upd_gpu g (\<lambda>x. x\<lparr>g_running_list := rest, g_timer_wake := True\<rparr>) s5)))"

text \<open>The two last loops of \<open>remove_req\<close>: the pending and the waiting requests of the client go.\<close>

definition drop_pending :: "gptr \<Rightarrow> cptr \<Rightarrow> sched_state \<Rightarrow> sched_state res" where
  "drop_pending g p s =
     bindR (guard_live (let q = g_requests (gpu s g) @ g_wait_queue (gpu s g) in if q = [] then [] else p # q) s)
       (\<lambda>s. let fd = c_fd (client s p) in
         Inr (upd_gpu g (\<lambda>x. x\<lparr>g_requests := filter (\<lambda>r. c_fd (client s r) \<noteq> fd) (g_requests x),
                               g_wait_queue := filter (\<lambda>r. c_fd (client s r) \<noteq> fd) (g_wait_queue x)\<rparr>) s))"

definition remove_req :: "(gptr \<Rightarrow> sched_state \<Rightarrow> sched_state res) \<Rightarrow> cptr \<Rightarrow> sched_state \<Rightarrow> sched_state res" where
  "remove_req ts p s =
     (case c_context (client s p) of
        None \<Rightarrow> Inr s
      | Some g \<Rightarrow>
          bindR (find_running s (c_fd (client s p)) (g_running_list (gpu s g))) (\<lambda>found.
          bindR (case found of None \<Rightarrow> Inr s | Some (a, b) \<Rightarrow> leave_running g p (a @ b) s) (\<lambda>s1.
          bindR (if g_running_list (gpu s1 g) = []
                 then bindR (check_wait_queue g (upd_gpu g (\<lambda>x. x\<lparr>g_lock_held := False\<rparr>) s1)) (ts g)
                 else Inr s1) (drop_pending g p))))"

text \<open>The loop that unlinks and frees the client reads \<open>client->fd\<close> for every node, also after
  \<open>client\<close> itself has been freed; from then on the comparison is with the stale value.\<close>

fun free_loop :: "sched_state \<Rightarrow> cptr \<Rightarrow> bool \<Rightarrow> cptr list \<Rightarrow> cptr list" where
  "free_loop s p freed [] = []"
| "free_loop s p freed (c # cs) =
     (if c_fd (client s c) = (if freed then w_stale_fd (s_world s) else c_fd (client s p))
      then free_loop s p (freed \<or> c = p) cs
      else c # free_loop s p freed cs)"

definition delete_client :: "(gptr \<Rightarrow> sched_state \<Rightarrow> sched_state res) \<Rightarrow> cptr \<Rightarrow> sched_state \<Rightarrow> sched_state res" where
  "delete_client ts p s =
     bindR (guard_live [p] s) (\<lambda>s.
     let cfd = c_fd (client s p) in
     bindR (remove_req ts p (metrics_inc_client_disconnect s)) (\<lambda>s1.
     bindR (guard_live [p] s1) (\<lambda>s1.
     let s2 = s1\<lparr>s_clients := free_loop s1 p False (s_clients s1)\<rparr> in
     if cfd \<in> set (s_epoll s2) then Inr (s2\<lparr>s_epoll := removeAll cfd (s_epoll s2)\<rparr>) else Inl Exited)))"

section \<open>The scheduling loop\<close>

text \<open>What follows a successful \<open>LOCK_OK\<close>: the request at the head moves to the running list.\<close>

definition schedule_client :: "gptr \<Rightarrow> cptr \<Rightarrow> sched_state \<Rightarrow> sched_state res" where
  "schedule_client g p s =
     bindR (if g_running_list (gpu s g) \<noteq> []
            then (let (now, s1) = current_time_ms s in accrue_running_usage g now None s1) else Inr s) (\<lambda>s1.
       let s2 = upd_gpu g (\<lambda>x. x\<lparr>g_requests := tl (g_requests x), g_running_list := g_running_list x @ [p],
                                 g_lock_held := True, g_must_reset_timer := True\<rparr>) s1;
           (start, s3) = current_time_ms s2;
           (t, s4) = time_null s3;
           s5 = upd_client p (\<lambda>c. c\<lparr>c_is_running := True, c_pending_drop := False, c_drop_concurrency := 1,
                                    c_current_run_start_ms := start, c_last_scheduled_time := t\<rparr>) s4
       in Inr (upd_gpu g (\<lambda>x. x\<lparr>g_running_memory_usage := g_running_memory_usage x + c_memory_allocated (client s5 p),
                                g_timer_wake := True\<rparr>) s5))"

text \<open>One turn, from \<^verbatim>\<open>try_again\<close> to the next jump there; \<open>ts\<close> is the rest of the run.\<close>

definition sched_turn :: "(gptr \<Rightarrow> sched_state \<Rightarrow> sched_state res) \<Rightarrow> gptr \<Rightarrow> sched_state \<Rightarrow> sched_state res" where
  "sched_turn ts g s =
     bindR (if g_requests (gpu s g) = [] then check_wait_queue g s else Inr s) (\<lambda>s1.
       case g_requests (gpu s1 g) of
         [] \<Rightarrow> Inr s1
       | p # _ \<Rightarrow>
           bindR (can_run g p s1) (\<lambda>(ok, s2).
             if \<not> ok then bindR (move_to_wait_queue g p s2) (ts g)
             else
               (let s3 = set_out_type LOCK_OK s2 in
                bindR (send_message p (s_out_msg s3) s3) (\<lambda>(sent, s4).
                  if \<not> sent then bindR (delete_client ts p s4) (ts g)
                  else bindR (schedule_client g p s4) (\<lambda>s5.
                    if cfg_scheduling_mode (s_config s5) \<noteq> SCHED_MODE_SERIAL
                    then ts g s5 else Inr s5)))))"

fun try_schedule :: "nat \<Rightarrow> gptr \<Rightarrow> sched_state \<Rightarrow> sched_state res" where
  "try_schedule 0 g s = Inl OutOfFuel"
| "try_schedule (Suc n) g s = sched_turn (try_schedule n) g s"

section \<open>Writes that complete\<close>

definition sends_ok :: "sched_state \<Rightarrow> bool" where
  "sends_ok s \<longleftrightarrow> (\<forall>k fd. w_write (s_world s) k fd = Inr 659)"

text \<open>The state after a complete write of \<open>m\<close> to client \<open>p\<close>, and the log of grants.\<close>

definition sent_to :: "cptr \<Rightarrow> message \<Rightarrow> sched_state \<Rightarrow> sched_state" where
  "sent_to p m s = s\<lparr>s_world := (s_world s)\<lparr>w_write_n := Suc (w_write_n (s_world s)),
     w_sent := (c_fd (client s p), m) # w_sent (s_world s)\<rparr>\<rparr>"

definition grants :: "sched_state \<Rightarrow> int list" where
  "grants s = map fst (filter (\<lambda>(fd, m). m_type m = LOCK_OK) (w_sent (s_world s)))"

lemma send_message_ok: "sends_ok s \<Longrightarrow> alive s p \<Longrightarrow> send_message p m s = Inr (True, sent_to p m s)"
  by (simp add: send_message_def sends_ok_def sent_to_def Let_def)

lemma sent_to_simps [simp]:
  "s_config (sent_to p m s) = s_config s" "s_on (sent_to p m s) = s_on s" "s_tq (sent_to p m s) = s_tq s"
  "s_out_msg (sent_to p m s) = s_out_msg s" "s_clients (sent_to p m s) = s_clients s"
  "client (sent_to p m s) q = client s q" "s_contexts (sent_to p m s) = s_contexts s"
  "gpu (sent_to p m s) g = gpu s g" "s_epoll (sent_to p m s) = s_epoll s"
  "alive (sent_to p m s) q = alive s q" "s_metrics (sent_to p m s) = s_metrics s"
  "w_write (s_world (sent_to p m s)) = w_write (s_world s)"
  "w_stale_fd (s_world (sent_to p m s)) = w_stale_fd (s_world s)"
  "grants (sent_to p m s) = (if m_type m = LOCK_OK then c_fd (client s p) # grants s else grants s)"
  by (simp_all add: sent_to_def alive_def grants_def)

lemma set_out_type_simps [simp]:
  "s_config (set_out_type t s) = s_config s" "s_on (set_out_type t s) = s_on s" "s_tq (set_out_type t s) = s_tq s"
  "s_out_msg (set_out_type t s) = (s_out_msg s)\<lparr>m_type := t\<rparr>" "s_clients (set_out_type t s) = s_clients s"
  "client (set_out_type t s) q = client s q" "s_contexts (set_out_type t s) = s_contexts s"
  "gpu (set_out_type t s) g = gpu s g" "s_epoll (set_out_type t s) = s_epoll s"
  "alive (set_out_type t s) q = alive s q" "s_world (set_out_type t s) = s_world s"
  "s_metrics (set_out_type t s) = s_metrics s"
  by (simp_all add: set_out_type_def alive_def)

text \<open>The part of the state that neither counters nor the pending message affect.\<close>

definition core_eq :: "sched_state \<Rightarrow> sched_state \<Rightarrow> bool" where
  "core_eq s s' \<longleftrightarrow> s_config s' = s_config s \<and> s_on s' = s_on s \<and> s_clients s' = s_clients s
     \<and> s_cmem s' = s_cmem s \<and> s_contexts s' = s_contexts s \<and> s_gmem s' = s_gmem s \<and> s_epoll s' = s_epoll s
     \<and> w_write (s_world s') = w_write (s_world s) \<and> w_stale_fd (s_world s') = w_stale_fd (s_world s)"

lemma core_eq_metrics [simp]:
  "core_eq s (metrics_inc_wait_for_mem s)" "core_eq s (metrics_inc_mem_available s)"
  "core_eq s (metrics_inc_drop_lock s)" "core_eq s (metrics_inc_client_disconnect s)" "core_eq s (metrics_inc_msg t s)"
  by (simp_all add: core_eq_def metrics_inc_wait_for_mem_def metrics_inc_mem_available_def
      metrics_inc_drop_lock_def metrics_inc_client_disconnect_def metrics_inc_msg_def)

lemma core_eq_send [simp]: "core_eq s (sent_to p m s)" "core_eq s (set_out_type t s)"
  by (auto simp: core_eq_def)

lemma core_eq_refl [simp]: "core_eq s s"
  by (simp add: core_eq_def)

lemma core_eq_trans: "core_eq s t \<Longrightarrow> core_eq t u \<Longrightarrow> core_eq s u"
  by (simp add: core_eq_def)

lemma core_eq_current_time [simp]: "core_eq s (snd (current_time_ms s))"
  by (simp add: core_eq_def current_time_ms_def)

lemma core_eq_time_null [simp]: "core_eq s (snd (time_null s))"
  by (simp add: core_eq_def time_null_def)

lemma core_eq_simps:
  assumes "core_eq s s'"
  shows "s_config s' = s_config s" "s_on s' = s_on s" "s_clients s' = s_clients s" "client s' p = client s p"
    "s_contexts s' = s_contexts s" "gpu s' g = gpu s g" "s_epoll s' = s_epoll s" "alive s' p = alive s p"
    "w_write (s_world s') = w_write (s_world s)" "w_stale_fd (s_world s') = w_stale_fd (s_world s)"
    "sends_ok s' = sends_ok s"
  using assms by (simp_all add: core_eq_def alive_def sends_ok_def)

section \<open>Well-formed states\<close>

definition gpu_wf :: "sched_state \<Rightarrow> gptr \<Rightarrow> bool" where
  "gpu_wf s g \<longleftrightarrow> (let x = gpu s g; q = g_requests x @ g_wait_queue x @ g_running_list x in
     distinct q \<and> list_all (\<lambda>p. alive s p \<and> c_context (client s p) = Some g) q
     \<and> (g_lock_held x \<longleftrightarrow> g_running_list x \<noteq> []))"

definition wf_state :: "sched_state \<Rightarrow> bool" where
  "wf_state s \<longleftrightarrow> config_ok (s_config s) \<and> bills_ok s \<and> distinct (s_clients s)
     \<and> inj_on (\<lambda>p. c_fd (client s p)) (set (s_clients s))
     \<and> list_all (\<lambda>p. c_fd (client s p) \<in> set (s_epoll s) \<and> c_fd (client s p) \<noteq> w_stale_fd (s_world s)) (s_clients s)
     \<and> distinct (s_contexts s) \<and> list_all (gpu_wf s) (s_contexts s)
     \<and> list_all (\<lambda>p. c_context (client s p) \<in> insert None (Some ` set (s_contexts s))) (s_clients s)"

text \<open>Work on context \<open>g\<close> leaves the identity of the clients and the other contexts alone.\<close>

definition frame :: "gptr \<Rightarrow> sched_state \<Rightarrow> sched_state \<Rightarrow> bool" where
  "frame g s s' \<longleftrightarrow> s_config s' = s_config s \<and> s_on s' = s_on s \<and> s_clients s' = s_clients s
     \<and> s_contexts s' = s_contexts s \<and> s_epoll s' = s_epoll s
     \<and> w_write (s_world s') = w_write (s_world s) \<and> w_stale_fd (s_world s') = w_stale_fd (s_world s)
     \<and> (\<forall>p. c_fd (client s' p) = c_fd (client s p) \<and> c_id (client s' p) = c_id (client s p)
          \<and> c_context (client s' p) = c_context (client s p)
          \<and> c_memory_allocated (client s' p) = c_memory_allocated (client s p)
          \<and> c_core_limit (client s' p) = c_core_limit (client s p))
     \<and> (\<forall>h. h \<noteq> g \<longrightarrow> gpu s' h = gpu s h) \<and> g_total_memory (gpu s' g) = g_total_memory (gpu s g)
     \<and> g_memory_overloaded (gpu s' g) = g_memory_overloaded (gpu s g) \<and> g_uuid (gpu s' g) = g_uuid (gpu s g)"

lemma frame_refl [simp]: "frame g s s"
  by (simp add: frame_def)

lemma frame_trans: "frame g s t \<Longrightarrow> frame g t u \<Longrightarrow> frame g s u"
  by (simp add: frame_def)

lemma frame_core: "core_eq s s' \<Longrightarrow> frame g s s'"
  by (simp add: frame_def core_eq_def)

lemma frame_simps:
  assumes "frame g s s'"
  shows "s_config s' = s_config s" "s_on s' = s_on s" "s_clients s' = s_clients s" "s_contexts s' = s_contexts s"
    "s_epoll s' = s_epoll s" "alive s' p = alive s p" "sends_ok s' = sends_ok s"
    "c_fd (client s' p) = c_fd (client s p)" "c_context (client s' p) = c_context (client s p)"
    "c_memory_allocated (client s' p) = c_memory_allocated (client s p)"
    "c_core_limit (client s' p) = c_core_limit (client s p)" "c_id (client s' p) = c_id (client s p)"
    "w_stale_fd (s_world s') = w_stale_fd (s_world s)" "h \<noteq> g \<Longrightarrow> gpu s' h = gpu s h"
    "g_total_memory (gpu s' g) = g_total_memory (gpu s g)"
    "g_memory_overloaded (gpu s' g) = g_memory_overloaded (gpu s g)" "g_uuid (gpu s' h') = g_uuid (gpu s h')"
proof -
  show "g_uuid (gpu s' h') = g_uuid (gpu s h')" using assms by (cases "h' = g") (simp_all add: frame_def)
qed (use assms in \<open>simp_all add: frame_def alive_def sends_ok_def\<close>)

lemma gpu_wf_frame_other:
  assumes f: "frame g s s'" and h: "h \<noteq> g" and w: "gpu_wf s h" shows "gpu_wf s' h"
  using w by (simp add: gpu_wf_def Let_def frame_simps(14) [OF f h] frame_simps [OF f])

lemma wf_frame:
  assumes w: "wf_state s" and f: "frame g s s'" and g: "gpu_wf s' g" and b: "bills_ok s'"
  shows "wf_state s'"
proof -
  have "gpu_wf s' h" if "h \<in> set (s_contexts s)" for h
    using gpu_wf_frame_other [OF f] g that w by (cases "h = g") (auto simp: wf_state_def list_all_iff)
  then show ?thesis using w b by (simp add: wf_state_def frame_simps [OF f] list_all_iff)
qed

lemma wf_gpu: "wf_state s \<Longrightarrow> g \<in> set (s_contexts s) \<Longrightarrow> gpu_wf s g"
  by (simp add: wf_state_def list_all_iff)

lemma wf_simps:
  assumes "wf_state s" shows "config_ok (s_config s)" "bills_ok s" "distinct (s_clients s)"
  using assms by (simp_all add: wf_state_def)

section \<open>The abstract queues of a context\<close>

text \<open>Requests, waiting clients and running clients. A scheduling pass serves the head of the
  requests (it is admitted or deferred), and promotes a waiting client when there is none.\<close>

type_synonym queues = "cptr list \<times> cptr list \<times> cptr list"

definition queues :: "gptr \<Rightarrow> sched_state \<Rightarrow> queues" where
  "queues g s = (g_requests (gpu s g), g_wait_queue (gpu s g), g_running_list (gpu s g))"

inductive qstep :: "queues \<Rightarrow> queues \<Rightarrow> bool" where
  q_admit: "qstep (p # rs, ws, run) (rs, ws, run @ [p])"
| q_defer: "qstep (p # rs, ws, run) (rs, ws @ [p], run)"
| q_promote: "qstep (rs, a @ p # b, run) (p # rs, a @ b, run)"

inductive_cases qstepE: "qstep (rs, ws, run) q"

definition all_queued :: "queues \<Rightarrow> cptr list" where
  "all_queued q = (case q of (rs, ws, run) \<Rightarrow> rs @ ws @ run)"

lemma qstep_perm: "qstep q q' \<Longrightarrow> mset (all_queued q') = mset (all_queued q)"
  by (induction rule: qstep.induct) (auto simp: all_queued_def)

lemma qsteps_perm: "qstep\<^sup>*\<^sup>* q q' \<Longrightarrow> mset (all_queued q') = mset (all_queued q)"
  by (induction rule: rtranclp_induct) (auto simp: qstep_perm)

lemma qstep_running: "qstep q q' \<Longrightarrow> \<exists>adm. snd (snd q') = snd (snd q) @ adm"
  by (induction rule: qstep.induct) auto

lemma qsteps_running: "qstep\<^sup>*\<^sup>* q q' \<Longrightarrow> \<exists>adm. snd (snd q') = snd (snd q) @ adm"
proof (induction rule: rtranclp_induct)
  case (step y z)
  then show ?case using qstep_running [OF step(2)] by auto
qed simp

lemma gpu_wf_queues:
  "gpu_wf s g \<longleftrightarrow> distinct (all_queued (queues g s))
     \<and> (\<forall>p \<in> set (all_queued (queues g s)). alive s p \<and> c_context (client s p) = Some g)
     \<and> (g_lock_held (gpu s g) \<longleftrightarrow> snd (snd (queues g s)) \<noteq> [])"
  by (simp add: gpu_wf_def queues_def all_queued_def Let_def list_all_iff)

lemma gpu_wf_qsteps:
  assumes w: "gpu_wf s g" and f: "frame g s s'" and q: "qstep\<^sup>*\<^sup>* (queues g s) (queues g s')"
    and l: "g_lock_held (gpu s' g) \<longleftrightarrow> g_running_list (gpu s' g) \<noteq> []"
  shows "gpu_wf s' g"
proof -
  have m: "mset (all_queued (queues g s')) = mset (all_queued (queues g s))" by (rule qsteps_perm [OF q])
  from mset_eq_setD [OF m] mset_eq_imp_distinct_iff [OF m] w l show ?thesis
    by (simp add: gpu_wf_queues frame_simps [OF f] queues_def)
qed

text \<open>Each client of a batch passed the memory test with the usage and the lock as its
  predecessors in the batch left them.\<close>

fun admits :: "gptr \<Rightarrow> sched_state \<Rightarrow> size_t \<Rightarrow> bool \<Rightarrow> cptr list \<Rightarrow> bool" where
  "admits g s u l [] \<longleftrightarrow> True"
| "admits g s u l (p # ps) \<longleftrightarrow>
     can_run_with_memory g p (upd_gpu g (\<lambda>x. x\<lparr>g_running_memory_usage := u, g_lock_held := l\<rparr>) s)
     \<and> admits g s (u + c_memory_allocated (client s p)) True ps"

lemma admits_append:
  "admits g s u l (a @ b) \<longleftrightarrow> admits g s u l a
     \<and> admits g s (u + sum_list (map (\<lambda>p. c_memory_allocated (client s p)) a)) (l \<or> a \<noteq> []) b"
  by (induction a arbitrary: u l) (auto simp: add.assoc)

lemma admits_frame:
  assumes f: "frame g s s'" shows "admits g s' u l ps = admits g s u l ps"
proof (induction ps arbitrary: u l)
  case (Cons p ps)
  then show ?case by (simp add: can_run_with_memory_def Let_def frame_simps [OF f] split: scheduling_mode.split)
qed simp

lemma admits_single:
  "admits g s (g_running_memory_usage (gpu s g)) (g_lock_held (gpu s g)) [p] \<longleftrightarrow> can_run_with_memory g p s"
  by (simp add: can_run_with_memory_def)

text \<open>
  What scheduling work on \<open>g\<close> amounts to: steps of the abstract queues, the memory of the
  admitted clients added to the usage, one grant per admitted client, and no other change.
\<close>

definition works :: "gptr \<Rightarrow> sched_state \<Rightarrow> cptr list \<Rightarrow> sched_state \<Rightarrow> bool" where
  "works g s adm s' \<longleftrightarrow> frame g s s' \<and> qstep\<^sup>*\<^sup>* (queues g s) (queues g s')
     \<and> g_running_list (gpu s' g) = g_running_list (gpu s g) @ adm
     \<and> g_lock_held (gpu s' g) = (g_lock_held (gpu s g) \<or> adm \<noteq> [])
     \<and> g_running_memory_usage (gpu s' g)
         = g_running_memory_usage (gpu s g) + sum_list (map (\<lambda>p. c_memory_allocated (client s p)) adm)
     \<and> grants s' = rev (map (\<lambda>p. c_fd (client s p)) adm) @ grants s
     \<and> (bills_ok s \<longrightarrow> bills_ok s')
     \<and> admits g s (g_running_memory_usage (gpu s g)) (g_lock_held (gpu s g)) adm
     \<and> (\<forall>p. c_is_running (client s' p) = (c_is_running (client s p) \<or> p \<in> set adm))"

text \<open>What a handler that ends in scheduling passes amounts to: the running list is what was left of it,
  followed by the clients that were granted the lock, and in serial mode a client is only granted
  the lock when the context is idle.\<close>

definition grew :: "gptr \<Rightarrow> cptr list \<Rightarrow> sched_state \<Rightarrow> sched_state \<Rightarrow> bool" where
  "grew g run s s' \<longleftrightarrow> (\<exists>adm. g_running_list (gpu s' g) = run @ adm
     \<and> grants s' = rev (map (\<lambda>p. c_fd (client s p)) adm) @ grants s
     \<and> (cfg_scheduling_mode (s_config s) = SCHED_MODE_SERIAL \<longrightarrow> length adm \<le> (if run = [] then 1 else 0)))"

lemma grew_none: "g_running_list (gpu s' g) = run \<Longrightarrow> grants s' = grants s \<Longrightarrow> grew g run s s'"
  by (auto simp: grew_def)

lemma grew_trans:
  assumes a: "grew g run s t" and b: "grew g (g_running_list (gpu t g)) t u"
    and f: "\<And>p. c_fd (client t p) = c_fd (client s p)" "s_config t = s_config s"
  shows "grew g run s u"
proof -
  obtain x where x: "g_running_list (gpu t g) = run @ x" "grants t = rev (map (\<lambda>p. c_fd (client s p)) x) @ grants s"
    "cfg_scheduling_mode (s_config s) = SCHED_MODE_SERIAL \<longrightarrow> length x \<le> (if run = [] then 1 else 0)"
    using a by (auto simp: grew_def)
  obtain y where y: "g_running_list (gpu u g) = g_running_list (gpu t g) @ y"
    "grants u = rev (map (\<lambda>p. c_fd (client s p)) y) @ grants t"
    "cfg_scheduling_mode (s_config s) = SCHED_MODE_SERIAL \<longrightarrow> length y \<le> (if g_running_list (gpu t g) = [] then 1 else 0)"
    using b f by (auto simp: grew_def)
  show ?thesis unfolding grew_def using x y by (intro exI [of _ "x @ y"]) (auto split: if_splits)
qed

lemma works_refl: "works g s [] s"
  by (simp add: works_def)

lemma works_trans:
  assumes "works g s a t" "works g t b u" shows "works g s (a @ b) u"
proof -
  have "frame g s t" using assms by (simp add: works_def)
  then show ?thesis using assms
    by (auto simp: works_def frame_simps admits_append admits_frame intro: frame_trans rtranclp_trans)
qed

lemma works_wf:
  assumes w: "wf_state s" and g: "g \<in> set (s_contexts s)" and k: "works g s adm s'" shows "wf_state s'"
proof -
  have f: "frame g s s'" using k by (simp add: works_def)
  have "gpu_wf s' g" using k wf_gpu [OF w g]
    by (intro gpu_wf_qsteps [OF wf_gpu [OF w g] f]) (auto simp: works_def gpu_wf_def Let_def)
  then show ?thesis using k w f by (intro wf_frame [OF w f]) (auto simp: works_def wf_state_def)
qed

lemma bills_core:
  assumes c: "core_eq s s'" shows "bills_ok s' = bills_ok s"
  by (simp add: bills_ok_def core_eq_simps [OF c])

lemma works_core:
  assumes c: "core_eq s s'" and gr: "grants s' = grants s" shows "works g s [] s'"
  using gr frame_core [OF c] by (simp add: works_def core_eq_simps [OF c] bills_core [OF c] queues_def)

text \<open>Grants are read off the log of writes, which only sends extend.\<close>

lemma grants_simps [simp]:
  "grants (metrics_inc_wait_for_mem s) = grants s" "grants (metrics_inc_mem_available s) = grants s"
  "grants (metrics_inc_drop_lock s) = grants s" "grants (metrics_inc_client_disconnect s) = grants s"
  "grants (metrics_inc_msg t s) = grants s" "grants (set_out_type ty s) = grants s"
  "grants (upd_client p f s) = grants s" "grants (upd_gpu g h s) = grants s"
  "grants (snd (current_time_ms s)) = grants s" "grants (snd (time_null s)) = grants s"
  by (simp_all add: grants_def metrics_inc_wait_for_mem_def metrics_inc_mem_available_def
      metrics_inc_drop_lock_def metrics_inc_client_disconnect_def metrics_inc_msg_def
      current_time_ms_def time_null_def)

lemma skel_grants: assumes k: "skel s' = skel s" shows "grants s' = grants s"
  by (simp add: grants_def skel_world [OF k])

lemma skel_frame:
  assumes k: "skel s' = skel s" and o: "\<And>h. h \<noteq> g \<Longrightarrow> gpu s' h = gpu s h" shows "frame g s s'"
  by (simp add: frame_def skel_simps [OF k] skel_world [OF k] o)

lemma fold_gpu: "(\<And>p s. gpu (f p s) h = gpu s h) \<Longrightarrow> gpu (fold f ps s) h = gpu s h"
  by (induction ps arbitrary: s) auto

lemma accrue_one_gpu: "gpu (accrue_one now n e p s) h = gpu s h"
  by (simp add: accrue_one_def Let_def)

lemma reset_client_gpu: "gpu (reset_client g p s) h = gpu s h"
  by (simp add: reset_client_def Let_def)

lemma accrue_gpu: "accrue_running_usage g now e s = Inr s' \<Longrightarrow> gpu s' h = gpu s h"
  by (auto simp: accrue_running_usage_def guard_live_def fold_gpu accrue_one_gpu split: if_splits)

lemma check_window_gpu: "check_and_reset_window g s = Inr (b, s') \<Longrightarrow> h \<noteq> g \<Longrightarrow> gpu s' h = gpu s h"
  by (auto simp: check_and_reset_window_def Let_def case_prod_beta bindR_Inr_iff fold_gpu reset_client_gpu accrue_gpu
      split: if_splits)

lemma works_skel:
  assumes k: "skel s' = skel s" and o: "\<And>h. h \<noteq> g \<Longrightarrow> gpu s' h = gpu s h" and b: "bills_ok s \<Longrightarrow> bills_ok s'"
  shows "works g s [] s'"
  using skel_frame [OF k o] b
  by (simp add: works_def queues_def skel_simps [OF k] skel_grants [OF k])

lemma works_can_run:
  assumes r: "can_run g p s = Inr (b, s')" and c: "config_ok (s_config s)" shows "works g s [] s'"
  using works_skel [OF skel_can_run [OF r]] can_run_window [OF r] can_run_bills [OF r c] check_window_gpu
  by blast

lemma works_accrue:
  assumes a: "accrue_running_usage g now e s = Inr s'" shows "works g s [] s'"
  using works_skel [OF skel_accrue [OF a]] accrue_gpu [OF a] accrue_bills [OF a] by blast

end
