(* ===== verification/SchedLoop.thy ===== *)
theory SchedLoop
  imports SchedQueue
begin

text \<open>
  Correctness of the scheduling loop of src/scheduler.c: on a well-formed state whose writes
  complete, \<open>try_schedule\<close> ends, keeps the state well-formed and implements the abstract queues
  of a context (\<open>works\<close>); what it admits fits the memory limit or runs alone.
\<close>

section \<open>Single steps\<close>

definition admissible :: "gptr \<Rightarrow> cptr \<Rightarrow> sched_state \<Rightarrow> bool" where
  "admissible g p s \<longleftrightarrow> quota_ok g p s \<and> can_run_with_memory g p s"

lemma effective_quota_frame:
  assumes f: "frame g s s'" shows "get_effective_quota_ms h p s' = get_effective_quota_ms h p s"
  by (simp add: get_effective_quota_ms_def calculate_total_quota_def limited_on_def frame_simps [OF f] cong: if_cong)

lemma admissible_frame:
  assumes f: "frame g s s'" and "client s' p = client s p"
    and "g_running_memory_usage (gpu s' g) = g_running_memory_usage (gpu s g)"
    and "g_lock_held (gpu s' g) = g_lock_held (gpu s g)"
  shows "admissible g p s' = admissible g p s"
  using assms(2-)
  by (simp add: admissible_def quota_ok_def can_run_with_memory_def Let_def effective_quota_frame [OF f]
      frame_simps [OF f] split: scheduling_mode.split)

lemma wf_queued:
  assumes w: "wf_state s" and g: "g \<in> set (s_contexts s)" and p: "p \<in> set (all_queued (queues g s))"
  shows "alive s p" "c_context (client s p) = Some g"
  using wf_gpu [OF w g] p by (simp_all add: gpu_wf_queues)

lemma wf_running_live: "wf_state s \<Longrightarrow> g \<in> set (s_contexts s) \<Longrightarrow> running_live g s"
  using wf_queued(1) by (auto simp: running_live_def list_all_iff all_queued_def queues_def)

lemma wf_distinct_queues:
  "wf_state s \<Longrightarrow> g \<in> set (s_contexts s) \<Longrightarrow> distinct (g_requests (gpu s g) @ g_wait_queue (gpu s g) @ g_running_list (gpu s g))"
  using wf_gpu by (simp add: gpu_wf_def Let_def)

lemma wf_can_run:
  assumes w: "wf_state s" and g: "g \<in> set (s_contexts s)" and p: "alive s p"
  obtains b s' where "can_run g p s = Inr (b, s')" "works g s [] s'" "skel s' = skel s"
    "b \<longleftrightarrow> admissible g p s'"
proof -
  obtain b s' where r: "can_run g p s = Inr (b, s')" using can_run_total wf_running_live w g p by blast
  then show thesis using that works_can_run [OF r] skel_can_run [OF r] can_run_value [OF r] w
    by (simp add: admissible_def wf_state_def)
qed

lemma wf_can_run_admits:
  assumes w: "wf_state s" and g: "g \<in> set (s_contexts s)" and p: "p \<in> set (g_requests (gpu s g) @ g_wait_queue (gpu s g))"
    and a: "admissible g p s"
  obtains s' where "can_run g p s = Inr (True, s')" "skel s' = skel s" "works g s [] s'" "admissible g p s'"
proof -
  have q: "alive s p" "c_context (client s p) = Some g"
    using wf_queued [OF w g] p by (auto simp: all_queued_def queues_def)
  have "\<exists>s'. can_run g p s = Inr (True, s') \<and> skel s' = skel s"
    using wf_distinct_queues [OF w g] p q a wf_running_live [OF w g] w
    by (intro can_run_admits) (auto simp: admissible_def wf_state_def bills_okD)
  then obtain s' where r: "can_run g p s = Inr (True, s')" "skel s' = skel s" by blast
  then show thesis using that works_can_run [OF r(1)] can_run_value [OF r(1)] w
    by (simp add: wf_state_def admissible_def)
qed

lemma works_frame: "works g s adm s' \<Longrightarrow> frame g s s'"
  by (simp add: works_def)

lemma works_fields:
  assumes "works g s adm s'"
  shows "s_contexts s' = s_contexts s" "sends_ok s' = sends_ok s" "alive s' p = alive s p"
    "s_config s' = s_config s"
  using assms by (auto simp: works_def frame_simps)

text \<open>A change of the queue fields of \<open>g\<close> that is a step of the abstract queues.\<close>

lemma works_requeue:
  assumes q: "qstep\<^sup>*\<^sup>* (queues g s) (rs, ws, g_running_list (gpu s g))"
  shows "works g s [] (upd_gpu g (\<lambda>x. x\<lparr>g_requests := rs, g_wait_queue := ws\<rparr>) s)"
  using q by (simp add: works_def frame_def queues_def bills_ok_def)

lemma move_head:
  assumes w: "wf_state s" and k: "sends_ok s" and g: "g \<in> set (s_contexts s)" and r: "g_requests (gpu s g) = p # rs"
  obtains s' where "move_to_wait_queue g p s = Inr s'" "works g s [] s'"
    "g_requests (gpu s' g) = rs" "g_wait_queue (gpu s' g) = g_wait_queue (gpu s g) @ [p]"
proof -
  let ?s1 = "upd_gpu g (\<lambda>x. x\<lparr>g_requests := rs, g_wait_queue := g_wait_queue (gpu s g) @ [p]\<rparr>) s"
  have eq: "upd_gpu g (\<lambda>x. x\<lparr>g_requests := tl (g_requests x), g_wait_queue := g_wait_queue x @ [p]\<rparr>) s = ?s1"
    by (simp add: upd_gpu_def r)
  have np: "p \<notin> set (g_wait_queue (gpu s g))" using wf_distinct_queues [OF w g] r by auto
  have al: "alive s p" using wf_queued [OF w g] r by (simp add: all_queued_def queues_def)
  have "qstep (queues g s) (rs, g_wait_queue (gpu s g) @ [p], g_running_list (gpu s g))"
    by (simp add: queues_def r q_defer)
  then have w1: "works g s [] ?s1" by (intro works_requeue) blast
  let ?s2 = "set_out_type WAIT_FOR_MEM ?s1"
  let ?s3 = "metrics_inc_wait_for_mem (sent_to p (s_out_msg ?s2) ?s2)"
  have k2: "sends_ok ?s2" using k by (simp add: sends_ok_def)
  have c: "core_eq ?s1 ?s3" using core_eq_trans core_eq_send core_eq_metrics by meson
  have "works g ?s1 [] ?s3" by (rule works_core [OF c]) simp
  from works_trans [OF w1 this] have w3: "works g s [] ?s3" by simp
  show thesis
  proof (cases "c_core_limit (client s p) < 100 \<and> c_is_throttled (client s p)")
    case True
    then have "move_to_wait_queue g p s = Inr ?s1"
      using np al by (simp add: move_to_wait_queue_def eq guard_live_def Let_def)
    then show thesis using w1 that by simp
  next
    case False
    then have "move_to_wait_queue g p s = Inr ?s3"
      using np al by (auto simp: move_to_wait_queue_def eq guard_live_def Let_def send_message_ok [OF k2])
    then show thesis using w3 that core_eq_simps(6) [OF c] by simp
  qed
qed

lemma requeue_swap:
  "x\<lparr>g_wait_queue := ws, g_requests := rs\<rparr> = x\<lparr>g_requests := rs, g_wait_queue := ws\<rparr>" for x :: gpu_context
  by (cases x) simp

lemma promote_step:
  assumes w: "wf_state s" and k: "sends_ok s" and g: "g \<in> set (s_contexts s)"
    and q: "g_wait_queue (gpu s g) = a @ p # b" and ad: "admissible g p s"
  obtains s' where
    "bindR (send_message p ((s_out_msg s)\<lparr>m_type := MEM_AVAILABLE\<rparr>)
       (set_out_type MEM_AVAILABLE (upd_gpu g (\<lambda>x. x\<lparr>g_wait_queue := a @ b, g_requests := p # g_requests x\<rparr>) s)))
       (\<lambda>(_, s3). Inr (metrics_inc_mem_available s3)) = Inr s'"
    "works g s [] s'" "g_requests (gpu s' g) = p # g_requests (gpu s g)" "g_wait_queue (gpu s' g) = a @ b"
    "admissible g p s'"
proof -
  let ?s1 = "upd_gpu g (\<lambda>x. x\<lparr>g_requests := p # g_requests (gpu s g), g_wait_queue := a @ b\<rparr>) s"
  have eq: "upd_gpu g (\<lambda>x. x\<lparr>g_wait_queue := a @ b, g_requests := p # g_requests x\<rparr>) s = ?s1"
    by (simp add: upd_gpu_def requeue_swap)
  have al: "alive s p" using wf_queued [OF w g] q by (simp add: all_queued_def queues_def)
  have "qstep (queues g s) (p # g_requests (gpu s g), a @ b, g_running_list (gpu s g))"
    by (simp add: queues_def q q_promote)
  then have w1: "works g s [] ?s1" by (intro works_requeue) blast
  let ?s2 = "set_out_type MEM_AVAILABLE ?s1"
  let ?m = "(s_out_msg s)\<lparr>m_type := MEM_AVAILABLE\<rparr>"
  let ?s3 = "metrics_inc_mem_available (sent_to p ?m ?s2)"
  have c: "core_eq ?s1 ?s3" using core_eq_trans core_eq_send core_eq_metrics by meson
  have "works g ?s1 [] ?s3" by (rule works_core [OF c]) simp
  from works_trans [OF w1 this] have w3: "works g s [] ?s3" by simp
  have k2: "sends_ok ?s2" using k by (simp add: sends_ok_def)
  have "frame g s ?s3" using w3 by (simp add: works_def)
  then have "admissible g p ?s3" using ad by (simp add: admissible_frame core_eq_simps [OF c])
  then show thesis using that w3 al core_eq_simps(6) [OF c] by (simp add: eq send_message_ok [OF k2])
qed

lemma check_wait_loop_correct:
  assumes "wf_state s" "sends_ok s" "g \<in> set (s_contexts s)" "g_wait_queue (gpu s g) = rev pre @ ps"
  shows "\<exists>s'. check_wait_loop g pre ps s = Inr s' \<and> works g s [] s'
    \<and> (g_requests (gpu s' g) = g_requests (gpu s g) \<and> g_wait_queue (gpu s' g) = g_wait_queue (gpu s g)
       \<or> (\<exists>a p b. g_wait_queue (gpu s g) = a @ p # b \<and> g_requests (gpu s' g) = p # g_requests (gpu s g)
            \<and> g_wait_queue (gpu s' g) = a @ b \<and> admissible g p s'))"
  using assms
proof (induction ps arbitrary: pre s)
  case Nil
  then show ?case using works_refl by auto
next
  case (Cons p ps)
  have al: "alive s p" using wf_queued [OF Cons.prems(1,3)] Cons.prems(4) by (simp add: all_queued_def queues_def)
  obtain b s1 where r: "can_run g p s = Inr (b, s1)" and w1: "works g s [] s1" and k1: "skel s1 = skel s"
    and b: "b \<longleftrightarrow> admissible g p s1" using wf_can_run [OF Cons.prems(1,3) al] .
  have p1: "wf_state s1" "sends_ok s1" "g \<in> set (s_contexts s1)" "g_wait_queue (gpu s1 g) = rev pre @ p # ps"
    using works_wf [OF Cons.prems(1,3) w1] works_fields [OF w1] Cons.prems skel_simps [OF k1] by auto
  have q1: "g_requests (gpu s1 g) = g_requests (gpu s g)" "g_wait_queue (gpu s1 g) = g_wait_queue (gpu s g)"
    by (simp_all add: skel_simps [OF k1])
  show ?case
  proof (cases b)
    case True
    then have ad: "admissible g p s1" using b by simp
    obtain s' where "bindR (send_message p ((s_out_msg s1)\<lparr>m_type := MEM_AVAILABLE\<rparr>)
       (set_out_type MEM_AVAILABLE (upd_gpu g (\<lambda>x. x\<lparr>g_wait_queue := rev pre @ ps, g_requests := p # g_requests x\<rparr>) s1)))
       (\<lambda>(_, s3). Inr (metrics_inc_mem_available s3)) = Inr s'"
      and s': "works g s1 [] s'" "g_requests (gpu s' g) = p # g_requests (gpu s1 g)"
        "g_wait_queue (gpu s' g) = rev pre @ ps" "admissible g p s'"
      using promote_step [OF p1 ad] .
    then have "check_wait_loop g pre (p # ps) s = Inr s'" using True by (simp add: r Let_def)
    moreover have "works g s [] s'" using works_trans [OF w1 s'(1)] by simp
    ultimately show ?thesis using s'(2-4) Cons.prems(4) unfolding q1 by blast
  next
    case False
    then have eq: "check_wait_loop g pre (p # ps) s = check_wait_loop g (p # pre) ps s1" by (simp add: r)
    obtain s' where s': "check_wait_loop g (p # pre) ps s1 = Inr s'" "works g s1 [] s'"
      "g_requests (gpu s' g) = g_requests (gpu s1 g) \<and> g_wait_queue (gpu s' g) = g_wait_queue (gpu s1 g)
       \<or> (\<exists>a p b. g_wait_queue (gpu s1 g) = a @ p # b \<and> g_requests (gpu s' g) = p # g_requests (gpu s1 g)
            \<and> g_wait_queue (gpu s' g) = a @ b \<and> admissible g p s')"
      using Cons.IH [of s1 "p # pre"] p1 by auto
    have "works g s [] s'" using works_trans [OF w1 s'(2)] by simp
    with s' show ?thesis unfolding eq q1 by blast
  qed
qed

lemma check_wait_queue_correct [consumes 3, case_names none promoted]:
  assumes "wf_state s" "sends_ok s" "g \<in> set (s_contexts s)"
  obtains (none) s' where "check_wait_queue g s = Inr s'" "works g s [] s'"
      "g_requests (gpu s' g) = g_requests (gpu s g)" "g_wait_queue (gpu s' g) = g_wait_queue (gpu s g)"
    | (promoted) s' a p b where "check_wait_queue g s = Inr s'" "works g s [] s'"
      "g_wait_queue (gpu s g) = a @ p # b" "g_requests (gpu s' g) = p # g_requests (gpu s g)"
      "g_wait_queue (gpu s' g) = a @ b" "admissible g p s'"
  using check_wait_loop_correct [of s g "[]" "g_wait_queue (gpu s g)"] assms
  by (auto simp: check_wait_queue_def)

lemma settle_runners:
  assumes run: "list_all (alive s) (g_running_list (gpu s g))"
  obtains s2 where "(if g_running_list (gpu s g) \<noteq> []
      then (let (now, t) = current_time_ms s in accrue_running_usage g now None t) else Inr s) = Inr s2"
    "works g s [] s2" "\<forall>h. gpu s2 h = gpu s h"
proof (cases "g_running_list (gpu s g) = []")
  case True
  then show thesis using that [of s] works_refl by simp
next
  case False
  let ?t = "snd (current_time_ms s)" and ?now = "fst (current_time_ms s)"
  have "list_all (alive ?t) (g_running_list (gpu ?t g))" using run by (simp add: list_all_iff)
  then obtain s2 where a: "accrue_running_usage g ?now None ?t = Inr s2" using accrue_total by blast
  have "works g s [] ?t" by (rule works_core) simp_all
  then have "works g s [] s2" using works_trans works_accrue [OF a] by fastforce
  then show thesis using that [of s2] a accrue_gpu [OF a] False by (simp add: case_prod_beta Let_def)
qed

lemma grant_step:
  assumes w: "wf_state s" and k: "sends_ok s" and g: "g \<in> set (s_contexts s)"
    and r: "g_requests (gpu s g) = p # rs" and ad: "can_run_with_memory g p s"
  obtains s' where
    "bindR (send_message p ((s_out_msg s)\<lparr>m_type := LOCK_OK\<rparr>) (set_out_type LOCK_OK s))
       (\<lambda>(sent, s4). if \<not> sent then X s4 else bindR (schedule_client g p s4) Y) = Y s'"
    "works g s [p] s'" "g_requests (gpu s' g) = rs" "g_wait_queue (gpu s' g) = g_wait_queue (gpu s g)"
proof -
  let ?m = "(s_out_msg s)\<lparr>m_type := LOCK_OK\<rparr>"
  let ?s1 = "sent_to p ?m (set_out_type LOCK_OK s)"
  have al: "alive s p" using wf_queued [OF w g] r by (simp add: all_queued_def queues_def)
  have c1: "core_eq s ?s1" using core_eq_trans core_eq_send by meson
  have run: "list_all (alive s) (g_running_list (gpu s g))" using wf_running_live [OF w g] by (simp add: running_live_def)
  have run1: "list_all (alive ?s1) (g_running_list (gpu ?s1 g))"
    using run by (simp add: list_all_iff)
  obtain s2 where s2: "(if g_running_list (gpu ?s1 g) \<noteq> []
      then (let (now, t) = current_time_ms ?s1 in accrue_running_usage g now None t) else Inr ?s1) = Inr s2"
    and w2: "works g ?s1 [] s2" and "\<forall>h. gpu s2 h = gpu ?s1 h"
    using settle_runners [OF run1] .
  then have g2: "\<forall>h. gpu s2 h = gpu s h" by simp
  let ?run = "\<lambda>x. x\<lparr>g_requests := tl (g_requests x), g_running_list := g_running_list x @ [p],
                     g_lock_held := True, g_must_reset_timer := True\<rparr>"
  let ?s3 = "upd_gpu g ?run s2"
  let ?s4 = "snd (current_time_ms ?s3)"
  let ?s5 = "snd (time_null ?s4)"
  let ?mark = "\<lambda>c. c\<lparr>c_is_running := True, c_pending_drop := False, c_drop_concurrency := 1,
                   c_current_run_start_ms := fst (current_time_ms ?s3), c_last_scheduled_time := fst (time_null ?s4)\<rparr>"
  let ?s6 = "upd_client p ?mark ?s5"
  let ?s7 = "upd_gpu g (\<lambda>x. x\<lparr>g_running_memory_usage := g_running_memory_usage x + c_memory_allocated (client ?s6 p),
                              g_timer_wake := True\<rparr>) ?s6"
  have sch: "schedule_client g p ?s1 = Inr ?s7"
    unfolding schedule_client_def s2 by (simp add: case_prod_beta Let_def)
  have c5: "core_eq ?s3 ?s5" using core_eq_trans core_eq_current_time core_eq_time_null by meson
  note e5 = core_eq_simps [OF c5]
  have f: "frame g s s2" by (rule frame_trans [OF frame_core [OF c1] works_frame [OF w2]])
  have cl: "client ?s7 q = (if q = p then ?mark (client s2 p) else client s2 q)" for q
    using e5(4) by simp
  have gp: "gpu ?s7 h = (if h = g then (?run (gpu s g))\<lparr>g_running_memory_usage := g_running_memory_usage (gpu s g)
      + c_memory_allocated (client s p), g_timer_wake := True\<rparr> else gpu s h)" for h
    using e5(4,6) g2 by (simp add: frame_simps [OF f])
  have f7: "frame g s2 ?s7"
    using e5 g2 by (simp add: frame_def)
  have b7: "bills_ok ?s7" if "bills_ok s"
  proof -
    have "bills_ok s2" using that w2 bills_core [OF c1] by (simp add: works_def)
    then show ?thesis by (rule bills_ok_step) (auto simp: e5)
  qed
  have gr: "grants ?s7 = c_fd (client s p) # grants s" using w2 by (simp add: works_def)
  have "qstep (queues g s) (queues g ?s7)"
    unfolding queues_def gp using q_admit [of p rs "g_wait_queue (gpu s g)" "g_running_list (gpu s g)"] r by simp
  moreover have "c_is_running (client ?s7 q) = (c_is_running (client s q) \<or> q = p)" for q
    unfolding cl using w2 by (simp add: works_def)
  ultimately have w7: "works g s [p] ?s7"
    using frame_trans [OF f f7] ad b7 gr admits_single unfolding works_def gp by auto
  have q7: "g_requests (gpu ?s7 g) = rs" "g_wait_queue (gpu ?s7 g) = g_wait_queue (gpu s g)"
    unfolding gp using r by simp_all
  have "sends_ok (set_out_type LOCK_OK s)" "alive (set_out_type LOCK_OK s) p"
    using k al by (simp_all add: sends_ok_def)
  then have snd: "send_message p ?m (set_out_type LOCK_OK s) = Inr (True, ?s1)" by (rule send_message_ok)
  show thesis
    by (rule that [OF _ w7 q7]) (simp only: snd bindR_Inr prod.case sch not_True_eq_False if_False)
qed

section \<open>The loop\<close>

definition sched_measure :: "gptr \<Rightarrow> sched_state \<Rightarrow> nat" where
  "sched_measure g s = 2 * length (g_requests (gpu s g)) + length (g_wait_queue (gpu s g))"

text \<open>The post-condition of a pass: an admission is one per pass in serial mode, and in the other
  modes every request has been served.\<close>

definition pass_done :: "gptr \<Rightarrow> sched_state \<Rightarrow> cptr list \<Rightarrow> sched_state \<Rightarrow> bool" where
  "pass_done g s adm s' \<longleftrightarrow>
     (if cfg_scheduling_mode (s_config s) = SCHED_MODE_SERIAL
      then length adm \<le> 1 \<and> (g_requests (gpu s' g) = [] \<or> adm \<noteq> [])
      else g_requests (gpu s' g) = [])"

text \<open>One turn of the loop: it stops, or it serves the head of the requests.\<close>

lemma try_schedule_turn [consumes 3, case_names stop deferred granted]:
  assumes w: "wf_state s" and k: "sends_ok s" and g: "g \<in> set (s_contexts s)"
  obtains (stop) s' where "try_schedule (Suc n) g s = Inr s'" "works g s [] s'" "g_requests (gpu s' g) = []"
    | (deferred) s' where "try_schedule (Suc n) g s = try_schedule n g s'" "works g s [] s'"
        "sched_measure g s' < sched_measure g s"
    | (granted) s' p where "try_schedule (Suc n) g s = (if cfg_scheduling_mode (s_config s) \<noteq> SCHED_MODE_SERIAL
          then try_schedule n g s' else Inr s')" "works g s [p] s'" "sched_measure g s' < sched_measure g s"
proof -
  text \<open>The head of the requests after the optional promotion.\<close>
  have head: thesis if w1: "works g s [] s1" and st: "(if g_requests (gpu s g) = [] then check_wait_queue g s else Inr s) = Inr s1"
    and r: "g_requests (gpu s1 g) = p # rs"
    and m: "length rs * 2 + length (g_wait_queue (gpu s1 g)) < sched_measure g s"
    and ok: "can_run g p s1 = Inr (b, s2)" "b \<or> length rs * 2 + length (g_wait_queue (gpu s1 g)) + 1 < sched_measure g s"
    for s1 p rs b s2
  proof -
    note wf1 = works_wf [OF w g w1] and fl1 = works_fields [OF w1]
    have g1: "g \<in> set (s_contexts s1)" "sends_ok s1" using fl1 g k by simp_all
    have w2: "works g s1 [] s2" using works_can_run [OF ok(1)] wf1 by (simp add: wf_state_def)
    have q2: "g_requests (gpu s2 g) = p # rs" "g_wait_queue (gpu s2 g) = g_wait_queue (gpu s1 g)"
      using r by (simp_all add: skel_simps [OF skel_can_run [OF ok(1)]])
    note wf2 = works_wf [OF wf1 g1(1) w2] and fl2 = works_fields [OF w2]
    have g2: "g \<in> set (s_contexts s2)" "sends_ok s2" using fl2 g1 by simp_all
    have w02: "works g s [] s2" using works_trans [OF w1 w2] by simp
    show thesis
    proof (cases b)
      case False
      obtain s3 where s3: "move_to_wait_queue g p s2 = Inr s3" "works g s2 [] s3"
        "g_requests (gpu s3 g) = rs" "g_wait_queue (gpu s3 g) = g_wait_queue (gpu s2 g) @ [p]"
        using move_head [OF wf2 g2(2,1) q2(1)] .
      have "try_schedule (Suc n) g s = try_schedule n g s3" using False by (simp add: sched_turn_def st r ok s3)
      moreover have "works g s [] s3" using works_trans [OF w02 s3(2)] by simp
      ultimately show thesis using deferred ok(2) False s3(3,4) q2(2) by (simp add: sched_measure_def)
    next
      case True
      have ad: "can_run_with_memory g p s2" using can_run_value [OF ok(1)] True by simp
      obtain s3 where s3: "bindR (send_message p ((s_out_msg s2)\<lparr>m_type := LOCK_OK\<rparr>) (set_out_type LOCK_OK s2))
          (\<lambda>(sent, s4). if \<not> sent then bindR (delete_client (try_schedule n) p s4) (try_schedule n g)
             else bindR (schedule_client g p s4) (\<lambda>s5. if cfg_scheduling_mode (s_config s5) \<noteq> SCHED_MODE_SERIAL
                 then try_schedule n g s5 else Inr s5))
          = (if cfg_scheduling_mode (s_config s3) \<noteq> SCHED_MODE_SERIAL then try_schedule n g s3 else Inr s3)"
        "works g s2 [p] s3" "g_requests (gpu s3 g) = rs" "g_wait_queue (gpu s3 g) = g_wait_queue (gpu s2 g)"
        using grant_step [OF wf2 g2(2,1) q2(1) ad] .
      have w03: "works g s [p] s3" using works_trans [OF w02 s3(2)] by simp
      have "try_schedule (Suc n) g s = (if cfg_scheduling_mode (s_config s) \<noteq> SCHED_MODE_SERIAL
          then try_schedule n g s3 else Inr s3)"
        using True s3(1) works_fields(4) [OF w03] by (simp add: sched_turn_def st r ok Let_def)
      then show thesis using granted w03 m s3(3,4) q2(2) by (simp add: sched_measure_def)
    qed
  qed
  show thesis
  proof (cases "g_requests (gpu s g)")
    case (Cons p rs)
    have al: "alive s p" using wf_queued [OF w g] Cons by (simp add: all_queued_def queues_def)
    obtain b s2 where "can_run g p s = Inr (b, s2)" using wf_can_run [OF w g al] by metis
    then show thesis using head [OF works_refl _ Cons] Cons by (auto simp: sched_measure_def)
  next
    case Nil
    show thesis using w k g
    proof (cases rule: check_wait_queue_correct)
      case (none s')
      then show thesis using Nil stop by (simp add: sched_turn_def)
    next
      case (promoted s1 a p b)
      have g1: "wf_state s1" "g \<in> set (s_contexts s1)" using works_wf [OF w g promoted(2)] works_fields [OF promoted(2)] g by auto
      obtain s2 where "can_run g p s1 = Inr (True, s2)"
        using wf_can_run_admits [OF g1 _ promoted(6)] promoted(4) by auto
      then show thesis using head [OF promoted(2), of p "[]" True s2] promoted Nil by (auto simp: sched_measure_def)
    qed
  qed
qed

theorem try_schedule_correct:
  assumes "wf_state s" "sends_ok s" "g \<in> set (s_contexts s)" "sched_measure g s < n"
  shows "\<exists>adm s'. try_schedule n g s = Inr s' \<and> works g s adm s' \<and> pass_done g s adm s'"
  using assms
proof (induction n arbitrary: s)
  case (Suc n)
  note w = Suc.prems(1) and k = Suc.prems(2) and g = Suc.prems(3)
  have next_turn: "\<exists>adm s'. try_schedule n g t = Inr s' \<and> works g t adm s' \<and> pass_done g t adm s'"
    if "works g s a t" "sched_measure g t < sched_measure g s" for a t
    using Suc.IH [of t] works_wf [OF w g that(1)] works_fields [OF that(1)] k g that(2) Suc.prems(4) by simp
  show ?case using w k g
  proof (cases rule: try_schedule_turn [where n = n])
    case (stop s')
    then show ?thesis by (auto simp: pass_done_def)
  next
    case (deferred t)
    then obtain adm s' where *: "try_schedule n g t = Inr s'" "works g t adm s'" "pass_done g t adm s'"
      using next_turn by blast
    have "works g s adm s'" using works_trans [OF deferred(2) *(2)] by simp
    then show ?thesis using * deferred works_fields(4) [OF deferred(2)] by (auto simp: pass_done_def)
  next
    case (granted t p)
    show ?thesis
    proof (cases "cfg_scheduling_mode (s_config s) = SCHED_MODE_SERIAL")
      case True
      then show ?thesis using granted by (intro exI [of _ "[p]"] exI [of _ t]) (simp add: pass_done_def)
    next
      case False
      obtain adm s' where *: "try_schedule n g t = Inr s'" "works g t adm s'" "pass_done g t adm s'"
        using next_turn granted by blast
      show ?thesis using * granted False works_trans [OF granted(2) *(2)] works_fields(4) [OF granted(2)]
        by (intro exI [of _ "[p] @ adm"] exI [of _ s']) (simp add: pass_done_def)
    qed
  qed
qed simp

section \<open>Fuel\<close>

lemma remove_req_fuel:
  assumes "\<And>g s. fuel_le (ts g s) (ts' g s)" shows "fuel_le (remove_req ts p s) (remove_req ts' p s)"
  unfolding remove_req_def
  by (cases "c_context (client s p)") (auto intro!: fuel_le_bindR assms split: if_split)

lemma delete_client_fuel:
  assumes "\<And>g s. fuel_le (ts g s) (ts' g s)" shows "fuel_le (delete_client ts p s) (delete_client ts' p s)"
  unfolding delete_client_def Let_def by (intro fuel_le_bindR remove_req_fuel assms fuel_le_refl)

lemma sched_turn_fuel:
  assumes "\<And>g s. fuel_le (ts g s) (ts' g s)" shows "fuel_le (sched_turn ts g s) (sched_turn ts' g s)"
  unfolding sched_turn_def
  by (intro fuel_le_bindR fuel_le_refl)
    (auto split: list.split intro!: fuel_le_bindR delete_client_fuel assms simp: Let_def)

lemma try_schedule_fuel_Suc: "fuel_le (try_schedule n g s) (try_schedule (Suc n) g s)"
  by (induction n arbitrary: g s) (auto intro: sched_turn_fuel)

lemma try_schedule_more_fuel:
  assumes "try_schedule n g s = Inr s'" "n \<le> m" shows "try_schedule m g s = Inr s'"
  using assms(2)
proof (induction rule: dec_induct)
  case (step k)
  then show ?case by (intro fuel_le_Inr [OF try_schedule_fuel_Suc])
qed (rule assms)

section \<open>Memory\<close>

text \<open>In serial mode, and on a context whose overload has been detected, a batch has at most one
  client, and none when the lock is held.\<close>

lemma admits_exclusive:
  assumes "cfg_scheduling_mode (s_config s) = SCHED_MODE_SERIAL \<or> g_memory_overloaded (gpu s g)"
    and "admits g s u l ps"
  shows "length ps \<le> (if l then 0 else 1)"
  using assms(2)
proof (cases ps)
  case (Cons p qs)
  have "\<not> l" using assms Cons by (auto simp: can_run_with_memory_def Let_def split: if_splits)
  moreover have "qs = []"
    using assms Cons by (cases qs) (auto simp: can_run_with_memory_def Let_def split: if_splits)
  ultimately show ?thesis using Cons by simp
qed simp

lemma works_grew:
  assumes w: "wf_state s" "g \<in> set (s_contexts s)" and k: "works g s adm s'"
  shows "grew g (g_running_list (gpu s g)) s s'"
proof -
  have "g_lock_held (gpu s g) \<longleftrightarrow> g_running_list (gpu s g) \<noteq> []"
    using wf_gpu [OF w] by (simp add: gpu_wf_def Let_def)
  then have "length adm \<le> (if g_running_list (gpu s g) = [] then 1 else 0)"
    if "cfg_scheduling_mode (s_config s) = SCHED_MODE_SERIAL"
    using admits_exclusive [of s g "g_running_memory_usage (gpu s g)" "g_lock_held (gpu s g)" adm] that k
    by (auto simp: works_def split: if_splits)
  then show ?thesis using k by (auto simp: grew_def works_def)
qed

abbreviation mem_of :: "sched_state \<Rightarrow> cptr \<Rightarrow> size_t" where
  "mem_of s p \<equiv> c_memory_allocated (client s p)"

text \<open>The running clients fit the limit, or at most one of them uses memory.\<close>

definition fits :: "gptr \<Rightarrow> sched_state \<Rightarrow> size_t \<Rightarrow> cptr list \<Rightarrow> bool" where
  "fits g s u run \<longleftrightarrow> u \<le> safe_limit (g_total_memory (gpu s g)) (cfg_memory_reserve_percent (s_config s))
     \<or> length (filter (\<lambda>p. mem_of s p \<noteq> 0) run) \<le> 1"

lemma word_sum_zero:
  "sum_list (map (\<lambda>p. unat (f p)) ps) < 2 ^ 64 \<Longrightarrow> sum_list (map f ps) = (0 :: size_t) \<Longrightarrow> p \<in> set ps \<Longrightarrow> f p = 0"
proof -
  assume a: "sum_list (map (\<lambda>p. unat (f p)) ps) < 2 ^ 64" "sum_list (map f ps) = (0 :: size_t)" "p \<in> set ps"
  have "sum_list (map f ps) = of_nat (sum_list (map (\<lambda>p. unat (f p)) ps))"
    by (induction ps) simp_all
  then have "unat (sum_list (map f ps)) = sum_list (map (\<lambda>p. unat (f p)) ps)"
    using a(1) by (simp add: unat_of_nat)
  then have "sum_list (map (\<lambda>p. unat (f p)) ps) = 0" using a(2) by simp
  then show "f p = 0" using a(3) by (auto simp: unat_eq_zero)
qed

lemma fits_admitted:
  assumes t: "can_run_with_memory g p (upd_gpu g (\<lambda>x. x\<lparr>g_running_memory_usage := u, g_lock_held := l\<rparr>) s)"
    and l: "l \<longleftrightarrow> run \<noteq> []" and u: "u = sum_list (map (mem_of s) run)"
    and nw: "sum_list (map (\<lambda>p. unat (mem_of s p)) run) < 2 ^ 64"
  shows "fits g s (u + mem_of s p) (run @ [p])"
proof -
  have zero: "filter (\<lambda>p. mem_of s p \<noteq> 0) run = []" if "u = 0"
    using word_sum_zero [OF nw] u that by (auto simp: filter_empty_conv)
  consider "\<not> l" | "u = 0" | "u + mem_of s p \<le> safe_limit (g_total_memory (gpu s g)) (cfg_memory_reserve_percent (s_config s))"
    using t by (auto simp: can_run_with_memory_def Let_def split: if_splits scheduling_mode.splits)
  then show ?thesis using l zero by cases (auto simp: fits_def)
qed

lemma fits_batch:
  assumes "admits g s u l adm" "l \<longleftrightarrow> run \<noteq> []" "u = sum_list (map (mem_of s) run)"
    "sum_list (map (\<lambda>p. unat (mem_of s p)) (run @ adm)) < 2 ^ 64" "fits g s u run"
  shows "fits g s (u + sum_list (map (mem_of s) adm)) (run @ adm)"
  using assms
proof (induction adm arbitrary: u l run)
  case (Cons p ps)
  have "fits g s (u + mem_of s p) (run @ [p])" using Cons.prems by (intro fits_admitted [where l = l]) auto
  then have "fits g s (u + mem_of s p + sum_list (map (mem_of s) ps)) ((run @ [p]) @ ps)"
    using Cons.prems by (intro Cons.IH [where l = True]) (auto simp: add.assoc)
  then show ?case by (simp add: add.assoc)
qed simp

end
