(* ===== verification/SchedRemove.thy ===== *)
theory SchedRemove
  imports SchedLoop
begin

text \<open>
  Removal of a client from the queues and from the scheduler (\<open>remove_req\<close> and \<open>delete_client\<close>
  of src/scheduler.c), and what goes wrong when the client to remove is still waiting for an
  idle context.
\<close>

section \<open>Leaving the running list\<close>

lemma find_running_correct:
  assumes inj: "inj_on (\<lambda>p. c_fd (client s p)) (set (s_clients s))" and al: "alive s p" "list_all (alive s) rs"
  shows "find_running s (c_fd (client s p)) rs =
    Inr (if p \<in> set rs then Some (takeWhile (\<lambda>r. r \<noteq> p) rs, tl (dropWhile (\<lambda>r. r \<noteq> p) rs)) else None)"
  using al(2)
proof (induction rs)
  case (Cons r rs)
  have "c_fd (client s r) = c_fd (client s p) \<longleftrightarrow> r = p"
    using inj al(1) Cons.prems by (auto simp: alive_def inj_on_def)
  with Cons show ?case by simp
qed simp

lemma remove1_split: "p \<in> set rs \<Longrightarrow> takeWhile (\<lambda>r. r \<noteq> p) rs @ tl (dropWhile (\<lambda>r. r \<noteq> p) rs) = remove1 p rs"
  by (induction rs) auto

lemma billed_nonneg:
  "config_ok cfg \<Longrightarrow> 0 < d \<Longrightarrow> 1 \<le> n \<Longrightarrow> 0 \<le> billed_duration cfg c d n"
  by (auto simp: billed_duration_def Let_def config_ok_def pos_imp_zdiv_nonneg_iff simp del: sdiv_pos
      intro!: sdiv_nonneg mult_nonneg_nonneg)

lemma billed_le_wall:
  assumes "config_ok cfg" "0 < d" "1 \<le> n" shows "billed_duration cfg c d n \<le> d"
proof -
  let ?k = "if c_drop_concurrency c > 0 then c_drop_concurrency c else 1"
  have k: "1 \<le> ?k" by simp
  have p: "0 \<le> cfg_drop_tail_billing_percent cfg" "cfg_drop_tail_billing_percent cfg \<le> 100"
    using assms by (simp_all add: config_ok_def)
  have "d sdiv ?k * cfg_drop_tail_billing_percent cfg sdiv 100 \<le> d sdiv ?k"
    using assms k p by (intro percent_le sdiv_nonneg) auto
  also have "\<dots> \<le> d" using assms k by (intro sdiv_le_self) auto
  finally show ?thesis using assms sdiv_le_self [of d n] unfolding billed_duration_def Let_def by auto
qed

text \<open>The state after a running client has left: its memory is given back and it is out of the list.\<close>

definition left_running :: "gptr \<Rightarrow> cptr \<Rightarrow> sched_state \<Rightarrow> sched_state \<Rightarrow> bool" where
  "left_running g p s s' \<longleftrightarrow> frame g s s' \<and> (bills_ok s \<longrightarrow> bills_ok s') \<and> grants s' = grants s
     \<and> g_requests (gpu s' g) = g_requests (gpu s g) \<and> g_wait_queue (gpu s' g) = g_wait_queue (gpu s g)
     \<and> g_running_list (gpu s' g) = remove1 p (g_running_list (gpu s g))
     \<and> g_lock_held (gpu s' g) = g_lock_held (gpu s g)
     \<and> g_running_memory_usage (gpu s' g) =
         (if g_running_memory_usage (gpu s g) \<ge> c_memory_allocated (client s p)
          then g_running_memory_usage (gpu s g) - c_memory_allocated (client s p) else 0)
     \<and> (\<forall>q. c_is_running (client s' q) = (q \<noteq> p \<and> c_is_running (client s q)))
     \<and> \<not> c_pending_drop (client s' p) \<and> c_last_drop_sent_ms (client s' p) \<le> 0"

lemma leave_running_correct:
  assumes w: "wf_state s" and g: "g \<in> set (s_contexts s)"
  obtains s' where "leave_running g p (remove1 p (g_running_list (gpu s g))) s = Inr s'" "left_running g p s s'"
proof -
  let ?m = "c_memory_allocated (client s p)"
  let ?s1 = "upd_gpu g (\<lambda>x. x\<lparr>g_running_memory_usage :=
      (if g_running_memory_usage x \<ge> ?m then g_running_memory_usage x - ?m else 0)\<rparr>) s"
  let ?now = "fst (current_time_ms ?s1)" and ?s2 = "snd (current_time_ms ?s1)"
  have "list_all (alive ?s2) (g_running_list (gpu ?s2 g))"
    using wf_running_live [OF w g] by (simp add: running_live_def list_all_iff)
  then obtain s3 where a: "accrue_running_usage g ?now (Some p) ?s2 = Inr s3" using accrue_total by blast
  let ?d = "?now - c_current_run_start_ms (client s3 p)" and ?n = "count_running_clients g s3"
  let ?s4 = "if ?d > 0 then upd_client p (\<lambda>c. c\<lparr>c_run_time_in_window_ms := c_run_time_in_window_ms c
                + billed_duration (s_config s3) c ?d ?n\<rparr>) s3 else s3"
  let ?off = "\<lambda>c. c\<lparr>c_last_drop_sent_ms := (if c_last_drop_sent_ms c > 0 then 0 else c_last_drop_sent_ms c),
                          c_pending_drop := False, c_drop_concurrency := 1, c_is_running := False\<rparr>"
  let ?s5 = "upd_client p ?off ?s4"
  let ?s6 = "upd_gpu g (\<lambda>x. x\<lparr>g_running_list := remove1 p (g_running_list (gpu s g)), g_timer_wake := True\<rparr>) ?s5"
  have eq: "leave_running g p (remove1 p (g_running_list (gpu s g))) s = Inr ?s6"
    unfolding leave_running_def by (simp add: case_prod_beta Let_def a)
  have f1: "frame g s ?s2" by (rule frame_trans [OF _ frame_core [OF core_eq_current_time]]) (simp add: frame_def)
  note w3 = works_accrue [OF a, unfolded works_def] and k3 = skel_accrue [OF a]
  have f: "frame g s s3" using frame_trans [OF f1 works_frame [OF works_accrue [OF a]]] .
  have f6: "frame g s3 ?s6" by (simp add: frame_def)
  have b2: "bills_ok s \<longrightarrow> bills_ok ?s2" by (simp add: bills_ok_def)
  have bill: "0 \<le> billed_duration (s_config s3) (client s3 p) ?d ?n" if "0 < ?d"
    using w that count_running_pos by (intro billed_nonneg) (simp_all add: frame_simps [OF f] wf_state_def)
  have "bills_ok ?s6" if "bills_ok s3" using that by (rule bills_ok_step) (use bill in auto)
  then have b6: "bills_ok s \<longrightarrow> bills_ok ?s6" using b2 w3 by blast
  have "left_running g p s ?s6"
    using frame_trans [OF f f6] b6 w3 accrue_gpu [OF a]
    by (simp add: left_running_def skel_simps [OF k3])
  with eq show thesis using that by blast
qed

lemma left_running_wf:
  assumes w: "wf_state s" and g: "g \<in> set (s_contexts s)" and p: "p \<in> set (g_running_list (gpu s g))"
    and l: "left_running g p s s1"
  defines "s2 \<equiv> if g_running_list (gpu s1 g) = [] then upd_gpu g (\<lambda>x. x\<lparr>g_lock_held := False\<rparr>) s1 else s1"
  shows "wf_state s2" and "frame g s s2"
proof -
  have f1: "frame g s s1" and b1: "bills_ok s1" using l wf_simps [OF w] by (simp_all add: left_running_def)
  have "frame g s1 s2" by (simp add: s2_def frame_def)
  then show f: "frame g s s2" by (rule frame_trans [OF f1])
  have b: "bills_ok s2" unfolding s2_def using b1 by (simp add: bills_ok_def)
  have e: "g_requests (gpu s2 g) = g_requests (gpu s g)" "g_wait_queue (gpu s2 g) = g_wait_queue (gpu s g)"
    "g_running_list (gpu s2 g) = remove1 p (g_running_list (gpu s g))"
    "g_lock_held (gpu s2 g) = (remove1 p (g_running_list (gpu s g)) \<noteq> [])"
    using l p wf_gpu [OF w g] by (auto simp: s2_def left_running_def gpu_wf_def Let_def)
  have "gpu_wf s2 g" using wf_gpu [OF w g] set_remove1_subset [of p "g_running_list (gpu s g)"]
    unfolding gpu_wf_def Let_def e frame_simps [OF f] list_all_iff by auto
  then show "wf_state s2" by (rule wf_frame [OF w f _ b])
qed

section \<open>A pass over an idle context\<close>

lemma idle_pass:
  assumes w: "wf_state s" and k: "sends_ok s" and g: "g \<in> set (s_contexts s)" and n: "sched_measure g s + 1 < n"
  obtains adm s' where "bindR (check_wait_queue g s) (try_schedule n g) = Inr s'" "works g s adm s'"
proof -
  have "\<exists>s1. check_wait_queue g s = Inr s1 \<and> works g s [] s1 \<and> sched_measure g s1 < n"
    using w k g
  proof (cases rule: check_wait_queue_correct)
    case (none s1)
    then show ?thesis using n by (auto simp: sched_measure_def)
  next
    case (promoted s1 a p b)
    then show ?thesis using n by (intro exI [of _ s1]) (simp add: sched_measure_def)
  qed
  then obtain s1 where s1: "check_wait_queue g s = Inr s1" "works g s [] s1" "sched_measure g s1 < n" by blast
  then obtain adm s' where t: "try_schedule n g s1 = Inr s'" "works g s1 adm s'"
    using try_schedule_correct [of s1 g n] works_wf [OF w g s1(2)] works_fields [OF s1(2)] k g by auto
  have "works g s adm s'" using works_trans [OF s1(2) t(2)] by simp
  then show thesis using that [of s' adm] t(1) s1(1) by simp
qed

section \<open>Removal from the queues\<close>

text \<open>The last part of \<open>remove_req\<close>.\<close>

definition purge :: "gptr \<Rightarrow> cptr \<Rightarrow> sched_state \<Rightarrow> sched_state" where
  "purge g p s = upd_gpu g (\<lambda>x. x\<lparr>g_requests := filter (\<lambda>r. r \<noteq> p) (g_requests x),
     g_wait_queue := filter (\<lambda>r. r \<noteq> p) (g_wait_queue x)\<rparr>) s"

lemma purge_correct:
  assumes w: "wf_state s" and g: "g \<in> set (s_contexts s)" and p: "alive s p"
  shows "drop_pending g p s = Inr (purge g p s)"
proof -
  have al: "alive s r" if "r \<in> set (g_requests (gpu s g) @ g_wait_queue (gpu s g))" for r
    using wf_queued(1) [OF w g] that by (auto simp: all_queued_def queues_def)
  have "c_fd (client s r) \<noteq> c_fd (client s p) \<longleftrightarrow> r \<noteq> p" if "alive s r" for r
    using w that p by (auto simp: wf_state_def alive_def inj_on_def)
  then have "filter (\<lambda>r. c_fd (client s r) \<noteq> c_fd (client s p)) rs = filter (\<lambda>r. r \<noteq> p) rs"
    if "set rs \<subseteq> set (g_requests (gpu s g) @ g_wait_queue (gpu s g))" for rs
    using al that by (intro filter_cong) auto
  then show ?thesis using al p by (auto simp: drop_pending_def guard_live_def list_all_iff purge_def upd_gpu_def Let_def)
qed

lemma purge_wf:
  assumes w: "wf_state s" and g: "g \<in> set (s_contexts s)" shows "wf_state (purge g p s)" "frame g s (purge g p s)"
proof -
  show f: "frame g s (purge g p s)" by (simp add: purge_def frame_def)
  have "gpu_wf (purge g p s) g" using wf_gpu [OF w g] by (auto simp: gpu_wf_def purge_def Let_def list_all_iff)
  moreover have "bills_ok (purge g p s)" using w by (simp add: wf_state_def purge_def bills_ok_def)
  ultimately show "wf_state (purge g p s)" by (rule wf_frame [OF w f])
qed

text \<open>A client may be removed unless it waits for an idle context.\<close>

definition removable :: "gptr \<Rightarrow> cptr \<Rightarrow> sched_state \<Rightarrow> bool" where
  "removable g p s \<longleftrightarrow> g_running_list (gpu s g) \<noteq> []
     \<or> p \<notin> set (g_requests (gpu s g) @ g_wait_queue (gpu s g))"

lemma unlock_idle: "\<not> g_lock_held x \<Longrightarrow> x\<lparr>g_lock_held := False\<rparr> = x" for x :: gpu_context
  by (cases x) simp

lemma remove_req_running:
  assumes w: "wf_state s" and g: "g \<in> set (s_contexts s)" and p: "alive s p" "c_context (client s p) = Some g"
  obtains s1 where "wf_state s1" "frame g s s1" "remove_req ts p s =
      bindR (if g_running_list (gpu s1 g) = [] then bindR (check_wait_queue g s1) (ts g) else Inr s1)
        (drop_pending g p)"
    "g_requests (gpu s1 g) = g_requests (gpu s g)" "g_wait_queue (gpu s1 g) = g_wait_queue (gpu s g)"
    "g_running_list (gpu s1 g) = remove1 p (g_running_list (gpu s g))" "grants s1 = grants s"
proof -
  let ?R = "g_running_list (gpu s g)"
  have al: "list_all (alive s) ?R" using wf_running_live [OF w g] by (simp add: running_live_def)
  have inj: "inj_on (\<lambda>p. c_fd (client s p)) (set (s_clients s))" using w by (simp add: wf_state_def)
  note fr = find_running_correct [OF inj p(1) al]
  let ?unlock = "\<lambda>s. upd_gpu g (\<lambda>x. x\<lparr>g_lock_held := False\<rparr>) s"
  show thesis
  proof (cases "p \<in> set ?R")
    case True
    obtain s0 where s0: "leave_running g p (remove1 p ?R) s = Inr s0" "left_running g p s s0"
      using leave_running_correct [OF w g] .
    let ?s1 = "if g_running_list (gpu s0 g) = [] then ?unlock s0 else s0"
    note l = left_running_wf [OF w g True s0(2)]
    show thesis
      by (rule that [OF l])
        (use s0 True p(2) in \<open>auto simp: remove_req_def fr remove1_split left_running_def\<close>)
  next
    case False
    have nl: "\<not> g_lock_held (gpu s g)" if "?R = []" using wf_gpu [OF w g] that by (simp add: gpu_wf_def Let_def)
    have "?unlock s = s" if "?R = []" using nl [OF that] by (simp add: upd_gpu_def unlock_idle)
    then show thesis using False p(2) by (intro that [OF w frame_refl]) (auto simp: remove_req_def fr remove1_idem)
  qed
qed

lemma wf_distinct_all: "wf_state s \<Longrightarrow> g \<in> set (s_contexts s) \<Longrightarrow> distinct (all_queued (queues g s))"
  using wf_gpu by (simp add: gpu_wf_queues)

lemma purge_perm:
  assumes "wf_state s2" "g \<in> set (s_contexts s2)" "distinct (all_queued q)" "p \<notin> set (g_running_list (gpu s2 g))"
    and "set (all_queued (queues g s2)) - {p} = set (all_queued q) - {p}"
  shows "mset (all_queued (queues g (purge g p s2))) = mset (all_queued q) - {#p#}"
proof -
  have "set (all_queued (queues g (purge g p s2))) = set (all_queued (queues g s2)) - {p}"
    using assms(4) by (auto simp: all_queued_def queues_def purge_def)
  also have "\<dots> = set (remove1 p (all_queued q))" using assms(3,5) by simp
  moreover have "distinct (all_queued (queues g (purge g p s2)))"
    using assms(1,2) by (intro wf_distinct_all purge_wf) (auto simp: purge_def)
  ultimately have "mset (all_queued (queues g (purge g p s2))) = mset (remove1 p (all_queued q))"
    using assms(3) by (intro iffD1 [OF set_eq_iff_mset_eq_distinct]) auto
  then show ?thesis by simp
qed

theorem remove_req_correct:
  assumes w: "wf_state s" and k: "sends_ok s" and p: "alive s p" "c_context (client s p) = Some g"
    and r: "removable g p s" and n: "sched_measure g s + 1 < n"
  shows "\<exists>s'. remove_req (try_schedule n) p s = Inr s' \<and> wf_state s' \<and> frame g s s'
    \<and> mset (all_queued (queues g s')) = mset (all_queued (queues g s)) - {#p#}
    \<and> grew g (remove1 p (g_running_list (gpu s g))) s s'"
proof -
  have g: "g \<in> set (s_contexts s)" using w p by (auto simp: wf_state_def list_all_iff alive_def)
  obtain s1 where w1: "wf_state s1" and f1: "frame g s s1" and eq: "remove_req (try_schedule n) p s =
      bindR (if g_running_list (gpu s1 g) = [] then bindR (check_wait_queue g s1) (try_schedule n g) else Inr s1)
        (drop_pending g p)"
    and q1: "g_requests (gpu s1 g) = g_requests (gpu s g)" "g_wait_queue (gpu s1 g) = g_wait_queue (gpu s g)"
      "g_running_list (gpu s1 g) = remove1 p (g_running_list (gpu s g))" "grants s1 = grants s"
    using remove_req_running [OF w g p] .
  have g1: "g \<in> set (s_contexts s1)" "sends_ok s1" "alive s1 p" using g k p by (simp_all add: frame_simps [OF f1])
  note d = wf_distinct_queues [OF w g] wf_distinct_queues [OF w1 g1(1)]
  text \<open>The pass over the context if it has become idle.\<close>
  obtain adm s2 where s2: "(if g_running_list (gpu s1 g) = [] then bindR (check_wait_queue g s1) (try_schedule n g)
      else Inr s1) = Inr s2" "works g s1 adm s2" "g_running_list (gpu s1 g) \<noteq> [] \<longrightarrow> s2 = s1"
  proof (cases "g_running_list (gpu s1 g) = []")
    case True
    have "sched_measure g s1 + 1 < n" using n q1 by (simp add: sched_measure_def)
    then obtain adm s2 where "bindR (check_wait_queue g s1) (try_schedule n g) = Inr s2" "works g s1 adm s2"
      using idle_pass [OF w1 g1(2,1)] by blast
    then show thesis using True that by simp
  qed (use that works_refl in auto)
  note w2 = works_wf [OF w1 g1(1) s2(2)]
  have g2: "g \<in> set (s_contexts s2)" "alive s2 p" using works_fields [OF s2(2)] g1 by simp_all
  have res: "remove_req (try_schedule n) p s = Inr (purge g p s2)"
    unfolding eq s2(1) bindR_Inr by (rule purge_correct [OF w2 g2])
  have perm: "mset (all_queued (queues g s2)) = mset (all_queued (queues g s1))"
    using s2(2) qsteps_perm by (simp add: works_def)
  have set1: "set (all_queued (queues g s1)) = set (g_requests (gpu s g)) \<union> set (g_wait_queue (gpu s g))
      \<union> (set (g_running_list (gpu s g)) - {p})"
    using d(1) by (auto simp: all_queued_def queues_def q1)
  have "p \<notin> set (g_running_list (gpu s2 g))"
  proof (cases "p \<in> set (g_requests (gpu s g) @ g_wait_queue (gpu s g))")
    case True
    then have "g_running_list (gpu s g) \<noteq> []" "p \<notin> set (g_running_list (gpu s g))"
      using r d(1) by (auto simp: removable_def)
    then show ?thesis using s2(3) q1(3) by (simp add: remove1_idem)
  next
    case False
    then have "p \<notin> set (all_queued (queues g s2))" using mset_eq_setD [OF perm] set1 by auto
    then show ?thesis by (simp add: all_queued_def queues_def)
  qed
  then have "mset (all_queued (queues g (purge g p s2))) = mset (all_queued (queues g s)) - {#p#}"
    using mset_eq_setD [OF perm] set1 wf_distinct_all [OF w g]
    by (intro purge_perm [OF w2 g2(1)]) (auto simp: all_queued_def queues_def)
  moreover have "grew g (remove1 p (g_running_list (gpu s g))) s (purge g p s2)"
    using works_grew [OF w1 g1(1) s2(2)] q1(3,4) by (simp add: grew_def purge_def frame_simps [OF f1])
  ultimately show ?thesis using res purge_wf [OF w2 g2(1)] frame_trans [OF f1 frame_trans [OF works_frame [OF s2(2)]]] by blast
qed

section \<open>Removal from the scheduler\<close>

lemma free_loop_freed:
  "list_all (\<lambda>c. c_fd (client s c) \<noteq> w_stale_fd (s_world s)) cs \<Longrightarrow> free_loop s p True cs = cs"
  by (induction cs) auto

lemma free_loop_correct:
  assumes "distinct cs" "inj_on (\<lambda>p. c_fd (client s p)) (insert p (set cs))"
    "list_all (\<lambda>c. c_fd (client s c) \<noteq> w_stale_fd (s_world s)) cs"
  shows "free_loop s p False cs = remove1 p cs"
  using assms
proof (induction cs)
  case (Cons c cs)
  then show ?case by (auto simp: free_loop_freed inj_on_def)
qed simp

lemma wf_core:
  assumes c: "core_eq s s'" and w: "wf_state s" shows "wf_state s'"
  using w by (simp add: wf_state_def core_eq_simps [OF c] bills_core [OF c] gpu_wf_def list_all_iff)

text \<open>Freeing a client that no queue mentions and whose descriptor leaves the interest list.\<close>

lemma free_client_wf:
  assumes w: "wf_state s" and p: "alive s p" and q: "\<And>g. g \<in> set (s_contexts s) \<Longrightarrow> p \<notin> set (all_queued (queues g s))"
  shows "wf_state (s\<lparr>s_clients := remove1 p (s_clients s), s_epoll := removeAll (c_fd (client s p)) (s_epoll s)\<rparr>)" (is "wf_state ?t")
proof -
  have d: "distinct (s_clients s)" using w by (simp add: wf_state_def)
  then have al: "alive ?t r \<longleftrightarrow> alive s r \<and> r \<noteq> p" for r by (auto simp: alive_def)
  have "gpu_wf ?t g" if g: "g \<in> set (s_contexts s)" for g
    using wf_gpu [OF w g] q [OF g] by (auto simp: gpu_wf_queues al queues_def)
  moreover have "bills_ok ?t" using w d by (auto simp: wf_state_def bills_ok_def list_all_iff)
  moreover have "c_fd (client s r) \<noteq> c_fd (client s p)" if "alive s r" "r \<noteq> p" for r
    using w that p by (auto simp: wf_state_def inj_on_def alive_def)
  ultimately show ?thesis using w d p
    by (auto simp: wf_state_def list_all_iff alive_def inj_on_def)
qed

text \<open>What the removal of \<open>p\<close> does to the queues: it goes, and clients of its context may be granted the lock.\<close>

definition dequeued :: "cptr \<Rightarrow> sched_state \<Rightarrow> sched_state \<Rightarrow> bool" where
  "dequeued p s s' \<longleftrightarrow> (\<forall>h. c_context (client s p) \<noteq> Some h \<longrightarrow> gpu s' h = gpu s h)
     \<and> (\<forall>h. g_uuid (gpu s' h) = g_uuid (gpu s h))
     \<and> (case c_context (client s p) of None \<Rightarrow> grants s' = grants s
        | Some g \<Rightarrow> mset (all_queued (queues g s')) = mset (all_queued (queues g s)) - {#p#}
            \<and> grew g (remove1 p (g_running_list (gpu s g))) s s')"

lemma dequeued_queues:
  "dequeued p s s' \<Longrightarrow> c_context (client s p) = Some g \<Longrightarrow>
    mset (all_queued (queues g s')) = mset (all_queued (queues g s)) - {#p#}"
  by (simp add: dequeued_def)

lemma remove_req_unqueued:
  assumes w: "wf_state s" and k: "sends_ok s" and p: "alive s p"
    and r: "\<And>g. c_context (client s p) = Some g \<Longrightarrow> removable g p s \<and> sched_measure g s + 1 < n"
  shows "\<exists>s1 g. remove_req (try_schedule n) p s = Inr s1 \<and> wf_state s1 \<and> frame g s s1
      \<and> (\<forall>g \<in> set (s_contexts s). p \<notin> set (all_queued (queues g s1))) \<and> dequeued p s s1"
proof (cases "c_context (client s p)")
  case None
  then have "p \<notin> set (all_queued (queues g s))" if "g \<in> set (s_contexts s)" for g
    using wf_queued [OF w, of g] that by auto
  then show ?thesis using None w frame_refl by (intro exI [of _ s]) (auto simp: remove_req_def dequeued_def)
next
  case (Some g)
  then have pre: "removable g p s" "sched_measure g s + 1 < n" using r [OF Some] by simp_all
  obtain s1 where s1: "remove_req (try_schedule n) p s = Inr s1" "wf_state s1" "frame g s s1"
    "mset (all_queued (queues g s1)) = mset (all_queued (queues g s)) - {#p#}"
    "grew g (remove1 p (g_running_list (gpu s g))) s s1"
    using remove_req_correct [OF w k p Some pre] by auto
  have "p \<notin> set (all_queued (queues h s1))" if h: "h \<in> set (s_contexts s)" for h
  proof (cases "h = g")
    case True
    have "mset (all_queued (queues g s1)) = mset (remove1 p (all_queued (queues g s)))" using s1(4) by simp
    from mset_eq_setD [OF this] show ?thesis using True wf_distinct_all [OF w] h by auto
  next
    case False
    then show ?thesis using wf_queued(2) [OF s1(2), of h p] h Some by (auto simp: frame_simps [OF s1(3)])
  qed
  moreover have "dequeued p s s1" using s1 Some by (simp add: dequeued_def frame_simps [OF s1(3)])
  ultimately show ?thesis using s1 by auto
qed

theorem delete_client_correct:
  assumes w: "wf_state s" and k: "sends_ok s" and p: "alive s p"
    and r: "\<And>g. c_context (client s p) = Some g \<Longrightarrow> removable g p s \<and> sched_measure g s + 1 < n"
  shows "\<exists>s'. delete_client (try_schedule n) p s = Inr s' \<and> wf_state s' \<and> s_clients s' = remove1 p (s_clients s)
    \<and> s_epoll s' = removeAll (c_fd (client s p)) (s_epoll s)
    \<and> sends_ok s' \<and> s_contexts s' = s_contexts s \<and> s_config s' = s_config s \<and> s_on s' = s_on s
    \<and> (\<forall>q. c_id (client s' q) = c_id (client s q) \<and> c_context (client s' q) = c_context (client s q)
         \<and> c_fd (client s' q) = c_fd (client s q)) \<and> dequeued p s s'"
proof -
  let ?s0 = "metrics_inc_client_disconnect s"
  have c: "core_eq s ?s0" by simp
  note e = core_eq_simps [OF c] and w0 = wf_core [OF c w]
  obtain s1 g where s1: "remove_req (try_schedule n) p ?s0 = Inr s1" "wf_state s1" "frame g ?s0 s1"
    and nq: "\<forall>g \<in> set (s_contexts ?s0). p \<notin> set (all_queued (queues g s1))"
    and d0: "dequeued p ?s0 s1"
    using remove_req_unqueued [OF w0, of p n] k p r by (auto simp: e removable_def sched_measure_def queues_def)
  note f = frame_simps [OF s1(3)]
  have p1: "alive s1 p" using p e f by simp
  have sc: "s_clients s1 = s_clients s" "s_epoll s1 = s_epoll s" "c_fd (client s1 p) = c_fd (client s p)"
    using e f by simp_all
  have fl: "free_loop s1 p False (s_clients s) = remove1 p (s_clients s)"
    using s1(2) p1 sc by (intro free_loop_correct) (auto simp: wf_state_def alive_def insert_absorb list_all_iff)
  have ep: "c_fd (client s p) \<in> set (s_epoll s)"
    using s1(2) p1 sc by (auto simp: wf_state_def alive_def list_all_iff)
  let ?t = "s1\<lparr>s_clients := remove1 p (s_clients s1), s_epoll := removeAll (c_fd (client s1 p)) (s_epoll s1)\<rparr>"
  have "delete_client (try_schedule n) p s = Inr ?t"
    using p p1 ep by (simp add: delete_client_def guard_live_def s1(1) fl sc Let_def)
  moreover have "wf_state ?t" using nq e f by (intro free_client_wf [OF s1(2) p1]) auto
  moreover have "sends_ok ?t" "s_contexts ?t = s_contexts s" "s_config ?t = s_config s" "s_on ?t = s_on s"
    using k e f by (simp_all add: sends_ok_def)
  moreover have "c_id (client ?t q) = c_id (client s q) \<and> c_context (client ?t q) = c_context (client s q)
      \<and> c_fd (client ?t q) = c_fd (client s q)" for q
    using e f by simp
  moreover have "grants ?t = grants s1" by (simp add: grants_def)
  then have "dequeued p s ?t"
    using d0 by (cases "c_context (client s p)") (simp_all add: dequeued_def e queues_def grew_def)
  ultimately show ?thesis using sc by auto
qed

section \<open>Requests that cannot be served\<close>

text \<open>A client that waits for memory and asks again: the request is neither served nor moved.\<close>

lemma duplicate_request_spins:
  assumes "g_requests (gpu s g) = p # rs" "p \<in> set (g_wait_queue (gpu s g))" "running_live g s" "alive s p"
    "\<not> can_run_with_memory g p s"
  shows "try_schedule n g s = Inl OutOfFuel"
  using assms
proof (induction n arbitrary: s)
  case (Suc n)
  obtain b s1 where r: "can_run g p s = Inr (b, s1)" using can_run_total Suc.prems by blast
  note k = skel_can_run [OF r]
  have "\<not> can_run_with_memory g p s1" using Suc.prems(5) memory_test_skel [OF k] by simp
  then have "\<not> b" using can_run_value [OF r] by simp
  moreover have "try_schedule n g s1 = Inl OutOfFuel"
    using Suc.prems by (intro Suc.IH) (simp_all add: running_live_def list_all_iff skel_simps [OF k] memory_test_skel [OF k])
  ultimately show ?case using Suc.prems
    by (simp add: sched_turn_def r move_to_wait_queue_def skel_simps [OF k])
qed simp

text \<open>A dead client at the head of an idle context: deleting it schedules the context again before
  the request is dropped.\<close>

definition dead_head :: "gptr \<Rightarrow> cptr \<Rightarrow> sched_state \<Rightarrow> bool" where
  "dead_head g p s \<longleftrightarrow> (\<exists>rs. g_requests (gpu s g) = p # rs) \<and> g_wait_queue (gpu s g) = [] \<and> g_running_list (gpu s g) = []
     \<and> alive s p \<and> c_context (client s p) = Some g \<and> c_core_limit (client s p) \<ge> 100
     \<and> \<not> g_lock_held (gpu s g) \<and> can_run_with_memory g p s
     \<and> (\<forall>k. w_write (s_world s) k (c_fd (client s p)) = Inl EPIPE)"

lemma dead_head_skel:
  assumes k: "skel s' = skel s" and d: "dead_head g p s" shows "dead_head g p s'"
  using d by (simp add: dead_head_def skel_simps [OF k] skel_world [OF k] memory_test_skel [OF k])

lemma dead_client_diverges: "dead_head g p s \<Longrightarrow> try_schedule n g s = Inl OutOfFuel"
proof (induction n arbitrary: s)
  case (Suc n)
  note d = Suc.prems [unfolded dead_head_def]
  then obtain rs where rs: "g_requests (gpu s g) = p # rs" by blast
  obtain b s1 where r: "can_run g p s = Inr (b, s1)"
    using can_run_total [of g s p] d by (auto simp: running_live_def)
  have d1: "dead_head g p s1" by (rule dead_head_skel [OF skel_can_run [OF r] Suc.prems])
  have b using can_run_value [OF r] d1 by (simp add: quota_ok_def dead_head_def)
  note e1 = d1 [unfolded dead_head_def]
  let ?s2 = "set_out_type LOCK_OK s1"
  let ?s3 = "?s2\<lparr>s_world := (s_world ?s2)\<lparr>w_write_n := Suc (w_write_n (s_world ?s2))\<rparr>\<rparr>"
  have snd: "send_message p m ?s2 = Inr (False, ?s3)" for m
    using e1 by (simp add: send_message_def Let_def)
  let ?s4 = "upd_gpu g (\<lambda>x. x\<lparr>g_lock_held := False\<rparr>) (metrics_inc_client_disconnect ?s3)"
  have "dead_head g p ?s4"
    using e1 by (auto simp: dead_head_def can_run_with_memory_def metrics_inc_client_disconnect_def
        alive_def Let_def split: scheduling_mode.splits if_splits)
  then have "try_schedule n g ?s4 = Inl OutOfFuel" by (rule Suc.IH)
  moreover have "check_wait_queue g ?s4 = Inr ?s4"
    using e1 by (simp add: check_wait_queue_def metrics_inc_client_disconnect_def)
  ultimately have "delete_client (try_schedule n) p ?s3 = Inl OutOfFuel"
    using e1 by (simp add: delete_client_def remove_req_def guard_live_def alive_def
        metrics_inc_client_disconnect_def)
  then show ?case using \<open>b\<close> e1 rs
    by (simp add: sched_turn_def r snd Let_def)
qed simp

end
