(* ===== verification/SchedTimer.thy ===== *)
theory SchedTimer
  imports SchedRemove
begin

text \<open>
  The timer thread of a GPU context (\<open>calculate_switch_time\<close> and \<open>timer_thr_fn\<close> of
  src/scheduler.c). One iteration is \<open>timer_prepare\<close> (window reset, scheduling pass, sleep time
  and deadline), the wait, during which the thread gives up the mutex, and \<open>timer_enforce\<close>
  (throttling, preemption at the end of a time quantum, timer flag).
\<close>

section \<open>Definitions\<close>

definition calculate_switch_time :: "gptr \<Rightarrow> sched_state \<Rightarrow> int" where
  "calculate_switch_time g s =
     (if cfg_mode (s_config s) = SWITCH_TIME_FIXED then cfg_fixed_switch_time (s_config s)
      else
        (let mem_gb = g_running_memory_usage (gpu s g) div (1024 * 1024 * 1024);
             swap_time = to_int32 (if mem_gb > 0 then uint mem_gb else 1)
         in clamp 10 300 (to_int32 (swap_time * cfg_time_multiplier (s_config s)))))"

text \<open>Time left in the compute window.\<close>

definition window_remaining :: "gptr \<Rightarrow> int \<Rightarrow> sched_state \<Rightarrow> int" where
  "window_remaining g now s =
     (let w = cfg_compute_window_ms (s_config s); start = g_window_start_ms (gpu s g) in
      if start > 0 then max 0 (w - (now - start)) else w)"

text \<open>Billed usage of a running client at time \<open>now\<close>, the stretch not yet settled included.\<close>

definition current_usage :: "int \<Rightarrow> int \<Rightarrow> cptr \<Rightarrow> sched_state \<Rightarrow> int" where
  "current_usage now n_running p s =
     c_run_time_in_window_ms (client s p) + (now - c_current_run_start_ms (client s p)) sdiv n_running"

definition sleep_one :: "gptr \<Rightarrow> int \<Rightarrow> int \<Rightarrow> sched_state \<Rightarrow> cptr \<Rightarrow> int \<Rightarrow> int" where
  "sleep_one g now n_running s p m =
     (if c_core_limit (client s p) < 100
      then (let remaining = get_effective_quota_ms g p s - current_usage now n_running p s in
            if remaining \<le> 0 then 0 else min m (remaining * n_running))
      else m)"

definition has_quota_running :: "gptr \<Rightarrow> sched_state \<Rightarrow> bool" where
  "has_quota_running g s \<longleftrightarrow> list_ex (\<lambda>p. c_core_limit (client s p) < 100) (g_running_list (gpu s g))"

definition min_sleep_ms :: "gptr \<Rightarrow> int \<Rightarrow> int \<Rightarrow> sched_state \<Rightarrow> int" where
  "min_sleep_ms g now default_tq_ms s =
     (let cfg = s_config s; rem = window_remaining g now s;
          m1 = min default_tq_ms rem;
          m2 = fold (sleep_one g now (count_running_clients g s) s) (g_running_list (gpu s g)) m1;
          m3 = (if cfg_quota_sample_interval_ms cfg > 0 \<and> has_quota_running g s
                then min m2 (cfg_quota_sample_interval_ms cfg) else m2);
          m4 = (if m3 > cfg_compute_window_ms cfg then cfg_compute_window_ms cfg else m3)
      in if m4 > 0 \<and> m4 < 10 \<and> rem > 10 then 10 else m4)"

text \<open>The deadline of the wait, from the reading of the realtime clock.\<close>

definition sleep_deadline :: "timespec \<Rightarrow> int \<Rightarrow> timespec" where
  "sleep_deadline t ms =
     (let sec = tv_sec t + ms sdiv 1000; nsec = tv_nsec t + (ms smod 1000) * 1000000
      in if nsec \<ge> 1000000000 then \<lparr>tv_sec = sec + 1, tv_nsec = nsec - 1000000000\<rparr>
         else \<lparr>tv_sec = sec, tv_nsec = nsec\<rparr>)"

definition timer_prepare ::
  "nat \<Rightarrow> gptr \<Rightarrow> timespec \<Rightarrow> sched_state \<Rightarrow> (int \<times> int \<times> timespec \<times> sched_state) res" where
  "timer_prepare n g realtime s =
     bindR (check_and_reset_window g s) (\<lambda>(reset, s1).
     bindR (if reset then try_schedule n g s1 else Inr s1) (\<lambda>s2.
     let default_tq_ms = to_int32 (calculate_switch_time g s2 * 1000);
         (now, s3) = current_time_ms s2 in
     bindR (guard_live (g_running_list (gpu s3 g)) s3) (\<lambda>s3.
     let m = min_sleep_ms g now default_tq_ms s3 in
     Inr (default_tq_ms, m, sleep_deadline realtime m, s3))))"

definition drop_msg :: message where
  "drop_msg = zero_message\<lparr>m_id := 1337, m_type := DROP_LOCK\<rparr>"

text \<open>Targeted throttling of one running client.\<close>

definition throttle_one :: "gptr \<Rightarrow> int \<Rightarrow> int \<Rightarrow> cptr \<Rightarrow> sched_state \<Rightarrow> sched_state res" where
  "throttle_one g now n_running p s =
     (let c = client s p in
      if c_core_limit c < 100 \<and> \<not> c_is_throttled c \<and> \<not> c_pending_drop c
         \<and> current_usage now n_running p s \<ge> get_effective_quota_ms g p s
      then (let s1 = upd_client p (\<lambda>c. c\<lparr>c_is_throttled := True, c_pending_drop := True,
                       c_drop_concurrency := (if n_running > 0 then n_running else 1),
                       c_run_time_in_window_ms := current_usage now n_running p s,
                       c_current_run_start_ms := now, c_last_drop_sent_ms := now\<rparr>) s
            in bindR (send_message p drop_msg s1) (\<lambda>(_, s2). Inr (metrics_inc_drop_lock s2)))
      else Inr s)"

fun throttle_loop :: "gptr \<Rightarrow> int \<Rightarrow> int \<Rightarrow> cptr list \<Rightarrow> sched_state \<Rightarrow> sched_state res" where
  "throttle_loop g now n_running [] s = Inr s"
| "throttle_loop g now n_running (p # ps) s =
     bindR (throttle_one g now n_running p s) (throttle_loop g now n_running ps)"

text \<open>Preemption of one running client at the end of a time quantum.\<close>

definition rotate_one :: "int \<Rightarrow> int \<Rightarrow> cptr \<Rightarrow> sched_state \<Rightarrow> sched_state res" where
  "rotate_one now n_running p s =
     (if \<not> c_is_throttled (client s p) \<and> c_last_drop_sent_ms (client s p) = 0
      then (let s1 = upd_client p (\<lambda>c. c\<lparr>c_pending_drop := True,
                       c_drop_concurrency := (if n_running > 0 then n_running else 1),
                       c_last_drop_sent_ms := now\<rparr>) s
            in bindR (send_message p drop_msg s1) (\<lambda>(_, s2). Inr (metrics_inc_drop_lock s2)))
      else Inr s)"

fun rotate_loop :: "int \<Rightarrow> int \<Rightarrow> cptr list \<Rightarrow> sched_state \<Rightarrow> sched_state res" where
  "rotate_loop now n_running [] s = Inr s"
| "rotate_loop now n_running (p # ps) s = bindR (rotate_one now n_running p s) (rotate_loop now n_running ps)"

definition rotate :: "gptr \<Rightarrow> bool \<Rightarrow> int \<Rightarrow> int \<Rightarrow> sched_state \<Rightarrow> sched_state res" where
  "rotate g timed_out m default_tq_ms s =
     (if timed_out \<and> m \<ge> default_tq_ms \<and> (g_requests (gpu s g) \<noteq> [] \<or> g_wait_queue (gpu s g) \<noteq> [])
      then (let (now, s1) = current_time_ms s in
            bindR (guard_live (g_running_list (gpu s1 g)) s1) (\<lambda>s1.
              rotate_loop now (count_running_clients g s1) (g_running_list (gpu s1 g)) s1))
      else Inr s)"

definition timer_enforce :: "gptr \<Rightarrow> bool \<Rightarrow> int \<Rightarrow> int \<Rightarrow> sched_state \<Rightarrow> sched_state res" where
  "timer_enforce g timed_out m default_tq_ms s =
     (let (now, s1) = current_time_ms s in
      bindR (guard_live (g_running_list (gpu s1 g)) s1) (\<lambda>s1.
      bindR (throttle_loop g now (count_running_clients g s1) (g_running_list (gpu s1 g)) s1) (\<lambda>s2.
      bindR (rotate g timed_out m default_tq_ms s2) (\<lambda>s3.
      Inr (upd_gpu g (\<lambda>x. x\<lparr>g_must_reset_timer := False\<rparr>) s3)))))"

section \<open>Sleep times\<close>

lemma switch_time_bounds:
  "cfg_mode (s_config s) = SWITCH_TIME_AUTO \<Longrightarrow> 10 \<le> calculate_switch_time g s \<and> calculate_switch_time g s \<le> 300"
  by (simp add: calculate_switch_time_def clamp_def Let_def)

lemma window_remaining_bounds:
  assumes "config_ok (s_config s)" "g_window_start_ms (gpu s g) \<le> now"
  shows "0 \<le> window_remaining g now s" "window_remaining g now s \<le> cfg_compute_window_ms (s_config s)"
  using assms by (auto simp: window_remaining_def Let_def config_ok_def)

lemma sleep_one_bounds:
  assumes "0 \<le> m" "1 \<le> n" shows "0 \<le> sleep_one g now n s p m" "sleep_one g now n s p m \<le> m"
  using assms by (auto simp: sleep_one_def Let_def)

lemma fold_sleep_bounds:
  assumes "1 \<le> n" "0 \<le> m"
  shows "0 \<le> fold (sleep_one g now n s) ps m \<and> fold (sleep_one g now n s) ps m \<le> m"
  using assms(2)
proof (induction ps arbitrary: m)
  case (Cons p ps)
  let ?x = "sleep_one g now n s p m"
  have x: "0 \<le> ?x" "?x \<le> m" using sleep_one_bounds [OF Cons.prems assms(1)] by simp_all
  show ?case using Cons.IH [OF x(1)] x(2) by simp
qed simp

lemma fold_sleep_quota:
  assumes n: "1 \<le> n" and m: "0 \<le> m" and p: "p \<in> set ps" "c_core_limit (client s p) < 100"
  shows "fold (sleep_one g now n s) ps m \<le> max 0 ((get_effective_quota_ms g p s - current_usage now n p s) * n)"
  using m p(1)
proof (induction ps arbitrary: m)
  case (Cons q ps)
  have b: "0 \<le> sleep_one g now n s q m" using sleep_one_bounds [OF Cons.prems(1) n] by simp
  show ?case
  proof (cases "q = p")
    case True
    have "sleep_one g now n s p m \<le> max 0 ((get_effective_quota_ms g p s - current_usage now n p s) * n)"
      using p(2) by (auto simp: sleep_one_def Let_def)
    then show ?thesis using fold_sleep_bounds [OF n b, of g now s ps] True by simp
  next
    case False
    then show ?thesis using Cons.IH [OF b] Cons.prems by simp
  qed
qed simp

lemma min_sleep_stages:
  assumes cfg: "config_ok (s_config s)" and now: "g_window_start_ms (gpu s g) \<le> now" and tq: "0 \<le> tq"
  shows "0 \<le> min_sleep_ms g now tq s" "min_sleep_ms g now tq s \<le> window_remaining g now s"
    "min_sleep_ms g now tq s \<le> max 10 tq"
    "has_quota_running g s \<Longrightarrow> min_sleep_ms g now tq s \<le> cfg_quota_sample_interval_ms (s_config s)"
    "p \<in> set (g_running_list (gpu s g)) \<Longrightarrow> c_core_limit (client s p) < 100 \<Longrightarrow>
      min_sleep_ms g now tq s \<le> max 10 ((get_effective_quota_ms g p s
        - current_usage now (count_running_clients g s) p s) * count_running_clients g s)"
proof -
  let ?m1 = "min tq (window_remaining g now s)" and ?n = "count_running_clients g s"
  let ?m2 = "fold (sleep_one g now ?n s) (g_running_list (gpu s g)) ?m1"
  have m1: "0 \<le> ?m1" using window_remaining_bounds [OF cfg now] tq by simp
  have b: "0 \<le> ?m2 \<and> ?m2 \<le> ?m1" by (rule fold_sleep_bounds [OF count_running_pos m1])
  have q: "?m2 \<le> max 0 ((get_effective_quota_ms g p s - current_usage now ?n p s) * ?n)"
    if "p \<in> set (g_running_list (gpu s g))" "c_core_limit (client s p) < 100"
    using fold_sleep_quota [OF count_running_pos m1 that] .
  show "0 \<le> min_sleep_ms g now tq s" "min_sleep_ms g now tq s \<le> window_remaining g now s"
    "min_sleep_ms g now tq s \<le> max 10 tq"
    "has_quota_running g s \<Longrightarrow> min_sleep_ms g now tq s \<le> cfg_quota_sample_interval_ms (s_config s)"
    "p \<in> set (g_running_list (gpu s g)) \<Longrightarrow> c_core_limit (client s p) < 100 \<Longrightarrow>
      min_sleep_ms g now tq s \<le> max 10 ((get_effective_quota_ms g p s
        - current_usage now (count_running_clients g s) p s) * count_running_clients g s)"
    using b q cfg window_remaining_bounds [OF cfg now]
    by (auto simp: min_sleep_ms_def Let_def config_ok_def min_def max_def split: if_splits)
qed

lemma sleep_deadline_correct:
  assumes t: "ts_valid t" and ms: "0 \<le> ms"
  shows "ts_valid (sleep_deadline t ms) \<and> ts_ns (sleep_deadline t ms) = ts_ns t + ms * 1000000"
proof -
  have sm: "ms smod 1000 = ms mod 1000" "ms sdiv 1000 = ms div 1000"
    using ms by (cases "ms = 0"; simp add: signed_modulo_int_def sgn_if)+
  have "ms mod 1000 \<ge> 0" "ms mod 1000 < 1000" "ms div 1000 * 1000000000 + ms mod 1000 * 1000000 = ms * 1000000"
    using div_mult_mod_eq [of ms 1000] by (auto, linarith)
  with t sm show ?thesis
    by (auto simp: sleep_deadline_def Let_def ts_valid_def ts_ns_def)
qed

section \<open>Enforcement\<close>

text \<open>The clients that a throttling pass at time \<open>now\<close> stops, and what it makes of them.\<close>

definition over_quota :: "gptr \<Rightarrow> int \<Rightarrow> int \<Rightarrow> sched_state \<Rightarrow> cptr \<Rightarrow> bool" where
  "over_quota g now n s p \<longleftrightarrow> c_core_limit (client s p) < 100 \<and> \<not> c_is_throttled (client s p)
     \<and> \<not> c_pending_drop (client s p) \<and> current_usage now n p s \<ge> get_effective_quota_ms g p s"

definition throttled :: "int \<Rightarrow> int \<Rightarrow> sched_state \<Rightarrow> cptr \<Rightarrow> nvshare_client" where
  "throttled now n s p = (client s p)\<lparr>c_is_throttled := True, c_pending_drop := True,
     c_drop_concurrency := (if n > 0 then n else 1), c_run_time_in_window_ms := current_usage now n p s,
     c_current_run_start_ms := now, c_last_drop_sent_ms := now\<rparr>"

lemma metrics_drop_simps [simp]:
  "client (metrics_inc_drop_lock s) p = client s p" "gpu (metrics_inc_drop_lock s) g = gpu s g"
  "s_world (metrics_inc_drop_lock s) = s_world s" "alive (metrics_inc_drop_lock s) p = alive s p"
  "s_clients (metrics_inc_drop_lock s) = s_clients s" "s_config (metrics_inc_drop_lock s) = s_config s"
  by (simp_all add: metrics_inc_drop_lock_def alive_def)

lemma drop_msg_type [simp]: "m_type drop_msg = DROP_LOCK"
  by (simp add: drop_msg_def)

lemma throttle_one_correct:
  assumes k: "sends_ok s" and p: "alive s p" "c_context (client s p) = Some g" and c: "config_ok (s_config s)"
  obtains s' where "throttle_one g now n p s = Inr s'" "works g s [] s'"
    "client s' p = (if over_quota g now n s p then throttled now n s p else client s p)"
    "\<And>q. q \<noteq> p \<Longrightarrow> client s' q = client s q" "\<And>h. gpu s' h = gpu s h"
    "w_sent (s_world s') = (if over_quota g now n s p then [(c_fd (client s p), drop_msg)] else []) @ w_sent (s_world s)"
proof (cases "over_quota g now n s p")
  case True
  let ?s1 = "upd_client p (\<lambda>c. c\<lparr>c_is_throttled := True, c_pending_drop := True,
                       c_drop_concurrency := (if n > 0 then n else 1),
                       c_run_time_in_window_ms := current_usage now n p s,
                       c_current_run_start_ms := now, c_last_drop_sent_ms := now\<rparr>) s"
  let ?s2 = "metrics_inc_drop_lock (sent_to p drop_msg ?s1)"
  have eq: "throttle_one g now n p s = Inr ?s2"
    using True k p by (simp add: throttle_one_def over_quota_def send_message_ok sends_ok_def Let_def)
  have f: "frame g s ?s2"
    using core_eq_simps(9,10) [OF core_eq_metrics(3), of "sent_to p drop_msg ?s1"]
    by (simp add: frame_def metrics_inc_drop_lock_def)
  have "bills_ok ?s2" if b: "bills_ok s"
  proof -
    have "0 \<le> current_usage now n p s"
      using True effective_quota_nonneg [OF c, of p g] bills_okD(2) [OF b p(1)] p(2) by (simp add: over_quota_def)
    then show ?thesis using b by (intro bills_ok_step [of s ?s2]) auto
  qed
  then have w2: "works g s [] ?s2" using f by (simp add: works_def queues_def)
  show thesis by (rule that [OF eq w2]) (use True in \<open>simp_all add: throttled_def sent_to_def\<close>)
next
  case False
  then have "throttle_one g now n p s = Inr s" by (auto simp: throttle_one_def over_quota_def Let_def)
  then show thesis using that [of s] works_refl False by simp
qed

lemma over_quota_frame:
  assumes f: "frame h s s'" and q: "client s' q = client s q"
  shows "over_quota g now n s' q = over_quota g now n s q" "throttled now n s' q = throttled now n s q"
  using q by (simp_all add: over_quota_def throttled_def current_usage_def effective_quota_frame [OF f])

theorem throttle_loop_correct:
  assumes "sends_ok s" "config_ok (s_config s)" "distinct ps"
    "\<forall>p \<in> set ps. alive s p \<and> c_context (client s p) = Some g"
  shows "\<exists>s'. throttle_loop g now n ps s = Inr s' \<and> works g s [] s' \<and> (\<forall>h. gpu s' h = gpu s h)
    \<and> (\<forall>p. client s' p = (if p \<in> set ps \<and> over_quota g now n s p then throttled now n s p else client s p))
    \<and> w_sent (s_world s') = rev (map (\<lambda>p. (c_fd (client s p), drop_msg)) (filter (over_quota g now n s) ps))
        @ w_sent (s_world s)"
  using assms
proof (induction ps arbitrary: s)
  case Nil
  then show ?case using works_refl by simp
next
  case (Cons p ps)
  obtain s1 where s1: "throttle_one g now n p s = Inr s1" "works g s [] s1"
    "client s1 p = (if over_quota g now n s p then throttled now n s p else client s p)"
    "\<And>q. q \<noteq> p \<Longrightarrow> client s1 q = client s q" "\<And>h. gpu s1 h = gpu s h"
    "w_sent (s_world s1) = (if over_quota g now n s p then [(c_fd (client s p), drop_msg)] else []) @ w_sent (s_world s)"
    using throttle_one_correct [of s p g now n] Cons.prems by auto
  note f = works_frame [OF s1(2)]
  have same: "over_quota g now n s1 q = over_quota g now n s q" "throttled now n s1 q = throttled now n s q"
    if "q \<in> set ps" for q
  proof -
    have "client s1 q = client s q" using that Cons.prems(3) by (intro s1(4)) auto
    from over_quota_frame [OF f this] show "over_quota g now n s1 q = over_quota g now n s q"
      "throttled now n s1 q = throttled now n s q" by simp_all
  qed
  obtain s2 where s2: "throttle_loop g now n ps s1 = Inr s2" "works g s1 [] s2" "\<forall>h. gpu s2 h = gpu s1 h"
    "\<forall>p. client s2 p = (if p \<in> set ps \<and> over_quota g now n s1 p then throttled now n s1 p else client s1 p)"
    "w_sent (s_world s2) = rev (map (\<lambda>p. (c_fd (client s1 p), drop_msg)) (filter (over_quota g now n s1) ps))
        @ w_sent (s_world s1)"
    using Cons.IH [of s1] Cons.prems by (auto simp: frame_simps [OF f])
  have fl: "filter (over_quota g now n s1) ps = filter (over_quota g now n s) ps"
    using same by (auto intro: filter_cong)
  have "client s2 q = (if q \<in> set (p # ps) \<and> over_quota g now n s q then throttled now n s q else client s q)" for q
    using s2(4) s1(3,4) same Cons.prems(3) by (cases "q = p") auto
  then show ?case using s1(1,5,6) s2 works_trans [OF s1(2) s2(2)] fl by (auto simp: frame_simps [OF f])
qed

section \<open>Rotation\<close>

text \<open>With a compute window shorter than the time quantum the wait never lasts a quantum, so the
  rotation at the end of a quantum does not take place.\<close>

lemma rotate_never:
  assumes cfg: "config_ok (s_config s)" and now: "g_window_start_ms (gpu s g) \<le> now"
    and tq: "cfg_compute_window_ms (s_config s) < tq"
  shows "rotate g timed_out (min_sleep_ms g now tq s) tq t = Inr t"
proof -
  have "0 \<le> tq" using cfg tq by (simp add: config_ok_def)
  have "min_sleep_ms g now tq s < tq"
    using min_sleep_stages(2) [OF cfg now \<open>0 \<le> tq\<close>] window_remaining_bounds(2) [OF cfg now] tq by linarith
  then show ?thesis by (simp add: rotate_def)
qed

section \<open>The iteration keeps the state well-formed\<close>

lemma works_window:
  assumes c: "check_and_reset_window g s = Inr (b, s')" and cfg: "config_ok (s_config s)"
  shows "works g s [] s'"
proof -
  note k = skel_check_window [OF c]
  have "bills_ok s'" if "bills_ok s"
    using that by (rule bills_ok_step) (auto simp: skel_simps [OF k] intro: check_window_bill [OF c cfg])
  with works_skel [OF k check_window_gpu [OF c]] show ?thesis by blast
qed

lemma rotate_one_correct:
  assumes k: "sends_ok s" and p: "alive s p"
  obtains s' where "rotate_one now n p s = Inr s'" "works g s [] s'" "\<forall>h. gpu s' h = gpu s h"
proof (cases "\<not> c_is_throttled (client s p) \<and> c_last_drop_sent_ms (client s p) = 0")
  case True
  let ?s1 = "upd_client p (\<lambda>c. c\<lparr>c_pending_drop := True, c_drop_concurrency := (if n > 0 then n else 1),
      c_last_drop_sent_ms := now\<rparr>) s"
  let ?s2 = "metrics_inc_drop_lock (sent_to p drop_msg ?s1)"
  have eq: "rotate_one now n p s = Inr ?s2"
    using True k p by (simp add: rotate_one_def send_message_ok sends_ok_def Let_def)
  have "bills_ok ?s2" if "bills_ok s" using that by (rule bills_ok_step) auto
  moreover have "frame g s ?s2"
    using core_eq_simps(9,10) [OF core_eq_metrics(3), of "sent_to p drop_msg ?s1"]
    by (simp add: frame_def metrics_inc_drop_lock_def)
  ultimately have "works g s [] ?s2" by (simp add: works_def queues_def)
  with eq show thesis by (rule that) simp
next
  case False
  then have "rotate_one now n p s = Inr s" by (auto simp: rotate_one_def)
  then show thesis using that works_refl by blast
qed

lemma rotate_loop_correct:
  assumes "sends_ok s" "\<forall>p \<in> set ps. alive s p"
  shows "\<exists>s'. rotate_loop now n ps s = Inr s' \<and> works g s [] s' \<and> (\<forall>h. gpu s' h = gpu s h)"
  using assms
proof (induction ps arbitrary: s)
  case Nil
  then show ?case using works_refl by simp
next
  case (Cons p ps)
  obtain s1 where s1: "rotate_one now n p s = Inr s1" "works g s [] s1" "\<forall>h. gpu s1 h = gpu s h"
    using rotate_one_correct [of s p now n g] Cons.prems by auto
  obtain s2 where "rotate_loop now n ps s1 = Inr s2" "works g s1 [] s2" "\<forall>h. gpu s2 h = gpu s1 h"
    using Cons.IH [of s1] Cons.prems works_fields [OF s1(2)] by auto
  then show ?case using s1 works_trans [OF s1(2)] by fastforce
qed

lemma rotate_correct:
  assumes w: "wf_state s" and k: "sends_ok s" and g: "g \<in> set (s_contexts s)"
  obtains s' where "rotate g b m tq s = Inr s'" "works g s [] s'" "\<forall>h. gpu s' h = gpu s h"
proof -
  let ?now = "fst (current_time_ms s)" and ?s1 = "snd (current_time_ms s)"
  have c: "core_eq s ?s1" by simp
  have run: "\<forall>p \<in> set (g_running_list (gpu s g)). alive s p"
    using wf_running_live [OF w g] by (simp add: running_live_def list_all_iff)
  obtain s' where l: "rotate_loop ?now (count_running_clients g ?s1) (g_running_list (gpu s g)) ?s1 = Inr s'" "works g ?s1 [] s'"
    "\<forall>h. gpu s' h = gpu s h"
    using rotate_loop_correct [of ?s1 "g_running_list (gpu s g)" ?now "count_running_clients g ?s1" g]
      run k core_eq_simps [OF c] by auto
  have ws: "works g s [] s'" using works_trans [OF works_core [OF c, of g] l(2)] by simp
  have "rotate g b m tq s = Inr s' \<or> rotate g b m tq s = Inr s"
    using l(1) run by (auto simp: rotate_def case_prod_beta guard_live_def list_all_iff)
  then show thesis using that ws l(3) works_refl by blast
qed

theorem timer_enforce_correct:
  assumes w: "wf_state s" and k: "sends_ok s" and g: "g \<in> set (s_contexts s)"
  shows "\<exists>s'. timer_enforce g timed_out m tq s = Inr s' \<and> wf_state s' \<and> frame g s s' \<and> queues g s' = queues g s
    \<and> grants s' = grants s"
proof -
  let ?now = "fst (current_time_ms s)" and ?s1 = "snd (current_time_ms s)"
  have w1: "works g s [] ?s1" by (rule works_core) simp_all
  note e1 = core_eq_simps [OF core_eq_current_time [of s]]
  have run: "\<forall>p \<in> set (g_running_list (gpu s g)). alive s p \<and> c_context (client s p) = Some g"
    using wf_queued [OF w g] by (auto simp: all_queued_def queues_def)
  obtain s2 where s2: "throttle_loop g ?now (count_running_clients g ?s1) (g_running_list (gpu s g)) ?s1 = Inr s2"
    "works g ?s1 [] s2" "\<forall>h. gpu s2 h = gpu s h"
    using throttle_loop_correct [of ?s1 "g_running_list (gpu s g)" g ?now "count_running_clients g ?s1"] run k w wf_distinct_queues [OF w g] e1
    by (auto simp: wf_state_def)
  have w02: "works g s [] s2" using works_trans [OF w1 s2(2)] by simp
  note f2 = works_fields [OF w02]
  obtain s3 where s3: "rotate g timed_out m tq s2 = Inr s3" "works g s2 [] s3" "\<forall>h. gpu s3 h = gpu s2 h"
    using rotate_correct [OF works_wf [OF w g w02], of g timed_out m tq] f2 g k by auto
  have w03: "works g s [] s3" using works_trans [OF w02 s3(2)] by simp
  let ?s4 = "upd_gpu g (\<lambda>x. x\<lparr>g_must_reset_timer := False\<rparr>) s3"
  have f4: "frame g s3 ?s4" by (simp add: frame_def)
  have "wf_state s3" by (rule works_wf [OF w g w03])
  moreover have "gpu_wf ?s4 g" using wf_gpu [OF works_wf [OF w g w03]] works_fields [OF w03] g
    by (simp add: gpu_wf_queues queues_def)
  moreover have "bills_ok ?s4" using works_wf [OF w g w03] by (simp add: wf_state_def bills_ok_def)
  ultimately have "wf_state ?s4" using wf_frame [OF _ f4] by blast
  moreover have "timer_enforce g timed_out m tq s = Inr ?s4"
    using s2 s3 run by (simp add: timer_enforce_def case_prod_beta guard_live_def list_all_iff Let_def)
  moreover have "queues g ?s4 = queues g s" using s2(3) s3(3) by (simp add: queues_def)
  moreover have "grants ?s4 = grants s" using w03 by (simp add: works_def)
  moreover have "frame g s ?s4" by (rule frame_trans [OF works_frame [OF w03] f4])
  ultimately show ?thesis by blast
qed

theorem timer_prepare_correct:
  assumes w: "wf_state s" and k: "sends_ok s" and g: "g \<in> set (s_contexts s)" and n: "sched_measure g s < n"
  shows "\<exists>tq m d s'. timer_prepare n g rt s = Inr (tq, m, d, s') \<and> wf_state s' \<and> frame g s s'
    \<and> mset (all_queued (queues g s')) = mset (all_queued (queues g s)) \<and> grew g (g_running_list (gpu s g)) s s'
    \<and> tq = to_int32 (calculate_switch_time g s' * 1000)
    \<and> m = min_sleep_ms g (w_clock (s_world s') (w_clock_n (s_world s') - 1)) tq s' \<and> d = sleep_deadline rt m"
proof -
  obtain b s1 where c: "check_and_reset_window g s = Inr (b, s1)"
    using check_window_total [OF wf_running_live [OF w g]] by blast
  have w1: "works g s [] s1" using works_window [OF c] w by (simp add: wf_state_def)
  note f1 = works_fields [OF w1] and wf1 = works_wf [OF w g w1]
  have m1: "sched_measure g s1 = sched_measure g s"
    by (simp add: sched_measure_def skel_simps [OF skel_check_window [OF c]])
  obtain adm s2 where s2: "(if b then try_schedule n g s1 else Inr s1) = Inr s2" "works g s1 adm s2"
    using try_schedule_correct [OF wf1, of g n] works_refl f1 g k n m1 by (cases b) auto
  have g1: "g \<in> set (s_contexts s1)" using f1 g by simp
  note wf2 = works_wf [OF wf1 g1 s2(2)] and f2 = works_fields [OF s2(2)]
  let ?s3 = "snd (current_time_ms s2)" and ?now = "fst (current_time_ms s2)"
  have wf3: "wf_state ?s3" by (rule wf_core [OF _ wf2]) simp
  have live: "list_all (alive ?s3) (g_running_list (gpu ?s3 g))"
    using wf_running_live [OF wf3, of g] g1 f2 by (simp add: running_live_def)
  have sw: "calculate_switch_time g ?s3 = calculate_switch_time g s2" by (simp add: calculate_switch_time_def)
  have now: "w_clock (s_world ?s3) (w_clock_n (s_world ?s3) - 1) = ?now" by (simp add: current_time_ms_def)
  have f3: "frame g s ?s3"
    by (rule frame_trans [OF works_frame [OF w1] frame_trans [OF works_frame [OF s2(2)]]]) (simp add: frame_core)
  have w02: "works g s adm s2" using works_trans [OF w1 s2(2)] by simp
  have gr: "grew g (g_running_list (gpu s g)) s ?s3" using works_grew [OF w g w02] by (simp add: grew_def)
  have mq: "mset (all_queued (queues g ?s3)) = mset (all_queued (queues g s))"
  proof -
    have "queues g ?s3 = queues g s2" by (simp add: queues_def)
    then show ?thesis using qsteps_perm [of "queues g s" "queues g s2"] w02 by (simp add: works_def)
  qed
  show ?thesis unfolding timer_prepare_def c bindR_Inr prod.case s2(1)
    using live wf3 f3 sw now gr mq by (auto simp: case_prod_beta Let_def guard_live_def)
qed

end
