(* ===== verification/Strtod.thy ===== *)
theory Strtod
  imports CStd
begin

text \<open>
  \<^verbatim>\<open>strtod\<close> and the conversion of a \<^verbatim>\<open>double\<close> to \<^verbatim>\<open>size_t\<close>, which the sources use to read memory
  sizes. A finite double is a sign, a mantissa of at most 53 bits and a binary exponent; the
  conversion rounds to nearest, ties to even. The exponent is not bounded: values beyond the
  range of a double are out of range for \<^verbatim>\<open>size_t\<close> as well, or truncate to zero.
\<close>

datatype double = NaN | Inf bool | Fin bool nat int

fun bitlen :: "nat \<Rightarrow> nat" where
  "bitlen n = (if n = 0 then 0 else Suc (bitlen (n div 2)))"

declare bitlen.simps [simp del]

definition round_div_even :: "nat \<Rightarrow> nat \<Rightarrow> nat" where
  "round_div_even a b = (let q = a div b; r = a mod b in if 2 * r > b \<or> 2 * r = b \<and> odd q then q + 1 else q)"

text \<open>Numerator and denominator of \<open>a / b / 2 ^ e\<close>.\<close>

definition scaled :: "nat \<Rightarrow> nat \<Rightarrow> int \<Rightarrow> nat \<times> nat" where
  "scaled a b e = (if e \<ge> 0 then (a, b * 2 ^ nat e) else (a * 2 ^ nat (- e), b))"

definition to_double :: "bool \<Rightarrow> nat \<Rightarrow> nat \<Rightarrow> double" where
  "to_double neg a b =
     (if a = 0 then Fin neg 0 0
      else (let e0 = int (bitlen a) - int (bitlen b) - 53;
                e = (case scaled a b e0 of (x, y) \<Rightarrow> if x div y \<ge> 2 ^ 53 then e0 + 1 else e0)
            in case scaled a b e of (x, y) \<Rightarrow> Fin neg (round_div_even x y) e))"

definition ipower :: "nat \<Rightarrow> int \<Rightarrow> nat \<times> nat" where
  "ipower b k = (if k \<ge> 0 then (b ^ nat k, 1) else (1, b ^ nat (- k)))"

text \<open>Digits with an optional point: the digits, how many follow the point, and the rest.\<close>

definition mantissa :: "nat \<Rightarrow> string \<Rightarrow> string \<times> nat \<times> string" where
  "mantissa b s =
     (let ip = takeWhile (\<lambda>c. digit_of c < b) s; r = dropWhile (\<lambda>c. digit_of c < b) s
      in case r of
           c # r' \<Rightarrow> if c = CHR ''.''
                     then (let fp = takeWhile (\<lambda>c. digit_of c < b) r' in
                           (ip @ fp, length fp, dropWhile (\<lambda>c. digit_of c < b) r'))
                     else (ip, 0, r)
         | [] \<Rightarrow> (ip, 0, []))"

text \<open>An optional exponent introduced by \<open>mark\<close> in either case.\<close>

definition exponent_part :: "char \<Rightarrow> string \<Rightarrow> int \<times> string" where
  "exponent_part mark s =
     (case s of
        c # r \<Rightarrow>
          if tolower c = mark
          then (let (neg, r') = strip_sign r; ds = takeWhile (\<lambda>c. digit_of c < 10) r' in
                if ds = [] then (0, s)
                else ((if neg then - int (digits_val 10 ds) else int (digits_val 10 ds)),
                      dropWhile (\<lambda>c. digit_of c < 10) r'))
          else (0, s)
      | [] \<Rightarrow> (0, s))"

definition strtod_number :: "bool \<Rightarrow> nat \<Rightarrow> nat \<Rightarrow> nat \<Rightarrow> char \<Rightarrow> string \<Rightarrow> (double \<times> string) option" where
  "strtod_number neg b frac_base exp_base mark s =
     (let (ds, k, r) = mantissa b s in
      if ds = [] then None
      else (let (e, r') = exponent_part mark r;
                (p, q) = ipower exp_base e
            in Some (to_double neg (digits_val b ds * p) (q * frac_base ^ k), r')))"

text \<open>The result is the value and the rest of the input; the rest is the whole input when there
  is no number.\<close>

definition strtod :: "string \<Rightarrow> double \<times> string" where
  "strtod s =
     (let (neg, t) = strip_sign (dropWhile isspace s); low = map tolower t in
      if is_prefix ''infinity'' low then (Inf neg, drop 8 t)
      else if is_prefix ''inf'' low then (Inf neg, drop 3 t)
      else if is_prefix ''nan'' low then (NaN, drop 3 t)
      else
        (case (if is_prefix ''0x'' low then strtod_number neg 16 16 2 (CHR ''p'') (drop 2 t) else None) of
           Some r \<Rightarrow> r
         | None \<Rightarrow> (case strtod_number neg 10 10 10 (CHR ''e'') t of Some r \<Rightarrow> r | None \<Rightarrow> (Fin False 0 0, s))))"

text \<open>Multiplication by a power of two.\<close>

fun dbl_shift :: "nat \<Rightarrow> double \<Rightarrow> double" where
  "dbl_shift k (Fin neg m e) = Fin neg m (e + int k)"
| "dbl_shift k d = d"

text \<open>The conversion to \<^verbatim>\<open>size_t\<close>; \<open>oob\<close> is the result for values that it cannot represent, which
  the C standard leaves undefined.\<close>

definition size_of_double :: "size_t \<Rightarrow> double \<Rightarrow> size_t" where
  "size_of_double oob d =
     (case d of
        Fin neg m e \<Rightarrow>
          (let v = (if e \<ge> 0 then m * 2 ^ nat e else m div 2 ^ nat (- e)) in
           if v \<ge> 2 ^ 64 \<or> neg \<and> v > 0 then oob else of_nat v)
      | _ \<Rightarrow> oob)"

section \<open>Whole numbers\<close>

lemma bitlen_1 [simp]: "bitlen (Suc 0) = Suc 0"
  by (simp add: bitlen.simps [of "Suc 0"] bitlen.simps [of 0])

lemma bitlen_bounds: "0 < n \<Longrightarrow> 2 ^ (bitlen n - 1) \<le> n \<and> n < 2 ^ bitlen n \<and> 0 < bitlen n"
proof (induction n rule: bitlen.induct)
  case (1 n)
  show ?case
  proof (cases "n div 2 = 0")
    case True
    then have "n = 1" using 1(2) by auto
    then show ?thesis by simp
  next
    case False
    with 1 have IH: "2 ^ (bitlen (n div 2) - 1) \<le> n div 2" "n div 2 < 2 ^ bitlen (n div 2)" "0 < bitlen (n div 2)" by auto
    have b: "bitlen n = Suc (bitlen (n div 2))" using 1(2) by (simp add: bitlen.simps [of n])
    have "(2::nat) ^ bitlen (n div 2) = 2 * 2 ^ (bitlen (n div 2) - 1)"
      using IH(3) by (metis power_eq_if not_gr_zero)
    moreover have "n = 2 * (n div 2) + n mod 2" "n mod 2 < 2" by auto
    ultimately have "2 ^ bitlen (n div 2) \<le> n" "n < 2 * 2 ^ bitlen (n div 2)" using IH by linarith+
    then show ?thesis using b by simp
  qed
qed

lemma bitlen_le: "0 < n \<Longrightarrow> n < 2 ^ k \<Longrightarrow> bitlen n \<le> k"
proof -
  assume n: "0 < n" "n < 2 ^ k"
  have "(2::nat) ^ (bitlen n - 1) < 2 ^ k" using bitlen_bounds [OF n(1)] n(2) by linarith
  then show "bitlen n \<le> k" by simp
qed

lemma round_div_even_1 [simp]: "round_div_even a (Suc 0) = a"
  by (simp add: round_div_even_def)

lemma to_double_whole:
  assumes n: "0 < n" "n < 2 ^ 53"
  shows "to_double neg n 1 = Fin neg (n * 2 ^ (53 - bitlen n)) (int (bitlen n) - 53)"
proof -
  let ?l = "bitlen n"
  have l: "2 ^ (?l - 1) \<le> n" "0 < ?l" "?l \<le> 53" using bitlen_bounds [OF n(1)] bitlen_le [OF n] by auto
  have e0: "scaled n 1 (int ?l - 1 - 53) = (n * 2 ^ (54 - ?l), 1)"
    using l by (simp add: scaled_def nat_diff_distrib')
  have "(2::nat) ^ 53 = 2 ^ (?l - 1) * 2 ^ (54 - ?l)" using l by (simp add: power_add [symmetric])
  also have "\<dots> \<le> n * 2 ^ (54 - ?l)" using l by simp
  finally have big: "(2::nat) ^ 53 \<le> n * 2 ^ (54 - ?l)" .
  have e1: "scaled n 1 (int ?l - 53) = (n * 2 ^ (53 - ?l), 1)"
    using l by (auto simp: scaled_def nat_diff_distrib')
  show ?thesis using n(1) big e0 e1 by (simp add: to_double_def Let_def algebra_simps)
qed

lemma size_of_whole:
  assumes n: "n < 2 ^ 53" "n * 2 ^ k < 2 ^ 64"
  shows "size_of_double oob (dbl_shift k (to_double False n 1)) = of_nat (n * 2 ^ k)"
proof (cases "n = 0")
  case True
  then show ?thesis by (simp add: to_double_def size_of_double_def)
next
  case False
  let ?l = "bitlen n"
  have l: "?l \<le> 53" using bitlen_le [OF _ n(1)] False by simp
  have e: "int ?l - 53 + int k \<ge> 0 \<longleftrightarrow> 53 - ?l \<le> k" using l by auto
  have "(if int ?l - 53 + int k \<ge> 0 then n * 2 ^ (53 - ?l) * 2 ^ nat (int ?l - 53 + int k)
      else n * 2 ^ (53 - ?l) div 2 ^ nat (- (int ?l - 53 + int k))) = n * 2 ^ k"
  proof (cases "53 - ?l \<le> k")
    case True
    have "nat (int ?l - 53 + int k) = k - (53 - ?l)" using l True by auto
    moreover have "(2::nat) ^ (53 - ?l) * 2 ^ (k - (53 - ?l)) = 2 ^ k" using True by (simp add: power_add [symmetric])
    ultimately show ?thesis using True e by (simp add: mult.assoc)
  next
    case False
    have "nat (- (int ?l - 53 + int k)) = 53 - ?l - k" using l False by auto
    moreover have "(2::nat) ^ (53 - ?l) = 2 ^ k * 2 ^ (53 - ?l - k)" using False by (simp add: power_add [symmetric])
    ultimately show ?thesis using False e by (simp add: mult.assoc [symmetric])
  qed
  then have "size_of_double oob (Fin False (n * 2 ^ (53 - ?l)) (int ?l - 53 + int k)) = of_nat (n * 2 ^ k)"
    using n(2) by (simp add: size_of_double_def Let_def)
  then show ?thesis using False n(1) to_double_whole [of n False] by simp
qed

end
