(* ===== verification/K8sApi.thy ===== *)
theory K8sApi
  imports Strtod Common
begin

text \<open>
  The Kubernetes client of the scheduler (src/k8s_api.c): memory sizes, the extraction of a string
  value from a JSON text, the response buffer, the service account token and the request for a
  pod annotation. libcurl is a parameter: the outcome of a transfer is the sequence of chunks
  handed to the write callback and whether the transfer succeeded.
\<close>

section \<open>Memory sizes\<close>

definition parse_memory_size :: "size_t \<Rightarrow> string \<Rightarrow> size_t" where
  "parse_memory_size oob str =
     (if str = [] then 0
      else (let (value, rest) = strtod str in
        if rest = str then 0
        else (let sfx = dropWhile (\<lambda>c. c = CHR '' '') rest in
          if strcasecmp_eq sfx ''Gi'' \<or> strcasecmp_eq sfx ''GiB'' then size_of_double oob (dbl_shift 30 value)
          else if strcasecmp_eq sfx ''Mi'' \<or> strcasecmp_eq sfx ''MiB'' then size_of_double oob (dbl_shift 20 value)
          else if strcasecmp_eq sfx ''Ki'' \<or> strcasecmp_eq sfx ''KiB'' then size_of_double oob (dbl_shift 10 value)
          else if sfx = [] \<or> strcasecmp_eq sfx ''B'' then size_of_double oob value
          else 0)))"

section \<open>JSON strings\<close>

definition quoted :: "string \<Rightarrow> string" where
  "quoted key = CHR 0x22 # key @ [CHR 0x22]"

text \<open>\<open>search\<close> is the quoted key cut to the 127 characters of its buffer.\<close>

definition json_search :: "string \<Rightarrow> string" where
  "json_search key = take 127 (quoted key)"

text \<open>What follows a match that is not escaped.\<close>

definition json_value :: "string \<Rightarrow> string option" where
  "json_value pos =
     (case strchr pos (CHR '':'') of
        None \<Rightarrow> None
      | Some colon \<Rightarrow>
          (case dropWhile (\<lambda>c. c = CHR '' '' \<or> c = CHR 0x09) (tl colon) of
             c # v \<Rightarrow> if c = CHR 0x22 then (if CHR 0x22 \<in> set v then Some (takeWhile (\<lambda>c. c \<noteq> CHR 0x22) v) else None)
                      else None
           | [] \<Rightarrow> None))"

text \<open>The search for the next match that no backslash precedes; \<open>prev\<close> is the character before the
  current position, if there is one.\<close>

fun json_find :: "string \<Rightarrow> char option \<Rightarrow> string \<Rightarrow> string option" where
  "json_find pat prev [] = None"
| "json_find pat prev (c # cs) =
     (if is_prefix pat (c # cs) \<and> prev \<noteq> Some (CHR 0x5C) then json_value (c # cs)
      else json_find pat (Some c) cs)"

definition extract_json_string :: "string \<Rightarrow> string \<Rightarrow> string option" where
  "extract_json_string json key = json_find (json_search key) None json"

section \<open>The request\<close>

text \<open>The response buffer; a chunk for which the allocation fails is refused, which makes the
  transfer fail.\<close>

record curl_buffer =
  cb_data :: "string option"
  cb_size :: nat

definition k8s_curl_write_cb :: "bool \<Rightarrow> string \<Rightarrow> curl_buffer \<Rightarrow> nat \<times> curl_buffer" where
  "k8s_curl_write_cb alloc_ok chunk buf =
     (if \<not> alloc_ok then (0, buf)
      else (length chunk,
            buf\<lparr>cb_data := Some (take (cb_size buf) (case cb_data buf of None \<Rightarrow> [] | Some d \<Rightarrow> d) @ chunk),
                cb_size := cb_size buf + length chunk\<rparr>))"

fun deliver :: "(bool \<times> string) list \<Rightarrow> curl_buffer \<Rightarrow> bool \<times> curl_buffer" where
  "deliver [] buf = (True, buf)"
| "deliver ((ok, chunk) # cs) buf =
     (let (n, buf') = k8s_curl_write_cb ok chunk buf in
      if n = length chunk then deliver cs buf' else (False, buf'))"

text \<open>The token is read once; \<open>file\<close> is the content of the token file, if it can be opened.\<close>

definition read_sa_token :: "string option \<Rightarrow> string option \<Rightarrow> string option \<times> string option" where
  "read_sa_token file loaded =
     (case loaded of
        Some t \<Rightarrow> (Some t, Some t)
      | None \<Rightarrow> (case file of None \<Rightarrow> (None, None) | Some f \<Rightarrow> (let t = take 8191 f in (Some t, Some t))))"

definition pod_url :: "(string \<Rightarrow> string option) \<Rightarrow> string \<Rightarrow> string \<Rightarrow> string" where
  "pod_url getenv ns pod =
     (let (server, port) = (case (getenv ''KUBERNETES_SERVICE_HOST'', getenv ''KUBERNETES_SERVICE_PORT'') of
                              (Some h, Some p) \<Rightarrow> (h, p) | _ \<Rightarrow> (''kubernetes.default.svc'', ''443''))
      in take 511 (''https://'' @ server @ '':'' @ port @ ''/api/v1/namespaces/'' @ ns @ ''/pods/'' @ pod))"

definition auth_header :: "string \<Rightarrow> string" where
  "auth_header token = take 8299 (''Authorization: Bearer '' @ token)"

text \<open>\<open>curl url header\<close> is \<open>None\<close> when no handle can be created, otherwise the chunks of the answer
  and whether the transfer itself succeeded.\<close>

definition k8s_get_pod_annotation ::
  "(string \<Rightarrow> string option) \<Rightarrow> (string \<Rightarrow> string \<Rightarrow> ((bool \<times> string) list \<times> bool) option) \<Rightarrow> string option
   \<Rightarrow> string option \<Rightarrow> string \<Rightarrow> string \<Rightarrow> string \<Rightarrow> string option \<times> string option" where
  "k8s_get_pod_annotation getenv curl file loaded ns pod key =
     (case read_sa_token file loaded of
        (None, l) \<Rightarrow> (None, l)
      | (Some token, l) \<Rightarrow>
          (case curl (pod_url getenv ns pod) (auth_header (cstr (token @ [NUL]))) of
             None \<Rightarrow> (None, l)
           | Some (chunks, ok) \<Rightarrow>
               (let (all_written, buf) = deliver chunks \<lparr>cb_data = None, cb_size = 0\<rparr> in
                if \<not> ok \<or> \<not> all_written then (None, l)
                else (case cb_data buf of
                        None \<Rightarrow> (None, l)
                      | Some d \<Rightarrow> (extract_json_string (cstr (d @ [NUL])) key, l)))))"

section \<open>Lemmas\<close>

lemma dropWhile_digits_append:
  assumes "set ds \<subseteq> {c. \<exists>d < 10. c = digit_char d}" "r = [] \<or> digit_of (hd r) \<ge> 10"
  shows "takeWhile (\<lambda>c. digit_of c < 10) (ds @ r) = ds" "dropWhile (\<lambda>c. digit_of c < 10) (ds @ r) = r"
proof -
  have "\<forall>c \<in> set ds. digit_of c < 10" using assms(1) by (fastforce simp: digit_of_char)
  then show "takeWhile (\<lambda>c. digit_of c < 10) (ds @ r) = ds" "dropWhile (\<lambda>c. digit_of c < 10) (ds @ r) = r"
    using assms(2) by (cases r; simp add: takeWhile_append dropWhile_append)+
qed

lemma digit_char_lower:
  assumes "d < 10"
  shows "tolower (digit_char d) = digit_char d" "digit_char d \<noteq> CHR ''x''" "digit_char d \<noteq> CHR ''i''"
    "digit_char d \<noteq> CHR ''n''" "digit_char d \<noteq> CHR ''.''"
proof -
  have v: "of_char (digit_char d) = 48 + d" using assms by (simp add: digit_char_def of_char_of)
  show "tolower (digit_char d) = digit_char d" using assms v by (simp add: tolower_def Let_def)
  have "of_char (CHR ''x'') = (120::nat)" "of_char (CHR ''i'') = (105::nat)" "of_char (CHR ''n'') = (110::nat)"
    "of_char (CHR ''.'') = (46::nat)" by simp_all
  with v assms show "digit_char d \<noteq> CHR ''x''" "digit_char d \<noteq> CHR ''i''" "digit_char d \<noteq> CHR ''n''"
    "digit_char d \<noteq> CHR ''.''" by auto
qed

text \<open>What may follow a whole number without being read as part of it.\<close>

definition number_end :: "string \<Rightarrow> bool" where
  "number_end sfx \<longleftrightarrow> (case sfx of [] \<Rightarrow> True
     | c # _ \<Rightarrow> digit_of c \<ge> 10 \<and> c \<noteq> CHR ''.'' \<and> tolower c \<noteq> CHR ''e'' \<and> tolower c \<noteq> CHR ''x'')"

lemma strtod_whole:
  assumes "number_end sfx" shows "strtod (show_nat n @ sfx) = (to_double False n 1, sfx)"
proof -
  let ?ds = "show_nat n"
  have ds: "set ?ds \<subseteq> {c. \<exists>d < 10. c = digit_char d}" "?ds \<noteq> []" "digits_val 10 ?ds = n"
    using show_base_digits [of 10 n] by (auto simp: show_nat_def)
  obtain d cs where c: "?ds = digit_char d # cs" "d < 10" using ds(1,2) by (cases ?ds) auto
  have cut: "takeWhile (\<lambda>c. digit_of c < 10) (?ds @ sfx) = ?ds" "dropWhile (\<lambda>c. digit_of c < 10) (?ds @ sfx) = sfx"
    using dropWhile_digits_append [OF ds(1), of sfx] assms by (simp_all add: number_end_def split: list.splits)
  have m: "mantissa 10 (?ds @ sfx) = (?ds, 0, sfx)"
    using assms by (auto simp: mantissa_def cut Let_def number_end_def split: list.splits)
  have e: "exponent_part (CHR ''e'') sfx = (0, sfx)"
    using assms by (auto simp: exponent_part_def number_end_def split: list.splits)
  have num: "strtod_number False 10 10 10 (CHR ''e'') (?ds @ sfx) = Some (to_double False n 1, sfx)"
    by (simp add: strtod_number_def m e ds ipower_def)
  have sp: "dropWhile isspace (?ds @ sfx) = ?ds @ sfx" "strip_sign (?ds @ sfx) = (False, ?ds @ sfx)"
    using c by (simp_all add: strip_sign_def)
  have "\<not> is_prefix ''0x'' (map tolower (?ds @ sfx))"
  proof (cases cs)
    case Nil
    then show ?thesis using assms c by (cases sfx) (auto simp: number_end_def)
  next
    case (Cons c' cs')
    then obtain d' where "c' = digit_char d'" "d' < 10" using ds(1) c by auto
    then show ?thesis using c Cons digit_char_lower [of d'] by auto
  qed
  moreover have "\<not> is_prefix (CHR ''i'' # x) (map tolower (?ds @ sfx))"
    "\<not> is_prefix (CHR ''n'' # x) (map tolower (?ds @ sfx))" for x
    using c digit_char_lower [of d] by auto
  ultimately show ?thesis unfolding strtod_def sp by (simp add: num Let_def del: is_prefix.simps)
qed

text \<open>A whole number of units is read exactly.\<close>

definition unit_shift :: "string \<Rightarrow> nat option" where
  "unit_shift u = (if u \<in> {''Gi'', ''GiB''} then Some 30 else if u \<in> {''Mi'', ''MiB''} then Some 20
     else if u \<in> {''Ki'', ''KiB''} then Some 10 else if u \<in> {[], ''B''} then Some 0 else None)"

lemma unit_cases:
  assumes "unit_shift u = Some k"
  obtains "u = ''Gi'' \<or> u = ''GiB''" "k = 30" | "u = ''Mi'' \<or> u = ''MiB''" "k = 20"
    | "u = ''Ki'' \<or> u = ''KiB''" "k = 10" | "u = [] \<or> u = ''B''" "k = 0"
  using assms by (auto simp: unit_shift_def split: if_splits)

lemma dbl_shift_0 [simp]: "dbl_shift 0 d = d"
  by (cases d) simp_all

lemma tolower_units:
  "tolower (CHR ''G'') = CHR ''g''" "tolower (CHR ''M'') = CHR ''m''" "tolower (CHR ''K'') = CHR ''k''"
  "tolower (CHR ''B'') = CHR ''b''" "tolower (CHR ''i'') = CHR ''i''"
  by code_simp+

lemma unit_end: "unit_shift u = Some k \<Longrightarrow> number_end u"
  by (erule unit_cases) (auto simp: number_end_def digit_of_def tolower_units Let_def)

lemma unit_parse:
  assumes u: "unit_shift u = Some k" and s: "strtod (x # xs) = (value, u)" "u \<noteq> x # xs"
  shows "parse_memory_size oob (x # xs) = size_of_double oob (dbl_shift k value)"
proof -
  have eq: "parse_memory_size oob (x # xs) = (let sfx = dropWhile (\<lambda>c. c = CHR '' '') u in
      if strcasecmp_eq sfx ''Gi'' \<or> strcasecmp_eq sfx ''GiB'' then size_of_double oob (dbl_shift 30 value)
      else if strcasecmp_eq sfx ''Mi'' \<or> strcasecmp_eq sfx ''MiB'' then size_of_double oob (dbl_shift 20 value)
      else if strcasecmp_eq sfx ''Ki'' \<or> strcasecmp_eq sfx ''KiB'' then size_of_double oob (dbl_shift 10 value)
      else if sfx = [] \<or> strcasecmp_eq sfx ''B'' then size_of_double oob value else 0)"
    using s by (simp add: parse_memory_size_def)
  show ?thesis unfolding eq
    by (rule unit_cases [OF u]; elim disjE; simp only:)
      (simp_all add: strcasecmp_eq_def tolower_units)
qed

theorem parse_memory_size_whole:
  assumes u: "unit_shift u = Some k" and n: "n < 2 ^ 53" "n * 2 ^ k < 2 ^ 64"
  shows "parse_memory_size oob (show_nat n @ u) = of_nat (n * 2 ^ k)"
proof -
  have ne: "show_nat n \<noteq> []" using show_base_digits [of 10 n] by (simp add: show_nat_def)
  note st = strtod_whole [OF unit_end [OF u], of n] and sz = size_of_whole [OF n, of oob]
  obtain x xs where x: "show_nat n @ u = x # xs" using ne by (cases "show_nat n") auto
  have "u \<noteq> x # xs" using ne unfolding x [symmetric] by simp
  then show ?thesis unfolding x sz [symmetric] by (rule unit_parse [OF u st [unfolded x]])
qed

section \<open>Extraction\<close>

definition blank :: "char \<Rightarrow> bool" where
  "blank c \<longleftrightarrow> c = CHR '' '' \<or> c = CHR 0x09"

lemma json_value_correct:
  assumes "CHR '':'' \<notin> set mid" "\<forall>c \<in> set sp. blank c" "CHR 0x22 \<notin> set v"
  shows "json_value (mid @ CHR '':'' # sp @ CHR 0x22 # v @ CHR 0x22 # post) = Some v"
proof -
  have "dropWhile (\<lambda>c. c = CHR '' '' \<or> c = CHR 0x09) (sp @ CHR 0x22 # v @ CHR 0x22 # post) = CHR 0x22 # v @ CHR 0x22 # post"
    using assms(2) by (induction sp) (auto simp: blank_def)
  moreover have "takeWhile (\<lambda>c. c \<noteq> CHR 0x22) (v @ CHR 0x22 # post) = v"
    using assms(3) by (induction v) auto
  ultimately show ?thesis using assms(1) by (simp add: json_value_def strchr_append)
qed

text \<open>No unescaped match starts in \<open>pre\<close>.\<close>

fun no_match :: "string \<Rightarrow> char option \<Rightarrow> string \<Rightarrow> string \<Rightarrow> bool" where
  "no_match pat prev [] rest \<longleftrightarrow> True"
| "no_match pat prev (c # cs) rest \<longleftrightarrow>
     \<not> (is_prefix pat (c # cs @ rest) \<and> prev \<noteq> Some (CHR 0x5C)) \<and> no_match pat (Some c) cs rest"

lemma json_find_skip:
  "no_match pat prev pre rest \<Longrightarrow>
   json_find pat prev (pre @ rest) = json_find pat (if pre = [] then prev else Some (last pre)) rest"
  by (induction pre arbitrary: prev) auto

theorem extract_json_correct:
  assumes nm: "no_match (quoted key) None pre (quoted key @ mid @ CHR '':'' # sp @ CHR 0x22 # v @ CHR 0x22 # post)"
    and esc: "pre = [] \<or> last pre \<noteq> CHR 0x5C" and len: "length key \<le> 125"
    and c: "CHR '':'' \<notin> set key" "CHR '':'' \<notin> set mid" "\<forall>c \<in> set sp. blank c" "CHR 0x22 \<notin> set v"
  shows "extract_json_string (pre @ quoted key @ mid @ CHR '':'' # sp @ CHR 0x22 # v @ CHR 0x22 # post) key = Some v"
proof -
  let ?rest = "quoted key @ mid @ CHR '':'' # sp @ CHR 0x22 # v @ CHR 0x22 # post"
  have s: "json_search key = quoted key" using len by (simp add: json_search_def quoted_def)
  have val: "json_value ?rest = Some v"
    using json_value_correct [of "quoted key @ mid" sp v post] c by (simp add: quoted_def)
  obtain q where q: "?rest = CHR 0x22 # q" by (simp add: quoted_def)
  moreover have "is_prefix (quoted key) ?rest" by simp
  ultimately show ?thesis unfolding extract_json_string_def s json_find_skip [OF nm]
    using esc val by (auto simp: q)
qed

text \<open>The response buffer holds the concatenation of the delivered chunks.\<close>

lemma deliver_ok:
  assumes "deliver cs buf = (True, buf')" "cb_size buf = length (case cb_data buf of None \<Rightarrow> [] | Some d \<Rightarrow> d)"
  shows "(case cb_data buf' of None \<Rightarrow> [] | Some d \<Rightarrow> d)
    = (case cb_data buf of None \<Rightarrow> [] | Some d \<Rightarrow> d) @ concat (map snd cs)"
  using assms
proof (induction cs arbitrary: buf)
  case (Cons c cs)
  obtain ok chunk where c: "c = (ok, chunk)" by (cases c)
  show ?case
  proof (cases "ok \<or> chunk = []")
    case True
    let ?d = "case cb_data buf of None \<Rightarrow> [] | Some d \<Rightarrow> d"
    have "\<exists>buf1. k8s_curl_write_cb ok chunk buf = (length chunk, buf1)
      \<and> (case cb_data buf1 of None \<Rightarrow> [] | Some d \<Rightarrow> d) = ?d @ chunk \<and> cb_size buf1 = length (?d @ chunk)"
      using True Cons.prems(2) by (auto simp: k8s_curl_write_cb_def)
    then show ?thesis using Cons c by auto
  next
    case False
    then show ?thesis using Cons.prems(1) c by (simp add: k8s_curl_write_cb_def)
  qed
qed simp

end
