(* ===== verification/SchedMsg.thy ===== *)
theory SchedMsg
  imports SchedTimer K8sApi
begin

text \<open>
  The message handlers and the event loop of the scheduler (src/scheduler.c):
  \<open>get_or_create_gpu_context\<close>, \<open>register_client\<close>, \<open>bcast_status\<close>, \<open>process_msg\<close>, the limit updates,
  one round of the annotation watcher, and the events of \<open>main\<close>. \<open>annot ns pod key\<close> is the outcome
  of \<open>k8s_get_pod_annotation\<close> (theory \<open>K8sApi\<close>), \<open>cred\<close> the peer process of the socket if the
  kernel reports one, \<open>oob\<close> the result of an out-of-range size conversion; \<open>n\<close> is the fuel for the
  scheduling passes.
\<close>

section \<open>Contexts\<close>

definition fresh_ptr :: "nat list \<Rightarrow> nat" where
  "fresh_ptr ps = Suc (fold max ps 0)"

definition new_gpu_context :: "string \<Rightarrow> scheduler_config \<Rightarrow> gpu_context" where
  "new_gpu_context uuid cfg = \<lparr>g_uuid = strlcpy_field NVSHARE_GPU_UUID_LEN uuid, g_requests = [], g_running_list = [],
     g_lock_held = False, g_must_reset_timer = False, g_total_memory = cfg_default_gpu_memory cfg,
     g_available_memory = cfg_default_gpu_memory cfg, g_running_memory_usage = 0, g_peak_memory_usage = 0,
     g_memory_overloaded = False, g_wait_queue = [], g_window_start_ms = 0, g_timer_wake = False,
     g_sched_wake = False\<rparr>"

definition get_or_create_gpu_context :: "string \<Rightarrow> sched_state \<Rightarrow> gptr \<times> sched_state" where
  "get_or_create_gpu_context uuid s =
     (case List.find (\<lambda>g. strncmp_eq (g_uuid (gpu s g)) uuid NVSHARE_GPU_UUID_LEN) (s_contexts s) of
        Some g \<Rightarrow> (g, s)
      | None \<Rightarrow> (let g = fresh_ptr (s_contexts s) in
                 (g, s\<lparr>s_gmem := (s_gmem s)(g := new_gpu_context uuid (s_config s)),
                       s_contexts := s_contexts s @ [g]\<rparr>)))"

section \<open>Limit updates\<close>

definition send_update_limit :: "cptr \<Rightarrow> size_t \<Rightarrow> sched_state \<Rightarrow> (bool \<times> sched_state) res" where
  "send_update_limit p new_limit s =
     send_message p (zero_message\<lparr>m_type := UPDATE_LIMIT, m_id := c_id (client s p), m_memory_limit := new_limit\<rparr>) s"

definition send_update_core_limit :: "cptr \<Rightarrow> int \<Rightarrow> sched_state \<Rightarrow> (bool \<times> sched_state) res" where
  "send_update_core_limit p new_core_limit s =
     send_message p (zero_message\<lparr>m_type := UPDATE_CORE_LIMIT, m_id := c_id (client s p),
                                   m_core_limit := new_core_limit\<rparr>) s"

section \<open>Registration\<close>

text \<open>Identifiers are drawn until one is neither reserved nor in use.\<close>

fun fresh_id :: "nat \<Rightarrow> sched_state \<Rightarrow> (uint64 \<times> sched_state) res" where
  "fresh_id 0 s = Inl OutOfFuel"
| "fresh_id (Suc n) s =
     (let (i, k) = nvshare_generate_id (w_rand (s_world s)) (w_rand_n (s_world s));
          s' = s\<lparr>s_world := (s_world s)\<lparr>w_rand_n := k\<rparr>\<rparr>
      in if i = NVSHARE_UNREGISTERED_ID \<or> list_ex (\<lambda>c. c_id (client s c) = i) (s_clients s)
         then fresh_id n s' else Inr (i, s'))"

definition MEMORY_LIMIT_ANNOTATION :: string where
  "MEMORY_LIMIT_ANNOTATION = ''nvshare.com/gpu-memory-limit''"

definition CORE_LIMIT_ANNOTATION :: string where
  "CORE_LIMIT_ANNOTATION = ''nvshare.com/gpu-core-limit''"

type_synonym annotations = "string \<Rightarrow> string \<Rightarrow> string \<Rightarrow> string option"

definition initial_core_limit :: "string option \<Rightarrow> int" where
  "initial_core_limit a = (case a of None \<Rightarrow> 100 | Some v \<Rightarrow> if 1 \<le> atoi v \<and> atoi v \<le> 100 then atoi v else 100)"

text \<open>The client structure after registration; fields that the function does not set keep what
  \<^verbatim>\<open>malloc\<close> left in them.\<close>

definition registered :: "annotations \<Rightarrow> int option \<Rightarrow> uint64 \<Rightarrow> message \<Rightarrow> gptr \<Rightarrow> nvshare_client \<Rightarrow> nvshare_client" where
  "registered annot cred i m g c =
     (let pod = strlcpy_field POD_NAME_LEN_MAX (m_pod_name m);
          ns = strlcpy_field POD_NAMESPACE_LEN_MAX (m_pod_namespace m)
      in c\<lparr>c_id := i, c_pod_name := pod, c_pod_namespace := ns, c_context := Some g,
           c_host_pid := (case cred of Some pid \<Rightarrow> if pid > 0 then pid else m_host_pid m | None \<Rightarrow> m_host_pid m),
           c_peak_allocated := 0, c_core_limit := initial_core_limit (annot ns pod CORE_LIMIT_ANNOTATION),
           c_run_time_in_window_ms := 0, c_current_run_start_ms := 0, c_is_throttled := False,
           c_pending_drop := False, c_drop_concurrency := 1, c_last_drop_sent_ms := 0, c_quota_debt_ms := 0\<rparr>)"

definition sched_status :: "sched_state \<Rightarrow> message_type" where
  "sched_status s = (if s_on s then SCHED_ON else SCHED_OFF)"

definition clear_out_data :: "sched_state \<Rightarrow> sched_state" where
  "clear_out_data s = s\<lparr>s_out_msg := (s_out_msg s)\<lparr>m_data := []\<rparr>\<rparr>"

definition register_client ::
  "annotations \<Rightarrow> int option \<Rightarrow> size_t \<Rightarrow> nat \<Rightarrow> cptr \<Rightarrow> message \<Rightarrow> sched_state \<Rightarrow> (bool \<times> sched_state) res" where
  "register_client annot cred oob n p m s =
     (if has_registered (client s p) then Inr (False, s)
      else bindR (fresh_id n s) (\<lambda>(i, s1).
        let (g, s2) = get_or_create_gpu_context (m_gpu_uuid m) s1;
            s3 = upd_client p (registered annot cred i m g) s2;
            c = client s3 p;
            s4 = s3\<lparr>s_out_msg := (s_out_msg s3)\<lparr>m_data := hex16 i, m_type := sched_status s3,
                                                  m_core_limit := c_core_limit c\<rparr>\<rparr>
        in bindR (send_message p (s_out_msg s4) s4) (\<lambda>(sent, s5).
             if \<not> sent then Inr (False, clear_out_data s5)
             else (case annot (c_pod_namespace c) (c_pod_name c) MEMORY_LIMIT_ANNOTATION of
                     None \<Rightarrow> Inr (True, clear_out_data s5)
                   | Some v \<Rightarrow>
                       (let new_limit = parse_memory_size oob v in
                        if new_limit > 0
                        then bindR (send_update_limit p new_limit
                                      (upd_client p (\<lambda>c. c\<lparr>c_memory_limit := new_limit\<rparr>) s5))
                               (\<lambda>(_, s6). Inr (True, clear_out_data s6))
                        else Inr (True, clear_out_data s5))))))"

section \<open>Broadcast\<close>

fun successor :: "nat \<Rightarrow> nat list \<Rightarrow> nat option" where
  "successor p (x # y # xs) = (if x = p then Some y else successor p (y # xs))"
| "successor p _ = None"

text \<open>The loop keeps a pointer to the next client while it works on the current one; that pointer
  is dereferenced even if the client has been freed in between.\<close>

fun bcast_loop :: "nat \<Rightarrow> nat \<Rightarrow> cptr option \<Rightarrow> sched_state \<Rightarrow> sched_state res" where
  "bcast_loop n k None s = Inr s"
| "bcast_loop n 0 (Some p) s = Inl OutOfFuel"
| "bcast_loop n (Suc k) (Some p) s =
     bindR (guard_live [p] s) (\<lambda>s.
       let tmp = successor p (s_clients s) in
       if \<not> has_registered (client s p) then bcast_loop n k tmp s
       else (let s1 = set_out_type (sched_status s) s in
             bindR (send_message p (s_out_msg s1) s1) (\<lambda>(sent, s2).
               if sent then bcast_loop n k tmp s2
               else bindR (delete_client (try_schedule n) p s2) (bcast_loop n k tmp))))"

definition bcast_status :: "nat \<Rightarrow> sched_state \<Rightarrow> sched_state res" where
  "bcast_status n s =
     bcast_loop n (length (s_clients s)) (case s_clients s of [] \<Rightarrow> None | p # _ \<Rightarrow> Some p) s"

section \<open>Messages\<close>

definition sched_off_contexts :: "sched_state \<Rightarrow> sched_state" where
  "sched_off_contexts s = fold (\<lambda>g. upd_gpu g (\<lambda>x. x\<lparr>g_requests := [], g_lock_held := False\<rparr>)) (s_contexts s) s"

definition set_tq :: "string \<Rightarrow> sched_state \<Rightarrow> sched_state" where
  "set_tq data s =
     (let r = strtol 0 data in
      if st_rest r \<noteq> data \<and> st_rest r = [] \<and> \<not> st_erange r
      then fold (\<lambda>g. upd_gpu g (\<lambda>x. x\<lparr>g_must_reset_timer := True, g_timer_wake := True\<rparr>)) (s_contexts s)
             (s\<lparr>s_tq := to_int32 (st_val r)\<rparr>)
      else s)"

definition handle_req_lock :: "nat \<Rightarrow> cptr \<Rightarrow> sched_state \<Rightarrow> sched_state res" where
  "handle_req_lock n p s =
     (if has_registered (client s p) then
        (if s_on s then
           (case c_context (client s p) of
              None \<Rightarrow> delete_client (try_schedule n) p s
            | Some g \<Rightarrow> bindR (insert_req p s) (\<lambda>s1.
                if cfg_scheduling_mode (s_config s1) = SCHED_MODE_SERIAL
                then (if g_lock_held (gpu s1 g) then Inr s1 else try_schedule n g s1)
                else try_schedule n g s1))
         else Inr s)
      else delete_client (try_schedule n) p s)"

definition handle_lock_released :: "nat \<Rightarrow> cptr \<Rightarrow> sched_state \<Rightarrow> sched_state res" where
  "handle_lock_released n p s =
     (if has_registered (client s p) then
        (if s_on s then
           (case c_context (client s p) of
              None \<Rightarrow> delete_client (try_schedule n) p s
            | Some g \<Rightarrow> bindR (remove_req (try_schedule n) p s) (\<lambda>s1.
                if g_lock_held (gpu s1 g) then Inr s1 else try_schedule n g s1))
         else Inr s)
      else delete_client (try_schedule n) p s)"

definition set_client_memory :: "size_t \<Rightarrow> nvshare_client \<Rightarrow> nvshare_client" where
  "set_client_memory mem c = c\<lparr>c_memory_allocated := mem,
     c_peak_allocated := (if mem > c_peak_allocated c then mem else c_peak_allocated c)\<rparr>"

definition account_running :: "size_t \<Rightarrow> size_t \<Rightarrow> gpu_context \<Rightarrow> gpu_context" where
  "account_running old_mem mem x =
     (let base = (if g_running_memory_usage x \<ge> old_mem then g_running_memory_usage x - old_mem
                  else g_running_memory_usage x);
          usage = base + mem
      in x\<lparr>g_running_memory_usage := usage,
           g_peak_memory_usage := (if usage > g_peak_memory_usage x then usage else g_peak_memory_usage x)\<rparr>)"

definition handle_mem_update :: "cptr \<Rightarrow> size_t \<Rightarrow> sched_state \<Rightarrow> sched_state res" where
  "handle_mem_update p mem s =
     (case c_context (client s p) of
        None \<Rightarrow> Inr s
      | Some g \<Rightarrow>
          if \<not> has_registered (client s p) then Inr s
          else
            (let old_mem = c_memory_allocated (client s p);
                 s1 = upd_client p (set_client_memory mem) s
             in if \<not> c_is_running (client s1 p) then Inr s1
                else
                  (let s2 = upd_gpu g (account_running old_mem mem) s1;
                       x = gpu s2 g
                   in if \<not> g_memory_overloaded x
                         \<and> g_running_memory_usage x > safe_limit (g_total_memory x) (cfg_memory_reserve_percent (s_config s2))
                      then force_preemption g (upd_gpu g (\<lambda>x. x\<lparr>g_memory_overloaded := True\<rparr>) s2)
                      else Inr s2)))"

definition process_msg ::
  "annotations \<Rightarrow> int option \<Rightarrow> size_t \<Rightarrow> nat \<Rightarrow> cptr \<Rightarrow> message \<Rightarrow> sched_state \<Rightarrow> sched_state res" where
  "process_msg annot cred oob n p m s0 =
     (let s = metrics_inc_msg (msg_code (m_type m)) s0 in
      case m_type m of
        REGISTER \<Rightarrow> bindR (register_client annot cred oob n p m s) (\<lambda>(ok, s1).
          if ok then Inr s1 else delete_client (try_schedule n) p s1)
      | SCHED_ON \<Rightarrow> (if s_on s then Inr s else bcast_status n (s\<lparr>s_on := True\<rparr>))
      | SCHED_OFF \<Rightarrow> (if s_on s then bindR (bcast_status n (s\<lparr>s_on := False\<rparr>)) (\<lambda>s1. Inr (sched_off_contexts s1)) else Inr s)
      | SET_TQ \<Rightarrow> Inr (set_tq (m_data m) s)
      | REQ_LOCK \<Rightarrow> handle_req_lock n p s
      | LOCK_RELEASED \<Rightarrow> handle_lock_released n p s
      | MEM_UPDATE \<Rightarrow> handle_mem_update p (m_memory_usage m) s
      | _ \<Rightarrow> Inr s)"

section \<open>The annotation watcher\<close>

text \<open>The clients to look up are collected under the lock, each is updated under the lock later.\<close>

definition annotation_snapshot :: "sched_state \<Rightarrow> (uint64 \<times> string \<times> string) list" where
  "annotation_snapshot s =
     map (\<lambda>p. (c_id (client s p), strlcpy_field POD_NAME_LEN_MAX (c_pod_name (client s p)),
               strlcpy_field POD_NAMESPACE_LEN_MAX (c_pod_namespace (client s p))))
       (filter (\<lambda>p. c_pod_name (client s p) \<noteq> [] \<and> c_pod_namespace (client s p) \<noteq> []) (s_clients s))"

definition update_memory_limit :: "size_t \<Rightarrow> string option \<Rightarrow> cptr \<Rightarrow> sched_state \<Rightarrow> sched_state res" where
  "update_memory_limit oob v p s =
     (case v of
        None \<Rightarrow> Inr s
      | Some str \<Rightarrow>
          (let new_limit = parse_memory_size oob str in
           if new_limit > 0 \<and> new_limit \<noteq> c_memory_limit (client s p)
           then bindR (send_update_limit p new_limit (upd_client p (\<lambda>c. c\<lparr>c_memory_limit := new_limit\<rparr>) s))
                  (\<lambda>(_, s'). Inr s')
           else Inr s))"

definition update_core_limit :: "string option \<Rightarrow> cptr \<Rightarrow> sched_state \<Rightarrow> sched_state res" where
  "update_core_limit v p s =
     (let new_core_limit = initial_core_limit v in
      if new_core_limit \<noteq> c_core_limit (client s p)
      then bindR (send_update_core_limit p new_core_limit (upd_client p (\<lambda>c. c\<lparr>c_core_limit := new_core_limit\<rparr>) s))
             (\<lambda>(_, s'). Inr (case c_context (client s' p) of
                 Some g \<Rightarrow> if c_is_running (client s' p) then upd_gpu g (\<lambda>x. x\<lparr>g_timer_wake := True\<rparr>) s' else s'
               | None \<Rightarrow> s'))
      else Inr s)"

definition apply_annotations :: "annotations \<Rightarrow> size_t \<Rightarrow> uint64 \<times> string \<times> string \<Rightarrow> sched_state \<Rightarrow> sched_state res" where
  "apply_annotations annot oob info s =
     (case info of (i, pod, ns) \<Rightarrow>
        (case List.find (\<lambda>p. c_id (client s p) = i) (s_clients s) of
           None \<Rightarrow> Inr s
         | Some p \<Rightarrow>
             bindR (update_memory_limit oob (annot ns pod MEMORY_LIMIT_ANNOTATION) p s)
               (update_core_limit (annot ns pod CORE_LIMIT_ANNOTATION) p)))"

section \<open>Events\<close>

text \<open>\<open>receive_message\<close>: the received message, or \<open>None\<close> when the client is given up.\<close>

definition receive_message :: "errno + byte list \<Rightarrow> message option res" where
  "receive_message r =
     (case r of
        Inl e \<Rightarrow> if e = EAGAIN \<or> e = EWOULDBLOCK \<or> e = ECONNRESET \<or> e = EPIPE then Inr None else Inl Exited
      | Inr bs \<Rightarrow> if length bs < 659 then Inr None else Inr (Some (decode_message bs)))"

datatype accept_outcome = Accepted int | AcceptFailed errno

text \<open>A new connection: \<open>q\<close> is the address that \<^verbatim>\<open>malloc\<close> returns, \<open>junk\<close> what it contains.\<close>

datatype event =
    NewConnection accept_outcome cptr nvshare_client bool
  | Readable cptr "errno + byte list"
  | HangUp cptr

definition accept_client :: "int \<Rightarrow> cptr \<Rightarrow> nvshare_client \<Rightarrow> bool \<Rightarrow> sched_state \<Rightarrow> sched_state" where
  "accept_client rsock q junk epoll_ok s =
     (if epoll_ok
      then s\<lparr>s_cmem := (s_cmem s)(q := junk\<lparr>c_fd := rsock, c_id := NVSHARE_UNREGISTERED_ID, c_context := None\<rparr>),
             s_clients := s_clients s @ [q], s_epoll := s_epoll s @ [rsock]\<rparr>
      else s)"

definition drop_connection :: "nat \<Rightarrow> cptr \<Rightarrow> sched_state \<Rightarrow> sched_state res" where
  "drop_connection n p s =
     (let ctx = c_context (client s p) in
      bindR (delete_client (try_schedule n) p s) (\<lambda>s1.
        case ctx of
          Some g \<Rightarrow> if \<not> g_lock_held (gpu s1 g) \<and> s_on s1 then try_schedule n g s1 else Inr s1
        | None \<Rightarrow> Inr s1))"

definition handle_event ::
  "annotations \<Rightarrow> int option \<Rightarrow> size_t \<Rightarrow> nat \<Rightarrow> event \<Rightarrow> sched_state \<Rightarrow> sched_state res" where
  "handle_event annot cred oob n ev s =
     (case ev of
        NewConnection (Accepted rsock) q junk ok \<Rightarrow> Inr (accept_client rsock q junk ok s)
      | NewConnection (AcceptFailed e) q junk ok \<Rightarrow>
          if e = ECONNABORTED \<or> e = EAGAIN \<or> e = EWOULDBLOCK then Inr s else Inl Exited
      | Readable p r \<Rightarrow>
          bindR (guard_live [p] s) (\<lambda>s.
          bindR (receive_message r) (\<lambda>msg.
            case msg of None \<Rightarrow> drop_connection n p s | Some m \<Rightarrow> process_msg annot cred oob n p m s))
      | HangUp p \<Rightarrow> bindR (guard_live [p] s) (drop_connection n p))"

end
