(* ===== verification/SchedSafety.thy ===== *)
theory SchedSafety
  imports SchedMsg
begin

text \<open>
  Safety of the scheduler as a whole: under completing writes and clients that follow the
  protocol, every event of src/scheduler.c is handled to the end without touching freed memory
  and keeps the state well-formed.
\<close>

section \<open>Requests and releases\<close>

lemma has_request_correct:
  assumes inj: "inj_on (\<lambda>p. c_fd (client s p)) (set (s_clients s))" and al: "alive s p" "list_all (alive s) rs"
  shows "has_request s (c_fd (client s p)) rs = Inr (p \<in> set rs)"
  using al(2)
proof (induction rs)
  case (Cons r rs)
  have "c_fd (client s r) = c_fd (client s p) \<longleftrightarrow> r = p"
    using inj al(1) Cons.prems by (auto simp: alive_def inj_on_def)
  with Cons show ?case by auto
qed simp

lemma wf_context: "wf_state s \<Longrightarrow> alive s p \<Longrightarrow> c_context (client s p) = Some g \<Longrightarrow> g \<in> set (s_contexts s)"
  by (auto simp: wf_state_def list_all_iff alive_def)

lemma insert_req_correct:
  assumes w: "wf_state s" and p: "alive s p" "c_context (client s p) = Some g" "p \<notin> set (all_queued (queues g s))"
  defines "s' \<equiv> upd_gpu g (\<lambda>x. x\<lparr>g_requests := g_requests x @ [p]\<rparr>) s"
  shows "insert_req p s = Inr s'" "wf_state s'" "frame g s s'"
proof -
  have g: "g \<in> set (s_contexts s)" by (rule wf_context [OF w p(1,2)])
  have "list_all (alive s) (g_requests (gpu s g))"
    using wf_queued(1) [OF w g] by (auto simp: list_all_iff all_queued_def queues_def)
  moreover have "inj_on (\<lambda>p. c_fd (client s p)) (set (s_clients s))" using w by (simp add: wf_state_def)
  ultimately show "insert_req p s = Inr s'"
    using p has_request_correct [of s p] by (simp add: insert_req_def s'_def all_queued_def queues_def)
  show f: "frame g s s'" by (simp add: s'_def frame_def)
  have "gpu_wf s' g" using wf_gpu [OF w g] p by (auto simp: gpu_wf_queues s'_def queues_def all_queued_def)
  moreover have "bills_ok s'" using w by (simp add: wf_state_def s'_def bills_ok_def)
  ultimately show "wf_state s'" by (rule wf_frame [OF w f])
qed

text \<open>A pass leaves a well-formed state with the same queued clients.\<close>

lemma try_schedule_wf:
  assumes w: "wf_state s" and k: "sends_ok s" and g: "g \<in> set (s_contexts s)" and n: "sched_measure g s < n"
  obtains s' adm where "try_schedule n g s = Inr s'" "works g s adm s'" "wf_state s'" "sends_ok s'"
    "mset (all_queued (queues g s')) = mset (all_queued (queues g s))"
proof -
  obtain adm s' where t: "try_schedule n g s = Inr s'" "works g s adm s'"
    using try_schedule_correct [OF w k g n] by blast
  show thesis using that [OF t works_wf [OF w g t(2)]] works_fields(2) [OF t(2)] k qsteps_perm t(2)
    by (simp add: works_def)
qed

theorem handle_req_lock_correct:
  assumes w: "wf_state s" and k: "sends_ok s" and on: "s_on s" and p: "alive s p" "has_registered (client s p)"
    and g: "c_context (client s p) = Some g" and q: "p \<notin> set (all_queued (queues g s))"
    and n: "sched_measure g s + 2 < n"
  shows "\<exists>s'. handle_req_lock n p s = Inr s' \<and> wf_state s' \<and> sends_ok s' \<and> frame g s s'
    \<and> mset (all_queued (queues g s')) = add_mset p (mset (all_queued (queues g s)))
    \<and> grew g (g_running_list (gpu s g)) s s'"
proof -
  let ?s1 = "upd_gpu g (\<lambda>x. x\<lparr>g_requests := g_requests x @ [p]\<rparr>) s"
  note i = insert_req_correct [OF w p(1) g q]
  note f = frame_simps [OF i(3)]
  have gc: "g \<in> set (s_contexts s)" by (rule wf_context [OF w p(1) g])
  have n1: "sched_measure g ?s1 < n" using n by (simp add: sched_measure_def)
  have m1: "mset (all_queued (queues g ?s1)) = add_mset p (mset (all_queued (queues g s)))"
    by (simp add: all_queued_def queues_def)
  obtain s2 adm where t: "try_schedule n g ?s1 = Inr s2" "works g ?s1 adm s2" "wf_state s2" "sends_ok s2"
    "mset (all_queued (queues g s2)) = mset (all_queued (queues g ?s1))"
    using try_schedule_wf [OF i(2) _ _ n1] k gc f by auto
  have gr: "grew g (g_running_list (gpu s g)) s s2"
    using works_grew [OF i(2) _ t(2)] gc by (simp add: grew_def f)
  have "handle_req_lock n p s = Inr s2 \<or> handle_req_lock n p s = Inr ?s1"
    using p(2) on g i(1) t(1) by (auto simp: handle_req_lock_def)
  then show ?thesis
  proof
    assume "handle_req_lock n p s = Inr s2"
    then show ?thesis using t m1 gr frame_trans [OF i(3) works_frame [OF t(2)]] by simp
  next
    assume "handle_req_lock n p s = Inr ?s1"
    then show ?thesis using i m1 k by (simp add: sends_ok_def grew_none)
  qed
qed

theorem handle_lock_released_correct:
  assumes w: "wf_state s" and k: "sends_ok s" and on: "s_on s" and p: "alive s p" "has_registered (client s p)"
    and g: "c_context (client s p) = Some g" and r: "removable g p s"
    and n: "2 * length (all_queued (queues g s)) + 1 < n"
  shows "\<exists>s'. handle_lock_released n p s = Inr s' \<and> wf_state s' \<and> sends_ok s' \<and> frame g s s'
    \<and> mset (all_queued (queues g s')) = mset (all_queued (queues g s)) - {#p#}
    \<and> grew g (remove1 p (g_running_list (gpu s g))) s s'"
proof -
  have gc: "g \<in> set (s_contexts s)" by (rule wf_context [OF w p(1) g])
  have "sched_measure g s + 1 < n" using n by (simp add: sched_measure_def all_queued_def queues_def)
  then obtain s1 where s1: "remove_req (try_schedule n) p s = Inr s1" "wf_state s1" "frame g s s1"
    "mset (all_queued (queues g s1)) = mset (all_queued (queues g s)) - {#p#}"
    "grew g (remove1 p (g_running_list (gpu s g))) s s1"
    using remove_req_correct [OF w k p(1) g r] by blast
  note f = frame_simps [OF s1(3)]
  have "length (all_queued (queues g s1)) \<le> length (all_queued (queues g s))"
    using arg_cong [OF s1(4), of size] by (simp add: size_Diff_singleton_if)
  then have n1: "sched_measure g s1 < n" using n by (simp add: sched_measure_def all_queued_def queues_def)
  obtain s2 adm where t: "try_schedule n g s1 = Inr s2" "works g s1 adm s2" "wf_state s2" "sends_ok s2"
    "mset (all_queued (queues g s2)) = mset (all_queued (queues g s1))"
    using try_schedule_wf [OF s1(2) _ _ n1] k gc f by auto
  have gr: "grew g (remove1 p (g_running_list (gpu s g))) s s2"
    using gc f by (intro grew_trans [OF s1(5) works_grew [OF s1(2) _ t(2)]]) simp_all
  have "handle_lock_released n p s = Inr s2 \<or> handle_lock_released n p s = Inr s1"
    using p(2) on g s1(1) t(1) by (auto simp: handle_lock_released_def)
  then show ?thesis
  proof
    assume "handle_lock_released n p s = Inr s2"
    then show ?thesis using t s1 gr frame_trans [OF s1(3) works_frame [OF t(2)]] by simp
  next
    assume "handle_lock_released n p s = Inr s1"
    then show ?thesis using s1 f k by simp
  qed
qed

section \<open>Disconnection\<close>

text \<open>What a client may do: ask for the lock when it is in no queue; it may release the lock or
  disconnect unless it waits for an idle context.\<close>

definition may_leave :: "sched_state \<Rightarrow> cptr \<Rightarrow> bool" where
  "may_leave s p \<longleftrightarrow> (case c_context (client s p) of None \<Rightarrow> True | Some g \<Rightarrow> removable g p s)"

definition enough_fuel :: "nat \<Rightarrow> sched_state \<Rightarrow> bool" where
  "enough_fuel n s \<longleftrightarrow> list_all (\<lambda>g. 2 * length (all_queued (queues g s)) + 2 < n) (s_contexts s)"

lemma enough_fuelD:
  assumes "enough_fuel n s" "g \<in> set (s_contexts s)"
  shows "sched_measure g s + 2 < n" "2 * length (all_queued (queues g s)) + 1 < n"
  using assms by (auto simp: enough_fuel_def list_all_iff sched_measure_def all_queued_def queues_def)

lemma delete_client_safe:
  assumes w: "wf_state s" and k: "sends_ok s" and p: "alive s p" and l: "may_leave s p" and n: "enough_fuel n s"
  obtains s' where "delete_client (try_schedule n) p s = Inr s'" "wf_state s'" "sends_ok s'"
    "s_clients s' = remove1 p (s_clients s)" "s_contexts s' = s_contexts s" "s_on s' = s_on s" "s_config s' = s_config s"
    "dequeued p s s'"
    "\<And>q. c_id (client s' q) = c_id (client s q) \<and> c_context (client s' q) = c_context (client s q)
       \<and> c_fd (client s' q) = c_fd (client s q)"
proof -
  have r: "removable g p s \<and> sched_measure g s + 1 < n" if "c_context (client s p) = Some g" for g
    using l that enough_fuelD(1) [OF n wf_context [OF w p that]] by (simp add: may_leave_def)
  show thesis using delete_client_correct [OF w k p r] that by blast
qed

lemma dequeued_pass:
  assumes d: "dequeued p s t" and g: "c_context (client s p) = Some g" and w: "wf_state t" "g \<in> set (s_contexts t)"
    and k: "works g t adm u" "mset (all_queued (queues g u)) = mset (all_queued (queues g t))"
    and f: "\<And>q. c_fd (client t q) = c_fd (client s q)" "s_config t = s_config s"
  shows "dequeued p s u"
proof -
  note e = frame_simps [OF works_frame [OF k(1)]]
  have "grew g (remove1 p (g_running_list (gpu s g))) s u"
    using d g by (intro grew_trans [OF _ works_grew [OF w k(1)] f]) (simp add: dequeued_def)
  then show ?thesis using d g k(2) e(14,17) by (simp add: dequeued_def)
qed

theorem drop_connection_correct:
  assumes w: "wf_state s" and k: "sends_ok s" and p: "alive s p" and l: "may_leave s p" and n: "enough_fuel n s"
  shows "\<exists>s'. drop_connection n p s = Inr s' \<and> wf_state s' \<and> sends_ok s' \<and> s_clients s' = remove1 p (s_clients s)
    \<and> s_contexts s' = s_contexts s \<and> s_config s' = s_config s \<and> dequeued p s s'
    \<and> (\<forall>q. c_id (client s' q) = c_id (client s q) \<and> c_context (client s' q) = c_context (client s q)
         \<and> c_fd (client s' q) = c_fd (client s q))"
proof -
  obtain s1 where s1: "delete_client (try_schedule n) p s = Inr s1" "wf_state s1" "sends_ok s1"
    "s_clients s1 = remove1 p (s_clients s)" "s_contexts s1 = s_contexts s" "s_on s1 = s_on s" "s_config s1 = s_config s"
    and d1: "dequeued p s s1"
    and id1: "\<And>q. c_id (client s1 q) = c_id (client s q) \<and> c_context (client s1 q) = c_context (client s q)
       \<and> c_fd (client s1 q) = c_fd (client s q)"
    using delete_client_safe [OF w k p l n] by metis
  show ?thesis
  proof (cases "c_context (client s p)")
    case None
    then show ?thesis using s1 id1 d1 by (simp add: drop_connection_def Let_def)
  next
    case (Some g)
    have gc: "g \<in> set (s_contexts s)" by (rule wf_context [OF w p Some])
    have "length (all_queued (queues g s1)) \<le> length (all_queued (queues g s))"
      using arg_cong [OF dequeued_queues [OF d1 Some], of size] by (simp add: size_Diff_singleton_if)
    then have "sched_measure g s1 < n"
      using enough_fuelD(2) [OF n gc] by (simp add: sched_measure_def all_queued_def queues_def)
    then obtain s2 adm where t: "try_schedule n g s1 = Inr s2" "works g s1 adm s2" "wf_state s2" "sends_ok s2"
      "mset (all_queued (queues g s2)) = mset (all_queued (queues g s1))"
      using try_schedule_wf [OF s1(2,3)] gc s1(5) by metis
    note f2 = frame_simps [OF works_frame [OF t(2)]]
    have "dequeued p s s2" using dequeued_pass [OF d1 Some s1(2) _ t(2,5)] gc s1(5,7) id1 by simp
    then show ?thesis using s1 t Some id1 f2 d1 by (simp add: drop_connection_def Let_def)
  qed
qed

section \<open>Handlers that leave the queues alone\<close>

definition ident :: "sched_state \<Rightarrow> sched_state \<Rightarrow> bool" where
  "ident s s' \<longleftrightarrow> s_config s' = s_config s \<and> s_clients s' = s_clients s \<and> s_contexts s' = s_contexts s
     \<and> s_epoll s' = s_epoll s \<and> w_write (s_world s') = w_write (s_world s)
     \<and> w_stale_fd (s_world s') = w_stale_fd (s_world s)
     \<and> (\<forall>p. c_fd (client s' p) = c_fd (client s p) \<and> c_id (client s' p) = c_id (client s p)
          \<and> c_context (client s' p) = c_context (client s p))
     \<and> (\<forall>g. queues g s' = queues g s \<and> g_lock_held (gpu s' g) = g_lock_held (gpu s g)
          \<and> g_uuid (gpu s' g) = g_uuid (gpu s g))
     \<and> (bills_ok s \<longrightarrow> bills_ok s') \<and> grants s' = grants s"

lemma ident_refl [simp]: "ident s s"
  by (simp add: ident_def)

lemma ident_trans: "ident s t \<Longrightarrow> ident t u \<Longrightarrow> ident s u"
  by (simp add: ident_def)

lemma ident_core: "core_eq s s' \<Longrightarrow> grants s' = grants s \<Longrightarrow> ident s s'"
  by (simp add: ident_def core_eq_simps bills_core) (simp add: core_eq_def queues_def)

lemma ident_fields:
  assumes "ident s s'"
  shows "alive s' p = alive s p" "sends_ok s' = sends_ok s" "s_clients s' = s_clients s"
    "s_contexts s' = s_contexts s" "c_context (client s' p) = c_context (client s p)" "queues g s' = queues g s"
  using assms by (simp_all add: ident_def alive_def sends_ok_def)

lemma wf_ident: assumes w: "wf_state s" and i: "ident s s'" shows "wf_state s'"
proof -
  have "gpu_wf s' g = gpu_wf s g" for g
    using i by (simp add: gpu_wf_queues ident_def alive_def)
  then have "list_all (gpu_wf s') (s_contexts s)" using w by (simp add: wf_state_def list_all_iff)
  then show ?thesis using w i unfolding wf_state_def ident_def by simp
qed

lemma ident_upd_client:
  assumes "\<And>c. c_fd (f c) = c_fd c" "\<And>c. c_id (f c) = c_id c" "\<And>c. c_context (f c) = c_context c"
    and "\<And>c. c_run_time_in_window_ms (f c) = c_run_time_in_window_ms c"
    and "\<And>c. 1 \<le> c_core_limit c \<and> c_core_limit c \<le> 100 \<Longrightarrow> 1 \<le> c_core_limit (f c) \<and> c_core_limit (f c) \<le> 100"
  shows "ident s (upd_client p f s)"
  using assms by (auto simp: ident_def queues_def bills_ok_def list_all_iff)

lemma ident_upd_gpu:
  assumes "\<And>x. g_requests (f x) = g_requests x" "\<And>x. g_wait_queue (f x) = g_wait_queue x"
    and "\<And>x. g_running_list (f x) = g_running_list x" "\<And>x. g_lock_held (f x) = g_lock_held x"
    and "\<And>x. g_uuid (f x) = g_uuid x"
  shows "ident s (upd_gpu g f s)"
  using assms by (auto simp: ident_def queues_def bills_ok_def list_all_iff)

lemma ident_send:
  assumes "sends_ok s" "alive s p" "m_type m \<noteq> LOCK_OK"
  obtains s' where "send_message p m s = Inr (True, s')" "ident s s'" "core_eq s s'"
  using that [OF send_message_ok [OF assms(1,2)] ident_core core_eq_send(1)] assms(3) by simp

lemma ident_limit_sends:
  assumes "sends_ok s" "alive s p"
  shows "\<exists>s'. send_update_limit p l s = Inr (True, s') \<and> ident s s'"
    "\<exists>s'. send_update_core_limit p c s = Inr (True, s') \<and> ident s s'"
  unfolding send_update_limit_def send_update_core_limit_def
  using send_message_ok [OF assms] by (auto intro!: ident_core)

lemma preempt_loop_correct:
  assumes "sends_ok s" "\<forall>p \<in> set ps. alive s p" "m_type m \<noteq> LOCK_OK"
  shows "\<exists>s'. preempt_loop m ps s = Inr s' \<and> ident s s'
    \<and> w_sent (s_world s') = rev (map (\<lambda>p. (c_fd (client s p), m)) ps) @ w_sent (s_world s)"
  using assms
proof (induction ps arbitrary: s)
  case (Cons p ps)
  let ?s1 = "sent_to p m s"
  let ?s2 = "snd (current_time_ms ?s1)" and ?now = "fst (current_time_ms ?s1)"
  let ?s3 = "metrics_inc_drop_lock (upd_client p (\<lambda>c. c\<lparr>c_last_drop_sent_ms := ?now\<rparr>) ?s2)"
  have "ident s ?s2"
    using core_eq_trans [OF core_eq_send(1) core_eq_current_time] Cons.prems(3) by (intro ident_core) simp_all
  moreover have "ident ?s2 (upd_client p (\<lambda>c. c\<lparr>c_last_drop_sent_ms := ?now\<rparr>) ?s2)" by (rule ident_upd_client) auto
  ultimately have i: "ident s ?s3" by (elim ident_trans) (simp add: ident_core)
  note f = ident_fields [OF i]
  obtain s' where s': "preempt_loop m ps ?s3 = Inr s'" "ident ?s3 s'"
    "w_sent (s_world s') = rev (map (\<lambda>p. (c_fd (client ?s3 p), m)) ps) @ w_sent (s_world ?s3)"
    using Cons.IH [of ?s3] Cons.prems f by auto
  have "c_fd (client ?s3 q) = c_fd (client s q)" for q using i by (simp add: ident_def)
  moreover have "w_sent (s_world ?s3) = (c_fd (client s p), m) # w_sent (s_world s)"
    by (simp add: sent_to_def current_time_ms_def)
  moreover have "preempt_loop m (p # ps) s = Inr s'"
    using Cons.prems s'(1) by (simp add: send_message_ok case_prod_beta Let_def)
  ultimately show ?case using ident_trans [OF i s'(2)] s'(3) by simp
qed simp

lemma handle_mem_update_ident:
  assumes w: "wf_state s" and k: "sends_ok s" and p: "alive s p"
  shows "\<exists>s'. handle_mem_update p mem s = Inr s' \<and> ident s s'"
proof (cases "c_context (client s p)")
  case None
  then show ?thesis by (simp add: handle_mem_update_def)
next
  case (Some g)
  let ?s1 = "upd_client p (set_client_memory mem) s"
  let ?s2 = "upd_gpu g (account_running (c_memory_allocated (client s p)) mem) ?s1"
  let ?s3 = "upd_gpu g (\<lambda>x. x\<lparr>g_memory_overloaded := True\<rparr>) ?s2"
  have i1: "ident s ?s1" by (rule ident_upd_client) (auto simp: set_client_memory_def)
  have i2: "ident s ?s2" by (rule ident_trans [OF i1], rule ident_upd_gpu) (auto simp: account_running_def Let_def)
  have i3: "ident s ?s3" by (rule ident_trans [OF i2], rule ident_upd_gpu) auto
  have g: "g \<in> set (s_contexts s)" by (rule wf_context [OF w p Some])
  have q: "queues g ?s3 = queues g s" by (rule ident_fields(6) [OF i3])
  have "\<forall>r \<in> set (g_running_list (gpu ?s3 g)). alive ?s3 r"
    using wf_queued(1) [OF w g] q by (auto simp: queues_def all_queued_def)
  then obtain s' where s': "force_preemption g ?s3 = Inr s'" "ident ?s3 s'"
    using preempt_loop_correct [of ?s3 "g_running_list (gpu ?s3 g)" "zero_message\<lparr>m_type := DROP_LOCK\<rparr>"] k ident_fields(2) [OF i3]
    unfolding force_preemption_def by auto
  have "handle_mem_update p mem s \<in> {Inr s, Inr ?s1, Inr ?s2, Inr s'}"
    using Some s'(1) by (simp add: handle_mem_update_def Let_def)
  then show ?thesis using i1 i2 ident_trans [OF i3 s'(2)] by auto
qed

lemma fold_upd_gpu_ident:
  assumes "\<And>x. g_requests (f x) = g_requests x" "\<And>x. g_wait_queue (f x) = g_wait_queue x"
    and "\<And>x. g_running_list (f x) = g_running_list x" "\<And>x. g_lock_held (f x) = g_lock_held x"
    and "\<And>x. g_uuid (f x) = g_uuid x"
  shows "ident s (fold (\<lambda>g. upd_gpu g f) gs s)"
proof (induction gs arbitrary: s)
  case (Cons g gs)
  have "ident s (upd_gpu g f s)" by (rule ident_upd_gpu) (simp_all add: assms)
  then show ?case using Cons.IH ident_trans by fastforce
qed simp

lemma set_tq_ident: "ident s (set_tq data s)"
proof -
  have "ident s (s\<lparr>s_tq := x\<rparr>)" for x by (simp add: ident_def queues_def bills_ok_def grants_def)
  then have "ident s (fold (\<lambda>g. upd_gpu g (\<lambda>x. x\<lparr>g_must_reset_timer := True, g_timer_wake := True\<rparr>)) gs (s\<lparr>s_tq := x\<rparr>))" for x gs
    by (rule ident_trans) (rule fold_upd_gpu_ident; simp)
  then show ?thesis by (simp add: set_tq_def Let_def)
qed

section \<open>Broadcast\<close>

text \<open>The types of the messages written, last one first.\<close>

definition sent_log :: "sched_state \<Rightarrow> (int \<times> message_type) list" where
  "sent_log s = map (\<lambda>(fd, m). (fd, m_type m)) (w_sent (s_world s))"

lemma successor_mid: "distinct (pre @ p # q # ps) \<Longrightarrow> successor p (pre @ p # q # ps) = Some q"
proof (induction pre)
  case (Cons x pre)
  then show ?case by (cases pre) auto
qed simp

lemma successor_last: "distinct (pre @ [p]) \<Longrightarrow> successor p (pre @ [p]) = None"
proof (induction pre)
  case (Cons x pre)
  then show ?case by (cases pre) auto
qed simp

lemma bcast_loop_correct:
  assumes "sends_ok s" "distinct (s_clients s)" "s_clients s = pre @ ps" "length ps \<le> k"
  shows "\<exists>s'. bcast_loop n k (case ps of [] \<Rightarrow> None | p # _ \<Rightarrow> Some p) s = Inr s' \<and> core_eq s s'
    \<and> sent_log s' = rev (map (\<lambda>p. (c_fd (client s p), sched_status s))
         (filter (\<lambda>p. has_registered (client s p)) ps)) @ sent_log s"
  using assms
proof (induction ps arbitrary: pre k s)
  case (Cons p ps)
  obtain k' where k: "k = Suc k'" "length ps \<le> k'" using Cons.prems(4) by (cases k) auto
  have al: "alive s p" using Cons.prems(3) by (simp add: alive_def)
  let ?tmp = "case ps of [] \<Rightarrow> None | p # _ \<Rightarrow> Some p"
  have tmp: "successor p (s_clients s) = ?tmp"
    using successor_mid successor_last Cons.prems(2,3) by (auto split: list.split)
  let ?s2 = "if has_registered (client s p)
    then sent_to p ((s_out_msg s)\<lparr>m_type := sched_status s\<rparr>) (set_out_type (sched_status s) s) else s"
  have c: "core_eq s ?s2" using core_eq_trans core_eq_send core_eq_refl by (metis (full_types))
  note e = core_eq_simps [OF c]
  have step: "bcast_loop n k (Some p) s = bcast_loop n k' ?tmp ?s2"
    using al Cons.prems(1) core_eq_simps [OF core_eq_send(2) [of s "sched_status s"]]
    by (simp add: k guard_live_def tmp send_message_ok Let_def)
  obtain s' where s': "bcast_loop n k' ?tmp ?s2 = Inr s'" "core_eq ?s2 s'"
    "sent_log s' = rev (map (\<lambda>p. (c_fd (client ?s2 p), sched_status ?s2))
       (filter (\<lambda>p. has_registered (client ?s2 p)) ps)) @ sent_log ?s2"
    using Cons.IH [of ?s2 "pre @ [p]" k'] Cons.prems k(2) unfolding e by auto
  have st: "sched_status ?s2 = sched_status s" using e(2) by (simp add: sched_status_def)
  have "sent_log ?s2 = (if has_registered (client s p) then [(c_fd (client s p), sched_status s)] else []) @ sent_log s"
    by (simp add: sent_log_def sent_to_def)
  then show ?case using s' step core_eq_trans [OF c s'(2)] unfolding e st by auto
qed simp

lemma bcast_status_correct:
  assumes "sends_ok s" "distinct (s_clients s)"
  obtains s' where "bcast_status n s = Inr s'" "core_eq s s'"
    "sent_log s' = rev (map (\<lambda>p. (c_fd (client s p), sched_status s))
       (filter (\<lambda>p. has_registered (client s p)) (s_clients s))) @ sent_log s"
  using bcast_loop_correct [OF assms, of "[]" "s_clients s" "length (s_clients s)" n]
  by (auto simp: bcast_status_def)

section \<open>Connections and registration\<close>

lemma fresh_ptr_notin: "fresh_ptr ps \<notin> set ps"
proof -
  have "p \<le> fold max ps m \<and> m \<le> fold max ps m" if "p \<in> insert m (set ps)" for p m
    using that
  proof (induction ps arbitrary: m p)
    case (Cons x ps)
    have "max x m \<le> fold max ps (max x m)" using Cons.IH [of "max x m" "max x m"] by simp
    moreover have "p \<le> fold max ps (max x m)" if "p \<in> set ps" using Cons.IH [of p "max x m"] that by simp
    ultimately show ?case using Cons.prems by auto
  qed simp
  then show ?thesis by (fastforce simp: fresh_ptr_def)
qed

text \<open>Registered clients have a context and distinct identifiers.\<close>

definition ids_ok :: "sched_state \<Rightarrow> bool" where
  "ids_ok s \<longleftrightarrow> list_all (\<lambda>p. has_registered (client s p) \<longleftrightarrow> c_context (client s p) \<noteq> None) (s_clients s)
     \<and> distinct (map (\<lambda>p. c_id (client s p)) (filter (\<lambda>p. has_registered (client s p)) (s_clients s)))"

lemma fresh_id_correct:
  "fresh_id n s = Inr (i, s') \<Longrightarrow>
   i \<noteq> NVSHARE_UNREGISTERED_ID \<and> i \<notin> (\<lambda>p. c_id (client s p)) ` set (s_clients s) \<and> core_eq s s'"
proof (induction n arbitrary: s)
  case (Suc n)
  obtain j k where g: "nvshare_generate_id (w_rand (s_world s)) (w_rand_n (s_world s)) = (j, k)" by fastforce
  let ?t = "s\<lparr>s_world := (s_world s)\<lparr>w_rand_n := k\<rparr>\<rparr>"
  have c: "core_eq s ?t" by (simp add: core_eq_def)
  show ?case
  proof (cases "j = NVSHARE_UNREGISTERED_ID \<or> list_ex (\<lambda>c. c_id (client s c) = j) (s_clients s)")
    case True
    then have "fresh_id n ?t = Inr (i, s')" using Suc.prems g by simp
    from Suc.IH [OF this] core_eq_trans [OF c] show ?thesis by simp
  next
    case False
    then show ?thesis using Suc.prems g c by (auto simp: list_ex_iff)
  qed
qed simp

lemma fresh_id_world:
  "fresh_id n s = Inr (i, s1) \<Longrightarrow> \<exists>k. s1 = s\<lparr>s_world := (s_world s)\<lparr>w_rand_n := k\<rparr>\<rparr>"
proof (induction n arbitrary: s)
  case (Suc n)
  obtain j k where g: "nvshare_generate_id (w_rand (s_world s)) (w_rand_n (s_world s)) = (j, k)" by fastforce
  show ?case
  proof (cases "j = NVSHARE_UNREGISTERED_ID \<or> list_ex (\<lambda>c. c_id (client s c) = j) (s_clients s)")
    case True
    then have "fresh_id n (s\<lparr>s_world := (s_world s)\<lparr>w_rand_n := k\<rparr>\<rparr>) = Inr (i, s1)" using Suc.prems g by simp
    from Suc.IH [OF this] show ?thesis by auto
  next
    case False
    then show ?thesis using Suc.prems g by auto
  qed
qed simp

lemma accept_client_wf:
  assumes w: "wf_state s" and q: "\<not> alive s q" and fd: "rsock \<notin> set (s_epoll s)" "rsock \<noteq> w_stale_fd (s_world s)"
  shows "wf_state (accept_client rsock q junk ok s)"
proof (cases ok)
  case True
  let ?t = "accept_client rsock q junk ok s"
  have cl: "s_clients ?t = s_clients s @ [q]" "s_epoll ?t = s_epoll s @ [rsock]" "s_contexts ?t = s_contexts s"
    "s_config ?t = s_config s" "s_world ?t = s_world s" "\<And>g. gpu ?t g = gpu s g"
    "\<And>p. p \<noteq> q \<Longrightarrow> client ?t p = client s p" "c_fd (client ?t q) = rsock" "c_context (client ?t q) = None"
    using True by (simp_all add: accept_client_def)
  have nq: "p \<noteq> q" if "p \<in> set (s_clients s)" for p using q that by (auto simp: alive_def)
  have fds: "c_fd (client s p) \<in> set (s_epoll s)" if "p \<in> set (s_clients s)" for p
    using w that by (simp add: wf_state_def list_all_iff)
  have "gpu_wf ?t g" if g: "g \<in> set (s_contexts s)" for g
  proof -
    have qs: "queues g ?t = queues g s" by (simp add: queues_def cl)
    have "alive ?t p \<and> c_context (client ?t p) = Some g" if "p \<in> set (all_queued (queues g s))" for p
      using wf_queued [OF w g that] nq [of p] cl(7) [of p] by (simp add: alive_def cl(1))
    then show ?thesis using wf_gpu [OF w g] unfolding gpu_wf_queues qs cl(6) by simp
  qed
  moreover have "bills_ok ?t" using w nq by (auto simp: wf_state_def bills_ok_def list_all_iff cl)
  moreover have "inj_on (\<lambda>p. c_fd (client ?t p)) (set (s_clients ?t))"
    using w nq fds fd(1) by (fastforce simp: wf_state_def inj_on_def cl)
  ultimately show ?thesis using w nq fds fd unfolding wf_state_def
    by (auto simp: list_all_iff cl)
qed (use w in \<open>simp add: accept_client_def\<close>)

lemma get_or_create_wf:
  assumes w: "wf_state s" and c: "get_or_create_gpu_context uuid s = (g, t)"
  shows "wf_state t" "g \<in> set (s_contexts t)" "s_clients t = s_clients s" "s_cmem t = s_cmem s"
    "s_epoll t = s_epoll s" "s_world t = s_world s" "s_config t = s_config s" "s_on t = s_on s"
    "s_out_msg t = s_out_msg s" "\<And>h. h \<in> set (s_contexts s) \<Longrightarrow> gpu t h = gpu s h"
    "str_fits NVSHARE_GPU_UUID_LEN uuid \<Longrightarrow> strncmp_eq (g_uuid (gpu t g)) uuid NVSHARE_GPU_UUID_LEN"
proof -
  let ?same = "\<lambda>g. strncmp_eq (g_uuid (gpu s g)) uuid NVSHARE_GPU_UUID_LEN"
  have "wf_state t \<and> g \<in> set (s_contexts t) \<and> s_clients t = s_clients s \<and> s_cmem t = s_cmem s \<and> s_epoll t = s_epoll s
    \<and> s_world t = s_world s \<and> s_config t = s_config s \<and> s_on t = s_on s \<and> s_out_msg t = s_out_msg s
    \<and> (\<forall>h \<in> set (s_contexts s). gpu t h = gpu s h)
    \<and> (str_fits NVSHARE_GPU_UUID_LEN uuid \<longrightarrow> strncmp_eq (g_uuid (gpu t g)) uuid NVSHARE_GPU_UUID_LEN)"
  proof (cases "List.find ?same (s_contexts s)")
    case (Some h)
    have "g = h" "t = s" using c Some by (simp_all add: get_or_create_gpu_context_def)
    moreover have "h \<in> set (s_contexts s)" "?same h" using Some by (auto simp: find_Some_iff)
    ultimately show ?thesis using w by simp
  next
    case None
    let ?g = "fresh_ptr (s_contexts s)"
    let ?t = "s\<lparr>s_gmem := (s_gmem s)(?g := new_gpu_context uuid (s_config s)), s_contexts := s_contexts s @ [?g]\<rparr>"
    have t: "g = ?g" "t = ?t" using c None by (auto simp: get_or_create_gpu_context_def Let_def)
    have n: "?g \<notin> set (s_contexts s)" by (rule fresh_ptr_notin)
    have "gpu_wf ?t h" if "h \<in> set (s_contexts s)" for h
    proof -
      have "gpu ?t h = gpu s h" using that n by auto
      then show ?thesis using wf_gpu [OF w that] by (simp add: gpu_wf_def alive_def)
    qed
    moreover have "gpu_wf ?t ?g" by (simp add: gpu_wf_def new_gpu_context_def)
    moreover have "bills_ok ?t" using w by (simp add: wf_state_def bills_ok_def)
    ultimately have "wf_state ?t" using w n unfolding wf_state_def by (auto simp: list_all_iff)
    moreover have "strncmp_eq (g_uuid (gpu ?t ?g)) uuid NVSHARE_GPU_UUID_LEN" if "str_fits NVSHARE_GPU_UUID_LEN uuid"
      using that by (simp add: new_gpu_context_def strncmp_eq_def str_fits_def strlcpy_field_id)
    ultimately show ?thesis using t n by auto
  qed
  then show "wf_state t" "g \<in> set (s_contexts t)" "s_clients t = s_clients s" "s_cmem t = s_cmem s"
    "s_epoll t = s_epoll s" "s_world t = s_world s" "s_config t = s_config s" "s_on t = s_on s"
    "s_out_msg t = s_out_msg s" "\<And>h. h \<in> set (s_contexts s) \<Longrightarrow> gpu t h = gpu s h"
    "str_fits NVSHARE_GPU_UUID_LEN uuid \<Longrightarrow> strncmp_eq (g_uuid (gpu t g)) uuid NVSHARE_GPU_UUID_LEN"
    by blast+
qed

text \<open>No two contexts stand for the same GPU.\<close>

definition uuids_ok :: "sched_state \<Rightarrow> bool" where
  "uuids_ok s \<longleftrightarrow> inj_on (\<lambda>g. take NVSHARE_GPU_UUID_LEN (g_uuid (gpu s g))) (set (s_contexts s))"

lemma get_or_create_contexts:
  assumes c: "get_or_create_gpu_context uuid s = (g, t)" and u: "str_fits NVSHARE_GPU_UUID_LEN uuid"
  shows "set (s_contexts s) \<subseteq> set (s_contexts t)" "grants t = grants s"
    "\<And>h. h \<in> set (s_contexts t) \<Longrightarrow> h \<notin> set (s_contexts s) \<Longrightarrow> queues h t = ([], [], [])"
    "uuids_ok s \<Longrightarrow> uuids_ok t"
proof -
  let ?same = "\<lambda>g. strncmp_eq (g_uuid (gpu s g)) uuid NVSHARE_GPU_UUID_LEN"
  have "set (s_contexts s) \<subseteq> set (s_contexts t) \<and> grants t = grants s
    \<and> (\<forall>h. h \<in> set (s_contexts t) \<longrightarrow> h \<notin> set (s_contexts s) \<longrightarrow> queues h t = ([], [], []))
    \<and> (uuids_ok s \<longrightarrow> uuids_ok t)"
  proof (cases "List.find ?same (s_contexts s)")
    case (Some h)
    then show ?thesis using c by (auto simp: get_or_create_gpu_context_def)
  next
    case None
    let ?g = "fresh_ptr (s_contexts s)"
    have t: "t = s\<lparr>s_gmem := (s_gmem s)(?g := new_gpu_context uuid (s_config s)), s_contexts := s_contexts s @ [?g]\<rparr>"
      using c None by (auto simp: get_or_create_gpu_context_def Let_def)
    have n: "?g \<notin> set (s_contexts s)" by (rule fresh_ptr_notin)
    have "take NVSHARE_GPU_UUID_LEN (g_uuid (gpu s h)) \<noteq> take NVSHARE_GPU_UUID_LEN (strlcpy_field NVSHARE_GPU_UUID_LEN uuid)"
      if "h \<in> set (s_contexts s)" for h
      using None u that by (auto simp: find_None_iff strncmp_eq_def str_fits_def strlcpy_field_id)
    then have "uuids_ok t" if "uuids_ok s"
      using that n by (fastforce simp: uuids_ok_def t inj_on_def new_gpu_context_def)
    then show ?thesis by (auto simp: t grants_def queues_def new_gpu_context_def)
  qed
  then show "set (s_contexts s) \<subseteq> set (s_contexts t)" "grants t = grants s"
    "\<And>h. h \<in> set (s_contexts t) \<Longrightarrow> h \<notin> set (s_contexts s) \<Longrightarrow> queues h t = ([], [], [])"
    "uuids_ok s \<Longrightarrow> uuids_ok t" by blast+
qed

lemma initial_core_limit_range: "1 \<le> initial_core_limit a \<and> initial_core_limit a \<le> 100"
  by (simp add: initial_core_limit_def split: option.split)

lemma registered_wf:
  assumes w: "wf_state s" and p: "alive s p" "c_context (client s p) = None" and g: "g \<in> set (s_contexts s)"
  shows "wf_state (upd_client p (registered annot cred i m g) s)" (is "wf_state ?t")
proof -
  have fd: "c_fd (client ?t q) = c_fd (client s q)" for q by (simp add: registered_def Let_def)
  have al: "alive ?t q = alive s q" for q by simp
  have "gpu_wf ?t h" if h: "h \<in> set (s_contexts s)" for h
  proof -
    have "p \<notin> set (all_queued (queues h s))" using wf_queued(2) [OF w h] p(2) by auto
    then show ?thesis using wf_gpu [OF w h] by (auto simp: gpu_wf_queues queues_def)
  qed
  moreover have "bills_ok ?t"
    using w initial_core_limit_range by (auto simp: wf_state_def bills_ok_def list_all_iff registered_def Let_def)
  moreover have "c_context (client ?t q) \<in> insert None (Some ` set (s_contexts s))" if "q \<in> set (s_clients s)" for q
    using w g that by (auto simp: wf_state_def list_all_iff registered_def Let_def)
  moreover have "inj_on (\<lambda>p. c_fd (client ?t p)) (set (s_clients s))" using w unfolding fd by (simp add: wf_state_def)
  ultimately show ?thesis using w unfolding wf_state_def list_all_iff fd by simp
qed

lemma registered_ids:
  assumes d: "ids_ok s" and dist: "distinct (s_clients s)" and p: "alive s p" "\<not> has_registered (client s p)"
    and i: "i \<noteq> NVSHARE_UNREGISTERED_ID" "i \<notin> (\<lambda>p. c_id (client s p)) ` set (s_clients s)"
  shows "ids_ok (upd_client p (registered annot cred i m g) s)" (is "ids_ok ?t")
proof -
  have cl: "client ?t q = (if q = p then registered annot cred i m g (client s p) else client s q)" for q by simp
  have r: "has_registered (client ?t p)" "c_id (client ?t p) = i" "c_context (client ?t p) = Some g"
    using i(1) by (simp_all add: has_registered_def registered_def Let_def)
  have "inj_on (\<lambda>q. c_id (client ?t q)) {q \<in> set (s_clients s). has_registered (client ?t q)}"
  proof (rule inj_onI)
    fix x y assume x: "x \<in> {q \<in> set (s_clients s). has_registered (client ?t q)}"
      and y: "y \<in> {q \<in> set (s_clients s). has_registered (client ?t q)}" and eq: "c_id (client ?t x) = c_id (client ?t y)"
    have inj: "inj_on (\<lambda>q. c_id (client s q)) {q \<in> set (s_clients s). has_registered (client s q)}"
      using d by (simp add: ids_ok_def distinct_map)
    show "x = y" using x y eq i(2) r(2) inj_onD [OF inj, of x y] by (cases "x = p"; cases "y = p"; force simp: cl)
  qed
  then have "distinct (map (\<lambda>p. c_id (client ?t p)) (filter (\<lambda>p. has_registered (client ?t p)) (s_clients ?t)))"
    using dist by (simp add: distinct_map)
  moreover have "has_registered (client ?t q) \<longleftrightarrow> c_context (client ?t q) \<noteq> None" if "q \<in> set (s_clients s)" for q
    using d r that by (cases "q = p") (auto simp: ids_ok_def list_all_iff)
  ultimately show ?thesis by (simp add: ids_ok_def list_all_iff)
qed

lemma core_eq_out [simp]: "core_eq s (s\<lparr>s_out_msg := m\<rparr>)" "core_eq s (clear_out_data s)"
  by (simp_all add: core_eq_def clear_out_data_def)

lemma ident_out: "ident s (s\<lparr>s_out_msg := m\<rparr>)" "ident s (clear_out_data s)"
  by (rule ident_core; simp add: grants_def clear_out_data_def)+

lemma ids_ident: "ids_ok s \<Longrightarrow> ident s s' \<Longrightarrow> ids_ok s'"
  by (simp add: ids_ok_def ident_def has_registered_def)

text \<open>The tail of \<open>register_client\<close>: from the state with the client's fields set to the end.\<close>

lemma register_tail:
  assumes k: "sends_ok s" and p: "alive s p" and m: "m_type m \<noteq> LOCK_OK"
  shows "\<exists>s'. bindR (send_message p m s) (\<lambda>(sent, s5).
      if \<not> sent then Inr (False, clear_out_data s5)
      else (case v of None \<Rightarrow> Inr (True, clear_out_data s5)
        | Some v \<Rightarrow> (let new_limit = parse_memory_size oob v in
            if new_limit > 0
            then bindR (send_update_limit p new_limit (upd_client p (\<lambda>c. c\<lparr>c_memory_limit := new_limit\<rparr>) s5))
                   (\<lambda>(_, s6). Inr (True, clear_out_data s6))
            else Inr (True, clear_out_data s5)))) = Inr (True, s') \<and> ident s s'"
proof -
  obtain s5 where s5: "send_message p m s = Inr (True, s5)" "ident s s5" using ident_send [OF k p m] by metis
  let ?lim = "\<lambda>l. upd_client p (\<lambda>c. c\<lparr>c_memory_limit := l\<rparr>) s5"
  have i6: "ident s (?lim l)" for l by (rule ident_trans [OF s5(2)], rule ident_upd_client) auto
  have "\<exists>s6. send_update_limit p l (?lim l) = Inr (True, s6) \<and> ident (?lim l) s6" for l
    using ident_limit_sends(1) [of "?lim l" p] ident_fields [OF i6] k p by metis
  then obtain s6 where s6: "send_update_limit p l (?lim l) = Inr (True, s6 l)" "ident (?lim l) (s6 l)" for l
    by metis
  have c: "ident s (clear_out_data s5)" "ident s (clear_out_data (s6 l))" for l
    using ident_trans ident_out s5(2) ident_trans [OF i6 s6(2)] by blast+
  show ?thesis using c s6(1) by (cases v) (auto simp: s5(1) Let_def)
qed

text \<open>What the registration of \<open>p\<close> leaves alone.\<close>

definition enrolled :: "cptr \<Rightarrow> sched_state \<Rightarrow> sched_state \<Rightarrow> bool" where
  "enrolled p s s' \<longleftrightarrow> s_clients s' = s_clients s \<and> s_config s' = s_config s \<and> grants s' = grants s
     \<and> (\<forall>q. c_fd (client s' q) = c_fd (client s q))
     \<and> (\<forall>q. q \<noteq> p \<longrightarrow> c_id (client s' q) = c_id (client s q) \<and> c_context (client s' q) = c_context (client s q))
     \<and> set (s_contexts s) \<subseteq> set (s_contexts s')
     \<and> (\<forall>h \<in> set (s_contexts s). queues h s' = queues h s \<and> g_uuid (gpu s' h) = g_uuid (gpu s h))
     \<and> (\<forall>h \<in> set (s_contexts s') - set (s_contexts s). queues h s' = ([], [], []))
     \<and> (uuids_ok s \<longrightarrow> uuids_ok s')"

theorem register_client_correct:
  assumes w: "wf_state s" and d: "ids_ok s" and k: "sends_ok s" and p: "alive s p" "\<not> has_registered (client s p)"
    and i: "fresh_id n s = Inr (i, s1)" and u: "str_fits NVSHARE_GPU_UUID_LEN (m_gpu_uuid m)"
  shows "\<exists>s' g. register_client annot cred oob n p m s = Inr (True, s') \<and> wf_state s' \<and> ids_ok s' \<and> sends_ok s'
    \<and> c_id (client s' p) = i \<and> c_context (client s' p) = Some g \<and> g \<in> set (s_contexts s')
    \<and> strncmp_eq (g_uuid (gpu s' g)) (m_gpu_uuid m) NVSHARE_GPU_UUID_LEN
    \<and> enrolled p s s'"
proof -
  note fi = fresh_id_correct [OF i]
  have c1: "core_eq s s1" using fi by simp
  note e1 = core_eq_simps [OF c1]
  obtain g s2 where gc: "get_or_create_gpu_context (m_gpu_uuid m) s1 = (g, s2)" by fastforce
  note g2 = get_or_create_wf [OF wf_core [OF c1 w] gc]
  have np: "c_context (client s p) = None" using d p by (auto simp: ids_ok_def list_all_iff alive_def)
  have p2: "alive s2 p" "c_context (client s2 p) = None" "\<not> has_registered (client s2 p)"
    using p np e1(3,4) g2(3,4) by (simp_all add: alive_def)
  let ?s3 = "upd_client p (registered annot cred i m g) s2"
  let ?s4 = "?s3\<lparr>s_out_msg := (s_out_msg ?s3)\<lparr>m_data := hex16 i, m_type := sched_status ?s3,
      m_core_limit := c_core_limit (client ?s3 p)\<rparr>\<rparr>"
  have w3: "wf_state ?s3" by (rule registered_wf [OF g2(1) p2(1,2) g2(2)])
  have d2: "ids_ok s2" using d e1(3,4) g2(3,4) by (simp add: ids_ok_def)
  have i2: "i \<noteq> NVSHARE_UNREGISTERED_ID" "i \<notin> (\<lambda>p. c_id (client s2 p)) ` set (s_clients s2)"
    using fi e1(3,4) g2(3,4) by simp_all
  have d3: "ids_ok ?s3" by (rule registered_ids [OF d2 wf_simps(3) [OF g2(1)] p2(1,3) i2])
  have i34: "ident ?s3 ?s4" by (rule ident_out)
  have k4: "sends_ok ?s4" "alive ?s4 p" using k e1(9) g2(6) p2(1) by (simp_all add: sends_ok_def alive_def)
  have status_type: "m_type (s_out_msg ?s4) \<noteq> LOCK_OK" by (simp add: sched_status_def)
  obtain s' where s': "register_client annot cred oob n p m s = Inr (True, s')" "ident ?s4 s'"
    using register_tail [OF k4 status_type, where oob = oob and
        v = "annot (c_pod_namespace (client ?s3 p)) (c_pod_name (client ?s3 p)) MEMORY_LIMIT_ANNOTATION"] p(2) by (auto simp: register_client_def i gc Let_def)
  have i3: "ident ?s3 s'" by (rule ident_trans [OF i34 s'(2)])
  have "c_id (client ?s3 p) = i" "c_context (client ?s3 p) = Some g" by (simp_all add: registered_def Let_def)
  then have "c_id (client s' p) = i" "c_context (client s' p) = Some g" using i3 unfolding ident_def by metis+
  moreover have "enrolled p s s'"
  proof -
    note n = get_or_create_contexts [OF gc u]
    have "grants s1 = grants s" using fresh_id_world [OF i] by (auto simp: grants_def)
    then have "grants s' = grants s" "s_config s' = s_config s" "s_clients s' = s_clients s" "s_contexts s' = s_contexts s2"
      using i3 n(2) g2(3,7) e1(1,3) by (simp_all add: ident_def)
    moreover have "queues h s' = queues h s \<and> g_uuid (gpu s' h) = g_uuid (gpu s h)" if "h \<in> set (s_contexts s)" for h
      using i3 g2(10) [of h] that e1(5,6) by (simp add: ident_def queues_def)
    moreover have "queues h s' = ([], [], [])" if "h \<in> set (s_contexts s2)" "h \<notin> set (s_contexts s)" for h
      using i3 n(3) [of h] that e1(5) by (simp add: ident_def queues_def)
    moreover have "uuids_ok s'" if "uuids_ok s"
      using n(4) that i3 e1(5,6) by (simp add: uuids_ok_def ident_def)
    moreover have "c_fd (client s' q) = c_fd (client s q)" for q
      using i3 g2(4) e1(4) by (simp add: ident_def registered_def Let_def)
    moreover have "c_id (client s' q) = c_id (client s q) \<and> c_context (client s' q) = c_context (client s q)" if "q \<noteq> p" for q
      using i3 g2(4) e1(4) that by (simp add: ident_def)
    ultimately show ?thesis using n(1) e1(5) by (auto simp: enrolled_def)
  qed
  moreover have "strncmp_eq (g_uuid (gpu s' g)) (m_gpu_uuid m) NVSHARE_GPU_UUID_LEN"
    using g2(11) [OF u] i3 by (simp add: ident_def)
  moreover have "sends_ok s'" using k4 ident_fields(2) [OF s'(2)] by simp
  ultimately show ?thesis using s'(1) wf_ident [OF w3 i3] ids_ident [OF d3 i3] g2(2) ident_fields(4) [OF i3] by simp
qed

section \<open>The annotation watcher\<close>

lemma update_memory_limit_ident:
  assumes k: "sends_ok s" and p: "alive s p"
  shows "\<exists>s'. update_memory_limit oob v p s = Inr s' \<and> ident s s'"
proof (cases v)
  case (Some str)
  let ?l = "parse_memory_size oob str"
  let ?s1 = "upd_client p (\<lambda>c. c\<lparr>c_memory_limit := ?l\<rparr>) s"
  have i: "ident s ?s1" by (rule ident_upd_client) auto
  obtain s2 where "send_update_limit p ?l ?s1 = Inr (True, s2)" "ident ?s1 s2"
    using ident_limit_sends(1) [of ?s1 p] ident_fields [OF i] k p by metis
  then show ?thesis using Some ident_trans [OF i] by (simp add: update_memory_limit_def Let_def)
qed (simp add: update_memory_limit_def)

lemma update_core_limit_ident:
  assumes k: "sends_ok s" and p: "alive s p"
  shows "\<exists>s'. update_core_limit v p s = Inr s' \<and> ident s s'"
proof -
  let ?l = "initial_core_limit v"
  let ?s1 = "upd_client p (\<lambda>c. c\<lparr>c_core_limit := ?l\<rparr>) s"
  have i: "ident s ?s1" by (rule ident_upd_client) (use initial_core_limit_range in auto)
  obtain s2 where s2: "send_update_core_limit p ?l ?s1 = Inr (True, s2)" "ident ?s1 s2"
    using ident_limit_sends(2) [of ?s1 p] ident_fields [OF i] k p by metis
  have "ident s2 (upd_gpu g (\<lambda>x. x\<lparr>g_timer_wake := True\<rparr>) s2)" for g by (rule ident_upd_gpu) auto
  then have "ident s (case c_context (client s2 p) of
      Some g \<Rightarrow> if c_is_running (client s2 p) then upd_gpu g (\<lambda>x. x\<lparr>g_timer_wake := True\<rparr>) s2 else s2 | None \<Rightarrow> s2)"
    using ident_trans [OF i s2(2)] ident_trans by (auto split: option.split)
  then show ?thesis using s2 by (simp add: update_core_limit_def Let_def)
qed

lemma apply_annotations_ident:
  assumes k: "sends_ok s" shows "\<exists>s'. apply_annotations annot oob info s = Inr s' \<and> ident s s'"
proof -
  obtain i pod ns where info: "info = (i, pod, ns)" by (cases info) auto
  show ?thesis
  proof (cases "List.find (\<lambda>p. c_id (client s p) = i) (s_clients s)")
    case (Some p)
    then have p: "alive s p" by (auto simp: find_Some_iff alive_def)
    obtain s1 where s1: "update_memory_limit oob (annot ns pod MEMORY_LIMIT_ANNOTATION) p s = Inr s1" "ident s s1"
      using update_memory_limit_ident [OF k p] by metis
    obtain s2 where "update_core_limit (annot ns pod CORE_LIMIT_ANNOTATION) p s1 = Inr s2" "ident s1 s2"
      using update_core_limit_ident [of s1 p] ident_fields [OF s1(2)] k p by metis
    then show ?thesis using Some info s1 ident_trans [OF s1(2)] by (simp add: apply_annotations_def)
  qed (use info in \<open>simp add: apply_annotations_def\<close>)
qed

section \<open>Events\<close>

definition sched_inv :: "sched_state \<Rightarrow> bool" where
  "sched_inv s \<longleftrightarrow> wf_state s \<and> ids_ok s \<and> sends_ok s"

text \<open>What the environment has to respect for a message of client \<open>p\<close>: a client asks for the lock
  only when it is in no queue, does not release it or make itself be deleted while it waits for
  an idle context, and the scheduler is only turned off while no client runs.\<close>

definition msg_allowed :: "nat \<Rightarrow> sched_state \<Rightarrow> cptr \<Rightarrow> message \<Rightarrow> bool" where
  "msg_allowed n s p m \<longleftrightarrow>
     (case m_type m of
        REGISTER \<Rightarrow> if has_registered (client s p) then may_leave s p
                    else \<not> isl (fresh_id n (metrics_inc_msg (msg_code REGISTER) s))
                         \<and> str_fits NVSHARE_GPU_UUID_LEN (m_gpu_uuid m)
      | SCHED_OFF \<Rightarrow> list_all (\<lambda>g. g_running_list (gpu s g) = []) (s_contexts s)
      | REQ_LOCK \<Rightarrow> list_all (\<lambda>g. p \<notin> set (all_queued (queues g s))) (s_contexts s)
      | LOCK_RELEASED \<Rightarrow> may_leave s p
      | _ \<Rightarrow> True)"

definition event_allowed :: "nat \<Rightarrow> sched_state \<Rightarrow> event \<Rightarrow> bool" where
  "event_allowed n s ev \<longleftrightarrow>
     (case ev of
        NewConnection (Accepted fd) q junk ok \<Rightarrow> \<not> alive s q \<and> fd \<notin> set (s_epoll s) \<and> fd \<noteq> w_stale_fd (s_world s)
      | NewConnection (AcceptFailed e) q junk ok \<Rightarrow> e = ECONNABORTED \<or> e = EAGAIN \<or> e = EWOULDBLOCK
      | Readable p r \<Rightarrow> alive s p \<and> (case receive_message r of Inl _ \<Rightarrow> False
          | Inr None \<Rightarrow> may_leave s p | Inr (Some m) \<Rightarrow> msg_allowed n s p m)
      | HangUp p \<Rightarrow> alive s p \<and> may_leave s p)"

lemma ids_frame:
  assumes f: "frame g s s'" and d: "ids_ok s" shows "ids_ok s'"
  using d by (simp add: ids_ok_def has_registered_def frame_simps [OF f])

lemma ids_remove1:
  assumes d: "ids_ok s" and c: "s_clients s' = remove1 p (s_clients s)"
    and i: "\<And>q. c_id (client s' q) = c_id (client s q) \<and> c_context (client s' q) = c_context (client s q)"
  shows "ids_ok s'"
proof -
  have "map (\<lambda>q. c_id (client s' q)) (filter (\<lambda>q. has_registered (client s' q)) (s_clients s'))
    = map (\<lambda>q. c_id (client s q)) (remove1 p (filter (\<lambda>q. has_registered (client s q)) (s_clients s)))"
    by (simp add: c has_registered_def i filter_remove1 cong: filter_cong)
  then have "distinct (map (\<lambda>q. c_id (client s' q)) (filter (\<lambda>q. has_registered (client s' q)) (s_clients s')))"
    using d by (auto simp: ids_ok_def distinct_map intro: inj_on_subset)
  then show ?thesis using d set_remove1_subset [of p "s_clients s"]
    by (auto simp: ids_ok_def c i has_registered_def list_all_iff)
qed

lemma inv_ident: "sched_inv s \<Longrightarrow> ident s s' \<Longrightarrow> sched_inv s'"
  by (auto simp: sched_inv_def ident_fields(2) intro: wf_ident ids_ident)

lemma inv_core: assumes "sched_inv s" "core_eq s s'" shows "sched_inv s'"
  using assms(1) wf_core [OF assms(2)] core_eq_simps [OF assms(2)] by (simp add: sched_inv_def ids_ok_def)

lemma delete_client_inv:
  assumes v: "sched_inv s" and p: "alive s p" and l: "may_leave s p" and n: "enough_fuel n s"
  shows "\<exists>s'. delete_client (try_schedule n) p s = Inr s' \<and> sched_inv s'"
proof -
  have w: "wf_state s" "sends_ok s" "ids_ok s" using v by (simp_all add: sched_inv_def)
  obtain s' where s': "delete_client (try_schedule n) p s = Inr s'" "wf_state s'" "sends_ok s'"
    "s_clients s' = remove1 p (s_clients s)"
    and i: "\<And>q. c_id (client s' q) = c_id (client s q) \<and> c_context (client s' q) = c_context (client s q)"
    using delete_client_safe [OF w(1,2) p l n] by metis
  then show ?thesis using ids_remove1 [OF w(3) s'(4) i] by (simp add: sched_inv_def)
qed

lemma drop_connection_inv:
  assumes v: "sched_inv s" and p: "alive s p" and l: "may_leave s p" and n: "enough_fuel n s"
  shows "\<exists>s'. drop_connection n p s = Inr s' \<and> sched_inv s'"
proof -
  have w: "wf_state s" "sends_ok s" "ids_ok s" using v by (simp_all add: sched_inv_def)
  obtain s' where s': "drop_connection n p s = Inr s'" "wf_state s'" "sends_ok s'" "s_clients s' = remove1 p (s_clients s)"
    "\<forall>q. c_id (client s' q) = c_id (client s q) \<and> c_context (client s' q) = c_context (client s q)"
    using drop_connection_correct [OF w(1,2) p l n] by blast
  then show ?thesis using ids_remove1 [OF w(3) s'(4)] by (simp add: sched_inv_def)
qed

lemma sched_off_contexts_inv:
  assumes v: "sched_inv s" and r: "\<forall>g \<in> set (s_contexts s). g_running_list (gpu s g) = []"
  shows "sched_inv (sched_off_contexts s)"
proof -
  have w: "wf_state s" "ids_ok s" "sends_ok s" using v by (simp_all add: sched_inv_def)
  let ?f = "\<lambda>x. x\<lparr>g_requests := [], g_lock_held := False\<rparr>"
  have idem: "?f (?f x) = ?f x" for x :: gpu_context by simp
  have fold: "client (fold (\<lambda>g. upd_gpu g ?f) gs t) = client t \<and> s_clients (fold (\<lambda>g. upd_gpu g ?f) gs t) = s_clients t
      \<and> s_contexts (fold (\<lambda>g. upd_gpu g ?f) gs t) = s_contexts t \<and> s_config (fold (\<lambda>g. upd_gpu g ?f) gs t) = s_config t
      \<and> s_epoll (fold (\<lambda>g. upd_gpu g ?f) gs t) = s_epoll t \<and> s_world (fold (\<lambda>g. upd_gpu g ?f) gs t) = s_world t
      \<and> (\<forall>h. gpu (fold (\<lambda>g. upd_gpu g ?f) gs t) h = (if h \<in> set gs then ?f (gpu t h) else gpu t h))" for gs t
  proof (induction gs arbitrary: t)
    case (Cons g gs)
    from Cons.IH [of "upd_gpu g ?f t"] show ?case by (auto simp: idem)
  qed simp
  let ?t = "sched_off_contexts s"
  have t: "client ?t = client s" "s_clients ?t = s_clients s" "s_contexts ?t = s_contexts s" "s_config ?t = s_config s"
    "s_epoll ?t = s_epoll s" "s_world ?t = s_world s" "\<And>h. h \<in> set (s_contexts s) \<Longrightarrow> gpu ?t h = ?f (gpu s h)"
    using fold [of "s_contexts s" s] by (simp_all add: sched_off_contexts_def)
  have "gpu_wf ?t g" if g: "g \<in> set (s_contexts s)" for g
    using wf_gpu [OF w(1) g] r g by (auto simp: gpu_wf_def Let_def list_all_iff t alive_def)
  then have "list_all (gpu_wf ?t) (s_contexts s)" by (simp add: list_all_iff)
  moreover have "bills_ok ?t" using w(1) by (simp add: wf_state_def bills_ok_def t(1,2))
  ultimately have "wf_state ?t" using w(1) unfolding wf_state_def by (simp add: t(1-6))
  moreover have "ids_ok ?t" using w(2) by (simp add: ids_ok_def t(1,2))
  moreover have "sends_ok ?t" using w(3) by (simp add: sends_ok_def t(6))
  ultimately show ?thesis by (simp add: sched_inv_def)
qed

lemma unregistered_may_leave:
  "ids_ok s \<Longrightarrow> alive s p \<Longrightarrow> \<not> has_registered (client s p) \<Longrightarrow> may_leave s p"
  by (auto simp: ids_ok_def list_all_iff alive_def may_leave_def)

lemma handle_req_lock_inv:
  assumes v: "sched_inv s" and p: "alive s p" and n: "enough_fuel n s"
    and q: "\<forall>g \<in> set (s_contexts s). p \<notin> set (all_queued (queues g s))"
  shows "\<exists>s'. handle_req_lock n p s = Inr s' \<and> sched_inv s'"
proof -
  have w: "wf_state s" "ids_ok s" "sends_ok s" using v by (simp_all add: sched_inv_def)
  show ?thesis
  proof (cases "has_registered (client s p) \<and> s_on s")
    case True
    then obtain g where g: "c_context (client s p) = Some g" using w(2) p by (auto simp: ids_ok_def list_all_iff alive_def)
    have gc: "g \<in> set (s_contexts s)" by (rule wf_context [OF w(1) p g])
    obtain s' where "handle_req_lock n p s = Inr s'" "wf_state s'" "sends_ok s'" "frame g s s'"
      using handle_req_lock_correct [OF w(1,3) _ p _ g _ enough_fuelD(1) [OF n gc]] True q gc by blast
    then show ?thesis using ids_frame w(2) by (auto simp: sched_inv_def)
  next
    case False
    then show ?thesis
      using delete_client_inv [OF v p unregistered_may_leave [OF w(2) p] n] v by (auto simp: handle_req_lock_def)
  qed
qed

lemma handle_lock_released_inv:
  assumes v: "sched_inv s" and p: "alive s p" and n: "enough_fuel n s" and l: "may_leave s p"
  shows "\<exists>s'. handle_lock_released n p s = Inr s' \<and> sched_inv s'"
proof -
  have w: "wf_state s" "ids_ok s" "sends_ok s" using v by (simp_all add: sched_inv_def)
  show ?thesis
  proof (cases "has_registered (client s p) \<and> s_on s")
    case True
    then obtain g where g: "c_context (client s p) = Some g" using w(2) p by (auto simp: ids_ok_def list_all_iff alive_def)
    have gc: "g \<in> set (s_contexts s)" by (rule wf_context [OF w(1) p g])
    have r: "removable g p s" using l g by (simp add: may_leave_def)
    obtain s' where "handle_lock_released n p s = Inr s'" "wf_state s'" "sends_ok s'" "frame g s s'"
      using handle_lock_released_correct [OF w(1,3) _ p _ g r enough_fuelD(2) [OF n gc]] True by blast
    then show ?thesis using ids_frame w(2) by (auto simp: sched_inv_def)
  next
    case False
    then show ?thesis using delete_client_inv [OF v p l n] v by (auto simp: handle_lock_released_def)
  qed
qed

lemma register_inv:
  assumes v: "sched_inv s" and p: "alive s p" and n: "enough_fuel n s"
    and r: "if has_registered (client s p) then may_leave s p
      else \<not> isl (fresh_id n s) \<and> str_fits NVSHARE_GPU_UUID_LEN (m_gpu_uuid m)"
  shows "\<exists>s'. bindR (register_client annot cred oob n p m s) (\<lambda>(ok, s1).
      if ok then Inr s1 else delete_client (try_schedule n) p s1) = Inr s' \<and> sched_inv s'"
proof (cases "has_registered (client s p)")
  case True
  then show ?thesis using delete_client_inv [OF v p _ n] r by (simp add: register_client_def)
next
  case False
  have w: "wf_state s" "ids_ok s" "sends_ok s" using v by (simp_all add: sched_inv_def)
  obtain i s1 where i: "fresh_id n s = Inr (i, s1)" using r False by (cases "fresh_id n s") auto
  show ?thesis using register_client_correct [OF w p False i, of m annot cred oob] r False
    by (auto simp: sched_inv_def)
qed

text \<open>Counting a message changes nothing that matters to its handler.\<close>

lemma counted:
  assumes "sched_inv s" "alive s p" "enough_fuel n s"
  shows "sched_inv (metrics_inc_msg c s)" "alive (metrics_inc_msg c s) p" "enough_fuel n (metrics_inc_msg c s)"
    "may_leave (metrics_inc_msg c s) p = may_leave s p"
proof -
  have c: "core_eq s (metrics_inc_msg c s)" by simp
  note e = core_eq_simps [OF c]
  show "sched_inv (metrics_inc_msg c s)" by (rule inv_core [OF assms(1) c])
  show "alive (metrics_inc_msg c s) p" using assms(2) e by simp
  show "enough_fuel n (metrics_inc_msg c s)" using assms(3) by (simp add: enough_fuel_def e queues_def)
  show "may_leave (metrics_inc_msg c s) p = may_leave s p" by (simp add: may_leave_def removable_def e split: option.split)
qed

theorem process_msg_inv:
  assumes v: "sched_inv s" and p: "alive s p" and n: "enough_fuel n s" and a: "msg_allowed n s p m"
  shows "\<exists>s'. process_msg annot cred oob n p m s = Inr s' \<and> sched_inv s'"
proof -
  let ?s = "metrics_inc_msg (msg_code (m_type m)) s"
  note e = core_eq_simps [OF core_eq_metrics(5) [of s "msg_code (m_type m)"]]
    and v' = counted(1) [OF v p n, of "msg_code (m_type m)"] and p' = counted(2) [OF v p n, of "msg_code (m_type m)"]
    and n' = counted(3) [OF v p n, of "msg_code (m_type m)"] and ml = counted(4) [OF v p n, of "msg_code (m_type m)"]
  have w: "wf_state ?s" "ids_ok ?s" "sends_ok ?s" using v' by (simp_all add: sched_inv_def)
  have on: "sched_inv (?s\<lparr>s_on := b\<rparr>)" for b
  proof -
    have "ident ?s (?s\<lparr>s_on := b\<rparr>)" by (simp add: ident_def queues_def bills_ok_def grants_def)
    then show ?thesis by (rule inv_ident [OF v'])
  qed
  have bc: "\<exists>t. bcast_status n (?s\<lparr>s_on := b\<rparr>) = Inr t \<and> core_eq (?s\<lparr>s_on := b\<rparr>) t" for b
    using bcast_status_correct [of "?s\<lparr>s_on := b\<rparr>" n] on [of b] by (auto simp: sched_inv_def wf_state_def)
  show ?thesis
  proof (cases "m_type m")
    case REGISTER
    have r: "if has_registered (client ?s p) then may_leave ?s p
      else \<not> isl (fresh_id n ?s) \<and> str_fits NVSHARE_GPU_UUID_LEN (m_gpu_uuid m)"
      using a e(4) [of p] ml REGISTER by (auto simp: msg_allowed_def split: if_splits)
    show ?thesis using register_inv [OF v' p' n' r, of annot cred oob] unfolding process_msg_def Let_def REGISTER by simp
  next
    case SCHED_ON
    then show ?thesis using bc [of True] inv_core [OF on] v' by (auto simp: process_msg_def Let_def)
  next
    case SCHED_OFF
    obtain t where t: "bcast_status n (?s\<lparr>s_on := False\<rparr>) = Inr t" "core_eq (?s\<lparr>s_on := False\<rparr>) t" using bc by blast
    have "sched_inv (sched_off_contexts t)"
      using a SCHED_OFF e core_eq_simps [OF t(2)]
      by (intro sched_off_contexts_inv inv_core [OF on t(2)]) (auto simp: msg_allowed_def list_all_iff)
    then show ?thesis using SCHED_OFF t v' by (auto simp: process_msg_def Let_def)
  next
    case SET_TQ
    then show ?thesis using inv_ident [OF v' set_tq_ident] by (simp add: process_msg_def Let_def)
  next
    case REQ_LOCK
    then show ?thesis using handle_req_lock_inv [OF v' p' n'] a e
      by (simp add: process_msg_def msg_allowed_def list_all_iff queues_def Let_def)
  next
    case LOCK_RELEASED
    then show ?thesis using handle_lock_released_inv [OF v' p' n'] a ml
      by (simp add: process_msg_def msg_allowed_def Let_def)
  next
    case MEM_UPDATE
    then show ?thesis using handle_mem_update_ident [OF w(1,3) p'] inv_ident [OF v']
      by (fastforce simp: process_msg_def Let_def)
  qed (use v' in \<open>simp_all add: process_msg_def Let_def\<close>)
qed

lemma accept_client_ids:
  assumes d: "ids_ok s" and q: "\<not> alive s q" shows "ids_ok (accept_client rsock q junk ok s)"
proof (cases ok)
  case True
  let ?t = "accept_client rsock q junk ok s"
  have same: "client ?t p = client s p" if "p \<in> set (s_clients s)" for p
    using True q that by (auto simp: accept_client_def alive_def)
  have cl: "s_clients ?t = s_clients s @ [q]" and nr: "\<not> has_registered (client ?t q)" "c_context (client ?t q) = None"
    using True by (simp_all add: accept_client_def has_registered_def)
  let ?R = "filter (\<lambda>p. has_registered (client s p)) (s_clients s)"
  have f: "filter (\<lambda>p. has_registered (client ?t p)) (s_clients ?t) = ?R"
    using same nr by (simp add: cl cong: filter_cong)
  have "map (\<lambda>p. c_id (client ?t p)) ?R = map (\<lambda>p. c_id (client s p)) ?R" using same by (intro map_cong) auto
  then have "distinct (map (\<lambda>p. c_id (client ?t p)) ?R)" using d by (simp only: ids_ok_def)
  then show ?thesis unfolding ids_ok_def f using d same nr by (simp add: ids_ok_def list_all_iff cl)
qed (use d in \<open>simp add: accept_client_def\<close>)

theorem handle_event_inv:
  assumes v: "sched_inv s" and n: "enough_fuel n s" and a: "event_allowed n s ev"
  shows "\<exists>s'. handle_event annot cred oob n ev s = Inr s' \<and> sched_inv s'"
proof (cases ev)
  case (NewConnection out q junk ok)
  show ?thesis
  proof (cases out)
    case (Accepted fd)
    have q: "\<not> alive s q" "fd \<notin> set (s_epoll s)" "fd \<noteq> w_stale_fd (s_world s)"
      using a NewConnection Accepted by (simp_all add: event_allowed_def)
    let ?t = "accept_client fd q junk ok s"
    have w: "wf_state s" "ids_ok s" "sends_ok s" using v by (simp_all add: sched_inv_def)
    have "ids_ok ?t" by (rule accept_client_ids [OF w(2) q(1)])
    then have "sched_inv ?t" using accept_client_wf [OF w(1) q] w(3)
      by (simp add: sched_inv_def sends_ok_def accept_client_def)
    then show ?thesis using NewConnection Accepted by (simp add: handle_event_def)
  next
    case (AcceptFailed e)
    then show ?thesis using a v NewConnection by (auto simp: handle_event_def event_allowed_def)
  qed
next
  case (Readable p r)
  have p: "alive s p" using a Readable by (simp add: event_allowed_def)
  show ?thesis
  proof (cases "receive_message r")
    case (Inl e)
    then show ?thesis using a Readable by (simp add: event_allowed_def)
  next
    case (Inr msg)
    show ?thesis
    proof (cases msg)
      case None
      then have "may_leave s p" using a Readable Inr by (simp add: event_allowed_def)
      then show ?thesis using drop_connection_inv [OF v p _ n] Readable Inr None p
        by (simp add: handle_event_def guard_live_def)
    next
      case (Some m)
      then have "msg_allowed n s p m" using a Readable Inr by (simp add: event_allowed_def)
      then show ?thesis using process_msg_inv [OF v p n] Readable Inr Some p
        by (simp add: handle_event_def guard_live_def)
    qed
  qed
next
  case (HangUp p)
  then show ?thesis using drop_connection_inv [OF v _ _ n] a by (simp add: event_allowed_def handle_event_def guard_live_def)
qed

section \<open>Runs\<close>

definition initial_state :: "(string \<Rightarrow> string option) \<Rightarrow> int \<Rightarrow> (cptr \<Rightarrow> nvshare_client) \<Rightarrow> (gptr \<Rightarrow> gpu_context) \<Rightarrow> world \<Rightarrow> sched_state" where
  "initial_state getenv lsock cm gm w = \<lparr>s_config = init_config getenv default_config, s_on = True, s_tq = 30,
     s_out_msg = zero_message\<lparr>m_id := 7331\<rparr>, s_clients = [], s_cmem = cm, s_contexts = [], s_gmem = gm,
     s_epoll = [lsock], s_metrics = \<lparr>mt_msg = (\<lambda>_. 0), mt_drop_lock = 0, mt_client_disconnect = 0,
       mt_wait_for_mem = 0, mt_mem_available = 0\<rparr>, s_world = w\<rparr>"

definition sched_start :: "sched_state \<Rightarrow> bool" where
  "sched_start s \<longleftrightarrow> (\<exists>getenv lsock cm gm w. s = initial_state getenv lsock cm gm w) \<and> sends_ok s"

text \<open>The critical sections of the threads: an event of the main loop, the two halves of an iteration
  of a timer thread, and the update of a client by the annotation watcher.\<close>

inductive sched_step :: "sched_state \<Rightarrow> sched_state \<Rightarrow> bool" where
  step_event: "event_allowed n s ev \<Longrightarrow> enough_fuel n s \<Longrightarrow> handle_event annot cred oob n ev s = Inr s' \<Longrightarrow> sched_step s s'"
| step_prepare: "g \<in> set (s_contexts s) \<Longrightarrow> enough_fuel n s \<Longrightarrow> timer_prepare n g rt s = Inr (tq, m, d, s') \<Longrightarrow> sched_step s s'"
| step_enforce: "g \<in> set (s_contexts s) \<Longrightarrow> timer_enforce g timed_out m tq s = Inr s' \<Longrightarrow> sched_step s s'"
| step_watch: "apply_annotations annot oob info s = Inr s' \<Longrightarrow> sched_step s s'"

inductive_cases sched_stepE: "sched_step s s'"

lemma inv_frame:
  assumes v: "sched_inv s" and f: "frame g s s'" and w: "wf_state s'" shows "sched_inv s'"
  using v w ids_frame [OF f] frame_simps(7) [OF f] by (simp add: sched_inv_def)

lemma initial_inv: "sched_start s \<Longrightarrow> sched_inv s"
  by (auto simp: sched_start_def sched_inv_def initial_state_def wf_state_def bills_ok_def ids_ok_def
      config_ok_init sends_ok_def)

lemma step_inv: "sched_inv s \<Longrightarrow> sched_step s t \<Longrightarrow> sched_inv t"
proof (erule sched_step.cases)
  fix n s0 ev annot cred oob s'
  assume "sched_inv s" "s = s0" "t = s'" "event_allowed n s0 ev" "enough_fuel n s0" "handle_event annot cred oob n ev s0 = Inr s'"
  then show ?thesis using handle_event_inv [of s0 n ev annot cred oob] by auto
next
  fix g s0 n rt tq m d s'
  assume *: "sched_inv s" "s = s0" "t = s'" "g \<in> set (s_contexts s0)" "enough_fuel n s0"
    "timer_prepare n g rt s0 = Inr (tq, m, d, s')"
  then have w: "wf_state s0" "sends_ok s0" by (simp_all add: sched_inv_def)
  show ?thesis using timer_prepare_correct [OF w *(4), of n rt] enough_fuelD(1) [OF *(5,4)] * inv_frame by auto
next
  fix g s0 timed_out m tq s'
  assume *: "sched_inv s" "s = s0" "t = s'" "g \<in> set (s_contexts s0)" "timer_enforce g timed_out m tq s0 = Inr s'"
  then have w: "wf_state s0" "sends_ok s0" by (simp_all add: sched_inv_def)
  show ?thesis using timer_enforce_correct [OF w *(4), of timed_out m tq] * inv_frame by auto
next
  fix annot oob info s0 s'
  assume *: "sched_inv s" "s = s0" "t = s'" "apply_annotations annot oob info s0 = Inr s'"
  then have "sends_ok s0" by (simp add: sched_inv_def)
  then show ?thesis using apply_annotations_ident [of s0 annot oob info] * inv_ident by auto
qed

interpretation scheduler: invariant_system sched_start sched_step sched_inv
  by unfold_locales (auto intro: initial_inv step_inv)

end
