(* ===== verification/SchedLog.thy ===== *)
theory SchedLog
  imports SchedSafety
begin

text \<open>
  What the scheduler writes to its clients. No operation takes a message back, and outside of
  registration and of a change of its status no operation tells a client that the scheduler is on
  or off. These facts hold of every run that returns, whatever the state it starts from.
\<close>

section \<open>Extension of the log\<close>

definition is_status :: "message_type \<Rightarrow> bool" where
  "is_status t \<longleftrightarrow> t = SCHED_ON \<or> t = SCHED_OFF"

definition talks :: "sched_state \<Rightarrow> sched_state \<Rightarrow> bool" where
  "talks s s' \<longleftrightarrow> s_on s' = s_on s
     \<and> (\<exists>new. w_sent (s_world s') = new @ w_sent (s_world s) \<and> (\<forall>e \<in> set new. \<not> is_status (m_type (snd e))))"

lemma talks_refl [simp, intro]: "talks s s"
  by (simp add: talks_def)

lemma talks_trans [trans]: "talks s t \<Longrightarrow> talks t u \<Longrightarrow> talks s u"
  by (fastforce simp: talks_def)

text \<open>Operations that neither write nor change the status.\<close>

lemma silent_fields [simp]:
  "s_on (clear_out_data s) = s_on s" "w_sent (s_world (clear_out_data s)) = w_sent (s_world s)"
  "s_on (metrics_inc_wait_for_mem s) = s_on s" "w_sent (s_world (metrics_inc_wait_for_mem s)) = w_sent (s_world s)"
  "s_on (metrics_inc_mem_available s) = s_on s" "w_sent (s_world (metrics_inc_mem_available s)) = w_sent (s_world s)"
  "s_on (metrics_inc_drop_lock s) = s_on s"
  "s_on (metrics_inc_client_disconnect s) = s_on s" "w_sent (s_world (metrics_inc_client_disconnect s)) = w_sent (s_world s)"
  "s_on (metrics_inc_msg c s) = s_on s" "w_sent (s_world (metrics_inc_msg c s)) = w_sent (s_world s)"
  "s_on (snd (current_time_ms s)) = s_on s" "w_sent (s_world (snd (current_time_ms s))) = w_sent (s_world s)"
  "s_on (snd (time_null s)) = s_on s" "w_sent (s_world (snd (time_null s))) = w_sent (s_world s)"
  by (simp_all add: clear_out_data_def metrics_inc_wait_for_mem_def metrics_inc_mem_available_def metrics_inc_drop_lock_def
      metrics_inc_client_disconnect_def metrics_inc_msg_def current_time_ms_def time_null_def)

lemma talks_silent [simp]:
  "talks s (upd_client p f t) = talks s t" "talks (upd_client p f s) t = talks s t"
  "talks s (upd_gpu g h t) = talks s t" "talks (upd_gpu g h s) t = talks s t"
  "talks s (set_out_type ty t) = talks s t" "talks (set_out_type ty s) t = talks s t"
  "talks s (clear_out_data t) = talks s t" "talks (clear_out_data s) t = talks s t"
  "talks s (metrics_inc_wait_for_mem t) = talks s t" "talks (metrics_inc_wait_for_mem s) t = talks s t"
  "talks s (metrics_inc_mem_available t) = talks s t" "talks (metrics_inc_mem_available s) t = talks s t"
  "talks s (metrics_inc_drop_lock t) = talks s t" "talks (metrics_inc_drop_lock s) t = talks s t"
  "talks s (metrics_inc_client_disconnect t) = talks s t" "talks (metrics_inc_client_disconnect s) t = talks s t"
  "talks s (metrics_inc_msg c t) = talks s t" "talks (metrics_inc_msg c s) t = talks s t"
  "talks s (snd (current_time_ms t)) = talks s t" "talks (snd (current_time_ms s)) t = talks s t"
  "talks s (snd (time_null t)) = talks s t" "talks (snd (time_null s)) t = talks s t"
  "talks s (t\<lparr>s_clients := cs\<rparr>) = talks s t" "talks s (t\<lparr>s_clients := cs, s_epoll := es\<rparr>) = talks s t"
  "talks s (t\<lparr>s_tq := x\<rparr>) = talks s t" "talks (s\<lparr>s_tq := x\<rparr>) t = talks s t"
  by (simp_all add: talks_def)

lemma talks_skel: assumes k: "skel t = skel s" shows "talks s t"
  using skel_fields(2) [OF k] skel_world(4) [OF k] by (simp add: talks_def)

lemma talks_send: "send_message p m s = Inr (b, t) \<Longrightarrow> \<not> is_status (m_type m) \<Longrightarrow> talks s t"
  by (auto simp: send_message_def talks_def Let_def split: if_splits sum.splits)

lemma talks_status [simp]:
  "\<not> is_status LOCK_OK" "\<not> is_status DROP_LOCK" "\<not> is_status WAIT_FOR_MEM" "\<not> is_status MEM_AVAILABLE"
  "\<not> is_status UPDATE_LIMIT" "\<not> is_status UPDATE_CORE_LIMIT"
  by (simp_all add: is_status_def)

section \<open>Runs\<close>

text \<open>Every state that a run yields extends the log.\<close>

definition says :: "('a \<Rightarrow> sched_state) \<Rightarrow> sched_state \<Rightarrow> 'a res \<Rightarrow> bool" where
  "says f s r \<longleftrightarrow> (\<forall>x. r = Inr x \<longrightarrow> talks s (f x))"

lemma saysD: "says f s (Inr x) \<Longrightarrow> talks s (f x)"
  by (simp add: says_def)

lemma says_Inr [simp]: "says f s (Inr x) \<longleftrightarrow> talks s (f x)"
  by (simp add: says_def)

lemma says_Inl [simp]: "says f s (Inl e)"
  by (simp add: says_def)

lemma says_bind: "says (\<lambda>s. s) s m \<Longrightarrow> (\<And>t. says f t (k t)) \<Longrightarrow> says f s (bindR m k)"
  by (auto simp: says_def bindR_Inr_iff intro: talks_trans)

lemma says_bind_pair: "says snd s m \<Longrightarrow> (\<And>b t. says f t (k (b, t))) \<Longrightarrow> says f s (bindR m k)"
  by (auto simp: says_def bindR_Inr_iff) (metis snd_conv talks_trans)

lemma says_bind_value: "(\<And>x. says f s (k x)) \<Longrightarrow> says f s (bindR m k)"
  by (auto simp: says_def bindR_Inr_iff)

lemma says_if: "(b \<Longrightarrow> says f s x) \<Longrightarrow> (\<not> b \<Longrightarrow> says f s y) \<Longrightarrow> says f s (if b then x else y)"
  by simp

lemma says_from: "says f t r \<Longrightarrow> talks s t \<Longrightarrow> says f s r"
  by (auto simp: says_def intro: talks_trans)

lemma says_send: "\<not> is_status (m_type m) \<Longrightarrow> says snd s (send_message p m s)"
  by (auto simp: says_def intro: talks_send)

lemma says_send_from: "\<not> is_status (m_type m) \<Longrightarrow> talks s t \<Longrightarrow> says snd s (send_message p m t)"
  by (rule says_from [OF says_send])

lemma says_guard: "says (\<lambda>s. s) s (guard_live ps s)"
  by (simp add: guard_live_def)

lemma says_accrue: "says (\<lambda>s. s) s (accrue_running_usage g now e s)"
  by (auto simp: says_def dest: skel_accrue intro: talks_skel)

lemma says_window: "says snd s (check_and_reset_window g s)"
  by (auto simp: says_def dest: skel_check_window intro: talks_skel)

lemma says_can_run: "says snd s (can_run g p s)"
  by (auto simp: says_def dest: skel_can_run intro: talks_skel)

section \<open>Queues\<close>

lemma says_insert: "says (\<lambda>s. s) s (insert_req p s)"
  by (auto simp: insert_req_def says_def bindR_Inr_iff split: option.splits if_splits)

lemma says_preempt: "\<not> is_status (m_type m) \<Longrightarrow> says (\<lambda>s. s) s (preempt_loop m ps s)"
proof (induction ps arbitrary: s)
  case (Cons p ps)
  have "says (\<lambda>s. s) t (preempt_loop m ps (metrics_inc_drop_lock (upd_client p f (snd (current_time_ms t)))))" for t f
    by (rule says_from [OF Cons.IH [OF Cons.prems]]) simp
  with Cons show ?case by (auto simp: case_prod_beta Let_def intro!: says_bind_pair says_send says_if)
qed simp

lemma says_move: "says (\<lambda>s. s) s (move_to_wait_queue g p s)"
  by (auto simp: move_to_wait_queue_def Let_def guard_live_def intro!: says_bind_pair [OF says_send_from])

lemma says_check_loop: "says (\<lambda>s. s) s (check_wait_loop g pre ps s)"
proof (induction ps arbitrary: pre s)
  case (Cons p ps)
  then show ?case
    by (auto simp: Let_def intro!: says_bind_pair [OF says_can_run] says_if says_bind_pair [OF says_send_from])
qed simp

lemma says_check: "says (\<lambda>s. s) s (check_wait_queue g s)"
  by (simp add: check_wait_queue_def says_check_loop)

lemma says_leave: "says (\<lambda>s. s) s (leave_running g p rest s)"
  by (auto simp: leave_running_def Let_def case_prod_beta intro!: says_bind [OF says_from [OF says_accrue]])

lemma says_drop: "says (\<lambda>s. s) s (drop_pending g p s)"
  by (auto simp: drop_pending_def Let_def intro!: says_bind [OF says_guard])

lemma says_remove: assumes "\<And>g s. says (\<lambda>s. s) s (ts g s)" shows "says (\<lambda>s. s) s (remove_req ts p s)"
proof -
  have u: "says (\<lambda>s. s) t (bindR (check_wait_queue g (upd_gpu g f t)) (ts g))" for t g f
    by (rule says_bind [OF says_from [OF says_check] assms]) simp
  show ?thesis
  proof (cases "c_context (client s p)")
    case (Some g)
    show ?thesis unfolding remove_req_def Some option.case
    proof (rule says_bind_value, rule says_bind)
      fix found show "says (\<lambda>s. s) s (case found of None \<Rightarrow> Inr s | Some (a, b) \<Rightarrow> leave_running g p (a @ b) s)"
        by (auto split: option.split intro: says_leave)
    qed (rule says_bind [OF says_if], auto intro: says_drop u)
  qed (simp add: remove_req_def)
qed

lemma says_delete: assumes "\<And>g s. says (\<lambda>s. s) s (ts g s)" shows "says (\<lambda>s. s) s (delete_client ts p s)"
proof -
  have "says (\<lambda>s. s) t (remove_req ts p (metrics_inc_client_disconnect t))" for t
    by (rule says_from [OF says_remove [OF assms]]) simp
  then show ?thesis
    by (auto simp: delete_client_def Let_def intro!: says_bind [OF says_guard] says_bind)
qed

lemma says_schedule: "says (\<lambda>s. s) s (schedule_client g p s)"
  unfolding schedule_client_def case_prod_beta Let_def
  by (rule says_bind [OF says_if]) (auto intro: says_from [OF says_accrue])

lemma says_turn: assumes ts: "\<And>g s. says (\<lambda>s. s) s (ts g s)" shows "says (\<lambda>s. s) s (sched_turn ts g s)"
proof -
  have "says (\<lambda>s. s) t (case g_requests (gpu t g) of [] \<Rightarrow> Inr t
       | p # _ \<Rightarrow>
           bindR (can_run g p t) (\<lambda>(ok, s2).
             if \<not> ok then bindR (move_to_wait_queue g p s2) (ts g)
             else
               (let s3 = set_out_type LOCK_OK s2 in
                bindR (send_message p (s_out_msg s3) s3) (\<lambda>(sent, s4).
                  if \<not> sent then bindR (delete_client ts p s4) (ts g)
                  else bindR (schedule_client g p s4) (\<lambda>s5.
                    if cfg_scheduling_mode (s_config s5) \<noteq> SCHED_MODE_SERIAL
                    then ts g s5 else Inr s5)))))" for t
    by (auto simp: Let_def split: list.split intro!: says_bind_pair [OF says_can_run] says_bind [OF says_move]
        says_bind_pair [OF says_send_from] says_bind [OF says_delete] says_bind [OF says_schedule] ts)
  then show ?thesis unfolding sched_turn_def by (intro says_bind says_if says_check) simp_all
qed

lemma says_try: "says (\<lambda>s. s) s (try_schedule n g s)"
  by (induction n arbitrary: g s) (auto intro: says_turn)

section \<open>Messages, timer and annotations\<close>

lemma says_req: "says (\<lambda>s. s) s (handle_req_lock n p s)"
  by (auto simp: handle_req_lock_def split: option.split intro!: says_bind [OF says_insert] says_delete says_try)

lemma says_released: "says (\<lambda>s. s) s (handle_lock_released n p s)"
  by (auto simp: handle_lock_released_def split: option.split
      intro!: says_bind [OF says_remove] says_delete says_try)

lemma says_mem: "says (\<lambda>s. s) s (handle_mem_update p mem s)"
  by (auto simp: handle_mem_update_def Let_def force_preemption_def split: option.split
      intro!: says_from [OF says_preempt])

lemma says_drop_connection: "says (\<lambda>s. s) s (drop_connection n p s)"
  by (auto simp: drop_connection_def Let_def split: option.split
      intro!: says_bind [OF says_delete] says_try says_if)

lemma says_prepare: "timer_prepare n g rt s = Inr (tq, m, d, t) \<Longrightarrow> talks s t"
proof -
  assume "timer_prepare n g rt s = Inr (tq, m, d, t)"
  then obtain b s1 s2 where *: "check_and_reset_window g s = Inr (b, s1)"
    "(if b then try_schedule n g s1 else Inr s1) = Inr s2" "t = snd (current_time_ms s2)"
    by (auto simp: timer_prepare_def bindR_Inr_iff case_prod_beta Let_def guard_live_def split: if_splits)
  have "talks s s1" using says_window [of s g] * by (simp add: says_def)
  moreover have "talks s1 s2" using says_try [of s1 n g] * by (auto simp: says_def split: if_splits)
  ultimately show ?thesis using * talks_trans by simp
qed

lemma says_throttle: "says (\<lambda>s. s) s (throttle_loop g now n ps s)"
proof (induction ps arbitrary: s)
  case (Cons p ps)
  have "says (\<lambda>s. s) s (throttle_one g now n p s)"
    by (auto simp: throttle_one_def Let_def intro!: says_bind_pair [OF says_send_from])
  then show ?case using Cons by (auto intro!: says_bind)
qed simp

lemma says_rotate_loop: "says (\<lambda>s. s) s (rotate_loop now n ps s)"
proof (induction ps arbitrary: s)
  case (Cons p ps)
  have "says (\<lambda>s. s) s (rotate_one now n p s)"
    by (auto simp: rotate_one_def Let_def intro!: says_bind_pair [OF says_send_from])
  then show ?case using Cons by (auto intro!: says_bind)
qed simp

lemma says_rotate: "says (\<lambda>s. s) s (rotate g b m tq s)"
  by (auto simp: rotate_def case_prod_beta Let_def intro!: says_bind [OF says_from [OF says_guard]] says_rotate_loop)

lemma says_enforce: "says (\<lambda>s. s) s (timer_enforce g b m tq s)"
  by (auto simp: timer_enforce_def case_prod_beta Let_def
      intro!: says_bind [OF says_from [OF says_guard]] says_bind [OF says_throttle] says_bind [OF says_rotate])

lemma says_limits:
  "says snd s (send_update_limit p l s)" "says snd s (send_update_core_limit p c s)"
  by (simp_all add: send_update_limit_def send_update_core_limit_def says_send)

lemma says_memory_limit: "says (\<lambda>s. s) s (update_memory_limit oob v p s)"
  by (auto simp: update_memory_limit_def Let_def split: option.split
      intro!: says_bind_pair [OF says_from [OF says_limits(1)]])

lemma says_core_limit: "says (\<lambda>s. s) s (update_core_limit v p s)"
  by (auto simp: update_core_limit_def Let_def split: option.split
      intro!: says_bind_pair [OF says_from [OF says_limits(2)]])

lemma says_annotations: "says (\<lambda>s. s) s (apply_annotations annot oob info s)"
  by (auto simp: apply_annotations_def split: option.split prod.split
      intro!: says_bind [OF says_memory_limit] says_core_limit)

lemma talks_set_tq: "talks s (set_tq data s)"
proof -
  have "talks s (fold (\<lambda>g. upd_gpu g f) gs t) = talks s t" for gs f t
    by (induction gs arbitrary: t) simp_all
  then show ?thesis by (simp add: set_tq_def Let_def)
qed

section \<open>The answer to a registration\<close>

lemma get_or_create_world:
  "get_or_create_gpu_context u s = (g, t) \<Longrightarrow> \<exists>gm cs. t = s\<lparr>s_gmem := gm, s_contexts := cs\<rparr>"
proof (cases "List.find (\<lambda>g. strncmp_eq (g_uuid (gpu s g)) u NVSHARE_GPU_UUID_LEN) (s_contexts s)")
  case (Some h)
  then show "get_or_create_gpu_context u s = (g, t) \<Longrightarrow> ?thesis"
    by (intro exI [of _ "s_gmem s"] exI [of _ "s_contexts s"]) (simp add: get_or_create_gpu_context_def)
next
  case None
  then show "get_or_create_gpu_context u s = (g, t) \<Longrightarrow> ?thesis" by (auto simp: get_or_create_gpu_context_def Let_def)
qed

lemma register_answer:
  assumes "register_client annot cred oob n p m s = Inr (True, s')" "sends_ok s" "alive s p" "\<not> has_registered (client s p)"
  shows "\<exists>answer new. w_sent (s_world s') = new @ (c_fd (client s p), answer) # w_sent (s_world s)
    \<and> (\<forall>e \<in> set new. fst e = c_fd (client s p) \<and> m_type (snd e) = UPDATE_LIMIT)
    \<and> m_data answer = hex16 (c_id (client s' p)) \<and> m_type answer = sched_status s'
    \<and> m_core_limit answer = c_core_limit (client s' p) \<and> s_on s' = s_on s \<and> c_fd (client s' p) = c_fd (client s p)
    \<and> (\<exists>d t c. answer = (s_out_msg s)\<lparr>m_data := d, m_type := t, m_core_limit := c\<rparr>)
    \<and> c_core_limit (client s' p) = initial_core_limit (annot (c_pod_namespace (client s' p)) (c_pod_name (client s' p)) CORE_LIMIT_ANNOTATION)"
proof -
  obtain i s1 where i: "fresh_id n s = Inr (i, s1)"
    using assms(1,4) by (auto simp: register_client_def bindR_Inr_iff)
  obtain g s2 where g: "get_or_create_gpu_context (m_gpu_uuid m) s1 = (g, s2)" by fastforce
  obtain k where k: "s1 = s\<lparr>s_world := (s_world s)\<lparr>w_rand_n := k\<rparr>\<rparr>" using fresh_id_world [OF i] by blast
  obtain gm cs where gc: "s2 = s1\<lparr>s_gmem := gm, s_contexts := cs\<rparr>" using get_or_create_world [OF g] by blast
  define s4 where "s4 = (let s3 = upd_client p (registered annot cred i m g) s2 in
    s3\<lparr>s_out_msg := (s_out_msg s3)\<lparr>m_data := hex16 i, m_type := sched_status s3, m_core_limit := c_core_limit (client s3 p)\<rparr>\<rparr>)"
  define s5 where "s5 = sent_to p (s_out_msg s4) s4"
  have ok4: "sends_ok s4" "alive s4 p" using assms(2,3) by (simp_all add: s4_def gc k sends_ok_def alive_def Let_def upd_client_def)
  have lim: "sends_ok (upd_client p f s5)" "alive (upd_client p f s5) p" for f
    using ok4 by (simp_all add: s5_def sends_ok_def alive_def sent_to_def upd_client_def)
  have id4: "c_id (client s4 p) = i" "c_fd (client s4 p) = c_fd (client s p)" "s_on s4 = s_on s"
    "w_sent (s_world s4) = w_sent (s_world s)"
    "c_core_limit (client s4 p) = initial_core_limit (annot (c_pod_namespace (client s4 p)) (c_pod_name (client s4 p)) CORE_LIMIT_ANNOTATION)"
    by (simp_all add: s4_def Let_def upd_client_def registered_def gc k)
  have out: "m_data (s_out_msg s4) = hex16 i" "m_type (s_out_msg s4) = sched_status s4"
    "m_core_limit (s_out_msg s4) = c_core_limit (client s4 p)"
    "\<exists>d t c. s_out_msg s4 = (s_out_msg s)\<lparr>m_data := d, m_type := t, m_core_limit := c\<rparr>"
    by (auto simp: s4_def Let_def upd_client_def sched_status_def gc k)
  let ?rest = "case annot (c_pod_namespace (client s4 p)) (c_pod_name (client s4 p)) MEMORY_LIMIT_ANNOTATION of
      None \<Rightarrow> Inr (True, clear_out_data s5)
    | Some v \<Rightarrow> (let new_limit = parse_memory_size oob v in
        if new_limit > 0
        then bindR (send_update_limit p new_limit (upd_client p (\<lambda>c. c\<lparr>c_memory_limit := new_limit\<rparr>) s5))
               (\<lambda>(_, s6). Inr (True, clear_out_data s6))
        else Inr (True, clear_out_data s5))"
  have c4: "client (upd_client p (registered annot cred i m g) s2) p = client s4 p" by (simp add: s4_def Let_def upd_client_def)
  have "register_client annot cred oob n p m s = ?rest"
    unfolding register_client_def using assms(4)
    by (simp only: i g bindR_Inr prod.case Let_def c4 s4_def [symmetric, unfolded Let_def, unfolded c4] send_message_ok [OF ok4]
        s5_def [symmetric] if_False not_True_eq_False)
  then have "?rest = Inr (True, s')" using assms(1) by simp
  then have fin: "c_id (client s' p) = i \<and> c_fd (client s' p) = c_fd (client s4 p)
    \<and> c_core_limit (client s' p) = c_core_limit (client s4 p) \<and> s_on s' = s_on s4
    \<and> c_pod_name (client s' p) = c_pod_name (client s4 p) \<and> c_pod_namespace (client s' p) = c_pod_namespace (client s4 p)
    \<and> (\<exists>new. w_sent (s_world s') = new @ (c_fd (client s4 p), s_out_msg s4) # w_sent (s_world s4)
        \<and> (\<forall>e \<in> set new. fst e = c_fd (client s4 p) \<and> m_type (snd e) = UPDATE_LIMIT))"
    using id4(1) lim
    by (auto simp: s5_def send_update_limit_def send_message_ok sent_to_def clear_out_data_def upd_client_def Let_def
        split: option.splits if_splits)
  moreover have "sched_status s4 = sched_status s'" using fin by (simp add: sched_status_def)
  ultimately show ?thesis using out id4 by (auto intro!: exI [of _ "s_out_msg s4"])
qed

end
