(* ===== verification/SchedView.thy ===== *)
theory SchedView
  imports SchedLog
begin

text \<open>
  The scheduler as one of its clients sees it: whether the client runs, is queued or neither, and
  how many grants of the lock it is sent. Every step of the scheduler is \<open>steady\<close> for the clients
  whose message it does not handle: a client changes its standing only from queued to running, and
  then it is sent exactly one \<open>LOCK_OK\<close>.
\<close>

section \<open>Standing and grants\<close>

datatype standing = Out | Pending | Run

definition standing :: "sched_state \<Rightarrow> cptr \<Rightarrow> standing" where
  "standing s p =
     (case c_context (client s p) of
        None \<Rightarrow> Out
      | Some g \<Rightarrow> if p \<in> set (g_running_list (gpu s g)) then Run
                 else if p \<in> set (all_queued (queues g s)) then Pending else Out)"

text \<open>The messages written between two states, first one first, and the grants to a client among them.\<close>

definition sent_since :: "sched_state \<Rightarrow> sched_state \<Rightarrow> (int \<times> message) list" where
  "sent_since s s' = rev (take (length (w_sent (s_world s')) - length (w_sent (s_world s))) (w_sent (s_world s')))"

definition granted :: "sched_state \<Rightarrow> sched_state \<Rightarrow> cptr \<Rightarrow> nat" where
  "granted s s' p = length (filter (\<lambda>e. fst e = c_fd (client s' p) \<and> m_type (snd e) = LOCK_OK) (sent_since s s'))"

definition turn :: "standing \<Rightarrow> standing \<Rightarrow> nat \<Rightarrow> bool" where
  "turn a b k \<longleftrightarrow> b = a \<and> k = 0 \<or> a = Pending \<and> b = Run \<and> k = 1"

definition steady :: "sched_state \<Rightarrow> sched_state \<Rightarrow> cptr \<Rightarrow> bool" where
  "steady s s' q \<longleftrightarrow> c_id (client s' q) = c_id (client s q) \<and> c_context (client s' q) = c_context (client s q)
     \<and> turn (standing s q) (standing s' q) (granted s s' q)
     \<and> (\<forall>e \<in> set (sent_since s s'). fst e = c_fd (client s' q) \<longrightarrow> \<not> is_status (m_type (snd e)))"

text \<open>Contexts are never lost and keep their GPU; in serial mode at most one client runs on each.\<close>

definition contexts_kept :: "sched_state \<Rightarrow> sched_state \<Rightarrow> bool" where
  "contexts_kept s s' \<longleftrightarrow> set (s_contexts s) \<subseteq> set (s_contexts s')
     \<and> (\<forall>g \<in> set (s_contexts s). g_uuid (gpu s' g) = g_uuid (gpu s g))"

definition serial_ok :: "sched_state \<Rightarrow> bool" where
  "serial_ok s \<longleftrightarrow> cfg_scheduling_mode (s_config s) = SCHED_MODE_SERIAL \<longrightarrow>
     (\<forall>g \<in> set (s_contexts s). length (g_running_list (gpu s g)) \<le> 1)"

lemma sent_since_new: "w_sent (s_world s') = new @ w_sent (s_world s) \<Longrightarrow> sent_since s s' = rev new"
  by (simp add: sent_since_def)

lemma talks_new:
  assumes "talks s s'" obtains new where "w_sent (s_world s') = new @ w_sent (s_world s)" "sent_since s s' = rev new"
    "\<forall>e \<in> set (sent_since s s'). \<not> is_status (m_type (snd e))"
  using assms by (auto simp: talks_def sent_since_new)

lemma talks_no_status: "talks s s' \<Longrightarrow> e \<in> set (sent_since s s') \<Longrightarrow> \<not> is_status (m_type (snd e))"
  by (auto simp: talks_def sent_since_new)

text \<open>Grants counted in the log of grants.\<close>

lemma granted_log:
  assumes "w_sent (s_world s') = new @ w_sent (s_world s)" "grants s' = fds @ grants s"
  shows "granted s s' q = length (filter (\<lambda>fd. fd = c_fd (client s' q)) fds)"
proof -
  have "map fst (filter (\<lambda>(fd, m). m_type m = LOCK_OK) new) = fds"
    using assms by (simp add: grants_def)
  then have "length (filter (\<lambda>fd. fd = c_fd (client s' q)) fds)
      = length (filter (\<lambda>e. fst e = c_fd (client s' q) \<and> m_type (snd e) = LOCK_OK) new)"
    by (auto simp: filter_map o_def case_prod_beta conj_commute)
  then show ?thesis by (simp add: granted_def sent_since_new [OF assms(1)] rev_filter [symmetric])
qed

section \<open>Steps of one context\<close>

text \<open>A step on context \<open>g\<close> that leaves \<open>run\<close> of the running list and ends in scheduling passes: one grant
  goes to each client that is new in the running list.\<close>

lemma grew_granted:
  assumes w: "wf_state s'" "g \<in> set (s_contexts s')" and t: "talks s s'"
    and fd: "\<And>q. c_fd (client s' q) = c_fd (client s q)" and gr: "grew g run s s'" and q: "alive s' q"
  shows "granted s s' q = (if q \<in> set (g_running_list (gpu s' g)) - set run then 1 else 0)"
proof -
  obtain adm where adm: "g_running_list (gpu s' g) = run @ adm"
    "grants s' = rev (map (\<lambda>p. c_fd (client s p)) adm) @ grants s" using gr by (auto simp: grew_def)
  obtain new where new: "w_sent (s_world s') = new @ w_sent (s_world s)" using talks_new [OF t] by metis
  have d: "distinct (run @ adm)" using wf_distinct_all [OF w] adm(1) by (auto simp: all_queued_def queues_def)
  have al: "alive s' p" if "p \<in> set adm" for p
    using wf_queued(1) [OF w, of p] that adm(1) by (auto simp: all_queued_def queues_def)
  have "c_fd (client s p) = c_fd (client s' q) \<longleftrightarrow> p = q" if "p \<in> set adm" for p
    using w(1) al [OF that] q fd by (auto simp: wf_state_def inj_on_def alive_def)
  then have "filter (\<lambda>p. c_fd (client s p) = c_fd (client s' q)) adm = filter (\<lambda>p. p = q) adm" by (auto intro: filter_cong)
  moreover have "length (filter (\<lambda>p. p = q) adm) = card (set adm \<inter> {q})"
    using d distinct_card [of "filter (\<lambda>p. p = q) adm"] by (simp add: Int_def conj_commute)
  ultimately have "granted s s' q = card (set adm \<inter> {q})"
    by (simp add: granted_log [OF new adm(2)] filter_map o_def rev_filter [symmetric])
  then show ?thesis using d adm(1) by auto
qed

text \<open>The clients in \<open>P\<close> are the ones that the step is about.\<close>

lemma grew_steady:
  assumes w: "wf_state s'" "g \<in> set (s_contexts s')" and t: "talks s s'"
    and ids: "\<And>q. c_fd (client s' q) = c_fd (client s q) \<and> c_id (client s' q) = c_id (client s q)
      \<and> c_context (client s' q) = c_context (client s q)"
    and others: "\<And>h. h \<noteq> g \<Longrightarrow> gpu s' h = gpu s h" and gr: "grew g run s s'"
    and run: "set run - P = set (g_running_list (gpu s g)) - P"
    and all: "set (all_queued (queues g s')) - P = set (all_queued (queues g s)) - P"
    and q: "alive s' q" "q \<notin> P"
  shows "steady s s' q"
proof -
  have k: "granted s s' q = (if q \<in> set (g_running_list (gpu s' g)) - set run then 1 else 0)"
    using ids by (intro grew_granted [OF w t _ gr q(1)]) simp
  have sub: "set run \<subseteq> set (g_running_list (gpu s' g))" "set (g_running_list (gpu s' g)) \<subseteq> set (all_queued (queues g s'))"
    using gr by (auto simp: grew_def all_queued_def queues_def)
  have "turn (standing s q) (standing s' q) (granted s s' q)"
  proof (cases "c_context (client s q) = Some g")
    case True
    have "q \<in> set run \<longleftrightarrow> q \<in> set (g_running_list (gpu s g))"
      and "q \<in> set (all_queued (queues g s')) \<longleftrightarrow> q \<in> set (all_queued (queues g s))" using run all q(2) by auto
    then show ?thesis using True ids k sub by (auto simp: turn_def standing_def)
  next
    case False
    then have "q \<notin> set (g_running_list (gpu s' g))" using wf_queued(2) [OF w, of q] sub(2) ids by auto
    moreover have "standing s' q = standing s q"
      using False ids others by (auto simp: standing_def queues_def split: option.split)
    ultimately show ?thesis using k by (simp add: turn_def)
  qed
  then show ?thesis using ids talks_no_status [OF t] by (simp add: steady_def)
qed

lemma grew_serial:
  assumes "serial_ok s" "grew g run s s'" "length run \<le> length (g_running_list (gpu s g))" "g \<in> set (s_contexts s)"
    "s_config s' = s_config s" "s_contexts s' = s_contexts s" "\<And>h. h \<noteq> g \<Longrightarrow> gpu s' h = gpu s h"
  shows "serial_ok s'"
  unfolding serial_ok_def
proof (intro impI ballI)
  fix h assume m: "cfg_scheduling_mode (s_config s') = SCHED_MODE_SERIAL" and h: "h \<in> set (s_contexts s')"
  obtain adm where adm: "g_running_list (gpu s' g) = run @ adm"
    "cfg_scheduling_mode (s_config s) = SCHED_MODE_SERIAL \<longrightarrow> length adm \<le> (if run = [] then 1 else 0)"
    using assms(2) by (auto simp: grew_def)
  have "length (g_running_list (gpu s g)) \<le> 1" using assms(1,4,5) m by (simp add: serial_ok_def)
  then have "length run \<le> 1" using assms(3) by linarith
  then have "length (g_running_list (gpu s' g)) \<le> 1" using adm m assms(5) by (cases run) auto
  then show "length (g_running_list (gpu s' h)) \<le> 1"
    using assms m h by (cases "h = g") (auto simp: serial_ok_def)
qed

text \<open>Steps that leave all queues alone.\<close>

lemma same_steady:
  assumes t: "talks s s'" and gr: "grants s' = grants s" and q: "\<And>g. queues g s' = queues g s"
    and ids: "c_id (client s' p) = c_id (client s p)" "c_context (client s' p) = c_context (client s p)"
  shows "steady s s' p"
proof -
  obtain new where "w_sent (s_world s') = new @ w_sent (s_world s)" using talks_new [OF t] by metis
  then have "granted s s' p = 0" using granted_log [of s' new s "[]" p] gr by simp
  moreover have "g_running_list (gpu s' g) = g_running_list (gpu s g)" for g using q [of g] by (simp add: queues_def)
  then have "standing s' p = standing s p" by (simp add: standing_def ids q split: option.split)
  ultimately show ?thesis using ids talks_no_status [OF t] by (simp add: steady_def turn_def)
qed

lemma same_serial:
  "(\<And>g. queues g s' = queues g s) \<Longrightarrow> s_contexts s' = s_contexts s \<Longrightarrow> s_config s' = s_config s \<Longrightarrow> serial_ok s' = serial_ok s"
  by (simp add: serial_ok_def queues_def)

lemma ident_steady:
  assumes i: "ident s s'" and t: "talks s s'" shows "steady s s' q" "contexts_kept s s'" "serial_ok s \<Longrightarrow> serial_ok s'"
proof -
  have q: "queues g s' = queues g s" for g using i by (simp add: ident_def)
  show "steady s s' q" by (rule same_steady [OF t _ q]) (use i in \<open>simp_all add: ident_def\<close>)
  show "contexts_kept s s'" using i by (simp add: contexts_kept_def ident_def)
  show "serial_ok s \<Longrightarrow> serial_ok s'" using i by (subst same_serial [of s' s]) (simp_all add: ident_def)
qed

lemma frame_steady:
  assumes w: "wf_state s'" and g: "g \<in> set (s_contexts s)" and f: "frame g s s'" and t: "talks s s'"
    and gr: "grew g (g_running_list (gpu s g)) s s'" and m: "mset (all_queued (queues g s')) = mset (all_queued (queues g s))"
  shows "alive s q \<Longrightarrow> steady s s' q" "contexts_kept s s'" "serial_ok s \<Longrightarrow> serial_ok s'"
proof -
  note e = frame_simps [OF f]
  show "steady s s' q" if "alive s q"
    by (rule grew_steady [OF w _ t _ _ gr, where P = "{}"]) (use g e mset_eq_setD [OF m] that in auto)
  show "contexts_kept s s'" using e by (simp add: contexts_kept_def)
  show "serial_ok s'" if "serial_ok s" by (rule grew_serial [OF that gr]) (use g e in auto)
qed

section \<open>Requests, releases and departures\<close>

text \<open>What a step that handles a message of \<open>p\<close> means to everybody else.\<close>

definition bystanders :: "cptr \<Rightarrow> sched_state \<Rightarrow> sched_state \<Rightarrow> bool" where
  "bystanders p s s' \<longleftrightarrow> s_on s' = s_on s \<and> (\<forall>q. alive s q \<longrightarrow> q \<noteq> p \<longrightarrow> alive s' q \<and> steady s s' q) \<and> contexts_kept s s'
     \<and> (serial_ok s \<longrightarrow> serial_ok s') \<and> (uuids_ok s \<longrightarrow> uuids_ok s')"

lemma talks_on: "talks s s' \<Longrightarrow> s_on s' = s_on s"
  by (simp add: talks_def)

lemma uuids_kept: "s_contexts s' = s_contexts s \<Longrightarrow> \<forall>h. g_uuid (gpu s' h) = g_uuid (gpu s h) \<Longrightarrow> uuids_ok s \<Longrightarrow> uuids_ok s'"
  by (simp add: uuids_ok_def)

lemma inv_split: "sched_inv s \<Longrightarrow> wf_state s \<and> ids_ok s \<and> sends_ok s"
  by (simp add: sched_inv_def)

lemma registered_context:
  assumes "sched_inv s" "alive s p" "has_registered (client s p)"
  obtains g where "c_context (client s p) = Some g" "g \<in> set (s_contexts s)"
  using assms wf_context [of s p] by (auto simp: sched_inv_def ids_ok_def list_all_iff alive_def)

lemma out_unqueued:
  assumes "sched_inv s" "standing s p = Out" "g \<in> set (s_contexts s)" shows "p \<notin> set (all_queued (queues g s))"
proof
  assume p: "p \<in> set (all_queued (queues g s))"
  then have "c_context (client s p) = Some g" using wf_queued(2) assms(1,3) by (simp add: sched_inv_def)
  then show False using assms(2) p by (simp add: standing_def split: if_splits)
qed

lemma request_view:
  assumes v: "sched_inv s" and p: "alive s p" "has_registered (client s p)" "standing s p = Out" and on: "s_on s"
    and n: "enough_fuel n s" and h: "handle_req_lock n p s = Inr s'"
  shows "bystanders p s s'" "sched_inv s'" "s_clients s' = s_clients s" "has_registered (client s' p)"
    "c_context (client s' p) = c_context (client s p)"
    "standing s' p = Pending \<and> granted s s' p = 0 \<or> standing s' p = Run \<and> granted s s' p = 1"
proof -
  obtain g where g: "c_context (client s p) = Some g" "g \<in> set (s_contexts s)" by (rule registered_context [OF v p(1,2)])
  have w: "wf_state s" "ids_ok s" "sends_ok s" using v by (simp_all add: sched_inv_def)
  have nq: "p \<notin> set (all_queued (queues g s))" by (rule out_unqueued [OF v p(3) g(2)])
  have *: "wf_state s'" "sends_ok s'" "frame g s s'" "mset (all_queued (queues g s')) = add_mset p (mset (all_queued (queues g s)))"
    "grew g (g_running_list (gpu s g)) s s'"
    using handle_req_lock_correct [OF w(1,3) on p(1,2) g(1) nq enough_fuelD(1) [OF n g(2)]] h by auto
  note e = frame_simps [OF *(3)]
  have t: "talks s s'" using says_req [of s n p] h by (simp add: says_def)
  have sq: "set (all_queued (queues g s')) = insert p (set (all_queued (queues g s)))" using mset_eq_setD [of "all_queued (queues g s')" "p # all_queued (queues g s)"] *(4) by simp
  have g': "g \<in> set (s_contexts s')" using g(2) e by simp
  have "steady s s' q" if "alive s q" "q \<noteq> p" for q
    by (rule grew_steady [OF *(1) g' t _ _ *(5), where P = "{p}"]) (use e sq that in auto)
  moreover have "serial_ok s \<Longrightarrow> serial_ok s'" by (rule grew_serial [OF _ *(5)]) (use g e in auto)
  ultimately show "bystanders p s s'"
    using e talks_on [OF t] uuids_kept [of s' s] by (simp add: bystanders_def contexts_kept_def)
  show "sched_inv s'" using * ids_frame [OF *(3) w(2)] by (simp add: sched_inv_def)
  show "s_clients s' = s_clients s" "has_registered (client s' p)" "c_context (client s' p) = c_context (client s p)"
    using e p(2) by (simp_all add: has_registered_def)
  have "granted s s' p = (if p \<in> set (g_running_list (gpu s' g)) - set (g_running_list (gpu s g)) then 1 else 0)"
    using e p(1) by (intro grew_granted [OF *(1) g' t _ *(5)]) simp_all
  moreover have "p \<notin> set (g_running_list (gpu s g))" using nq by (simp add: all_queued_def queues_def)
  ultimately show "standing s' p = Pending \<and> granted s s' p = 0 \<or> standing s' p = Run \<and> granted s s' p = 1"
    using g(1) e sq by (simp add: standing_def)
qed

lemma release_view:
  assumes v: "sched_inv s" and p: "alive s p" "has_registered (client s p)" "standing s p = Run" and on: "s_on s"
    and n: "enough_fuel n s" and h: "handle_lock_released n p s = Inr s'"
  shows "bystanders p s s'" "sched_inv s'" "s_clients s' = s_clients s" "has_registered (client s' p)"
    "c_context (client s' p) = c_context (client s p)" "standing s' p = Out \<and> granted s s' p = 0"
proof -
  obtain g where g: "c_context (client s p) = Some g" "g \<in> set (s_contexts s)" by (rule registered_context [OF v p(1,2)])
  have w: "wf_state s" "ids_ok s" "sends_ok s" using v by (simp_all add: sched_inv_def)
  have r: "p \<in> set (g_running_list (gpu s g))" using p(3) g(1) by (simp add: standing_def split: if_splits)
  then have rm: "removable g p s" by (auto simp: removable_def)
  have *: "wf_state s'" "sends_ok s'" "frame g s s'" "mset (all_queued (queues g s')) = mset (all_queued (queues g s)) - {#p#}"
    "grew g (remove1 p (g_running_list (gpu s g))) s s'"
    using handle_lock_released_correct [OF w(1,3) on p(1,2) g(1) rm enough_fuelD(2) [OF n g(2)]] h by auto
  note e = frame_simps [OF *(3)]
  have t: "talks s s'" using says_released [of s n p] h by (simp add: says_def)
  have d: "distinct (all_queued (queues g s))" by (rule wf_distinct_all [OF w(1) g(2)])
  then have dr: "distinct (g_running_list (gpu s g))" by (simp add: all_queued_def queues_def)
  have sq: "set (all_queued (queues g s')) = set (all_queued (queues g s)) - {p}"
    using mset_eq_setD [of "all_queued (queues g s')" "remove1 p (all_queued (queues g s))"] *(4) d by simp
  have g': "g \<in> set (s_contexts s')" using g(2) e by simp
  have "steady s s' q" if "alive s q" "q \<noteq> p" for q
    by (rule grew_steady [OF *(1) g' t _ _ *(5), where P = "{p}"]) (use e sq dr that in auto)
  moreover have "serial_ok s \<Longrightarrow> serial_ok s'" by (rule grew_serial [OF _ *(5)]) (use g e in \<open>auto simp: length_remove1\<close>)
  ultimately show "bystanders p s s'"
    using e talks_on [OF t] uuids_kept [of s' s] by (simp add: bystanders_def contexts_kept_def)
  show "sched_inv s'" using * ids_frame [OF *(3) w(2)] by (simp add: sched_inv_def)
  show "s_clients s' = s_clients s" "has_registered (client s' p)" "c_context (client s' p) = c_context (client s p)"
    using e p(2) by (simp_all add: has_registered_def)
  have nq: "p \<notin> set (all_queued (queues g s'))" "p \<notin> set (g_running_list (gpu s' g))"
    using sq by (auto simp: all_queued_def queues_def)
  have "granted s s' p = 0" using e p(1) nq by (subst grew_granted [OF *(1) g' t _ *(5)]) simp_all
  then show "standing s' p = Out \<and> granted s s' p = 0" using g(1) e nq by (simp add: standing_def)
qed

lemma departure_view:
  assumes v: "sched_inv s" and p: "alive s p" "may_leave s p" and n: "enough_fuel n s" and h: "drop_connection n p s = Inr s'"
  shows "bystanders p s s'" "sched_inv s'" "s_clients s' = remove1 p (s_clients s)"
proof -
  have w: "wf_state s" "ids_ok s" "sends_ok s" using v by (simp_all add: sched_inv_def)
  have *: "wf_state s'" "sends_ok s'" "s_clients s' = remove1 p (s_clients s)" "s_contexts s' = s_contexts s"
    "s_config s' = s_config s" "dequeued p s s'"
    and ids: "\<And>q. c_id (client s' q) = c_id (client s q) \<and> c_context (client s' q) = c_context (client s q)
         \<and> c_fd (client s' q) = c_fd (client s q)"
    using drop_connection_correct [OF w(1,3) p n] h by auto
  have t: "talks s s'" using says_drop_connection [of s n p] h by (simp add: says_def)
  have al: "alive s' q" if "alive s q" "q \<noteq> p" for q using that *(3) by (simp add: alive_def)
  have "(alive s' q \<longrightarrow> q \<noteq> p \<longrightarrow> steady s s' q) \<and> (serial_ok s \<longrightarrow> serial_ok s')" for q
  proof (cases "c_context (client s p)")
    case None
    then have same: "queues h s' = queues h s" "grants s' = grants s" for h using *(6) by (simp_all add: dequeued_def queues_def)
    then show ?thesis using same_steady [OF t same(2,1)] same_serial [OF same(1)] ids * by simp
  next
    case (Some g)
    have g: "g \<in> set (s_contexts s)" by (rule wf_context [OF w(1) p(1) Some])
    have gr: "grew g (remove1 p (g_running_list (gpu s g))) s s'"
      and mq: "mset (all_queued (queues g s')) = mset (all_queued (queues g s)) - {#p#}"
      and o: "\<And>h. h \<noteq> g \<Longrightarrow> gpu s' h = gpu s h" using *(6) Some by (auto simp: dequeued_def)
    have d: "distinct (all_queued (queues g s))" by (rule wf_distinct_all [OF w(1) g])
    then have dr: "distinct (g_running_list (gpu s g))" by (simp add: all_queued_def queues_def)
    have sq: "set (all_queued (queues g s')) = set (all_queued (queues g s)) - {p}"
      using mset_eq_setD [of "all_queued (queues g s')" "remove1 p (all_queued (queues g s))"] mq d by simp
    have "steady s s' q" if "alive s' q" "q \<noteq> p"
      by (rule grew_steady [OF *(1) _ t _ o gr, where P = "{p}"]) (use g * ids sq dr that in auto)
    moreover have "serial_ok s \<longrightarrow> serial_ok s'"
      by (intro impI grew_serial [OF _ gr]) (use g * o in \<open>auto simp: length_remove1\<close>)
    ultimately show ?thesis by blast
  qed
  moreover have "contexts_kept s s'" "\<forall>h. g_uuid (gpu s' h) = g_uuid (gpu s h)"
    using * by (simp_all add: contexts_kept_def dequeued_def)
  ultimately show "bystanders p s s'"
    using al *(4) talks_on [OF t] uuids_kept [of s' s] by (simp add: bystanders_def)
  show "sched_inv s'" using * ids_remove1 [OF w(2) *(3)] ids by (simp add: sched_inv_def)
  show "s_clients s' = remove1 p (s_clients s)" by (rule *(3))
qed

text \<open>Registration: the new client stands outside of all queues, belongs to the context of the GPU that it
  named, and is told the status of the scheduler, once.\<close>

definition named :: "sched_state \<Rightarrow> cptr \<Rightarrow> string \<Rightarrow> bool" where
  "named s p uuid \<longleftrightarrow> (\<exists>g \<in> set (s_contexts s). c_context (client s p) = Some g
     \<and> strncmp_eq (g_uuid (gpu s g)) uuid NVSHARE_GPU_UUID_LEN)"

lemma named_kept:
  "named s p uuid \<Longrightarrow> contexts_kept s s' \<Longrightarrow> c_context (client s' p) = c_context (client s p) \<Longrightarrow> named s' p uuid"
  by (auto simp: named_def contexts_kept_def)

lemma enrolled_standing:
  assumes v: "sched_inv s" "sched_inv s'" and e: "enrolled p s s'" and c: "c_context (client s p) = None" and q: "alive s q"
  shows "standing s' q = standing s q"
proof -
  have w: "wf_state s" "wf_state s'" using v by (simp_all add: sched_inv_def)
  have kept: "queues h s' = queues h s" if "h \<in> set (s_contexts s)" for h using e that by (simp add: enrolled_def)
  show ?thesis
  proof (cases "q = p")
    case True
    have "q \<notin> set (all_queued (queues g s'))" if g: "c_context (client s' q) = Some g" for g
    proof (cases "g \<in> set (s_contexts s)")
      case True
      then show ?thesis using kept [OF True] wf_queued(2) [OF w(1) True, of q] c \<open>q = p\<close> by auto
    next
      case False
      have "alive s' q" using q e by (simp add: alive_def enrolled_def)
      then have "g \<in> set (s_contexts s')" using wf_context [OF w(2) _ g] by simp
      then show ?thesis using e False by (simp add: enrolled_def all_queued_def)
    qed
    then show ?thesis using True c by (auto simp: standing_def all_queued_def queues_def split: option.split)
  next
    case False
    then have cq: "c_context (client s' q) = c_context (client s q)" using e by (simp add: enrolled_def)
    then show ?thesis
    proof (cases "c_context (client s q)")
      case (Some g)
      have "queues g s' = queues g s" by (rule kept [OF wf_context [OF w(1) q Some]])
      then show ?thesis using Some cq by (simp add: standing_def queues_def)
    qed (simp add: standing_def)
  qed
qed

lemma register_view:
  assumes v: "sched_inv s" and p: "alive s p" "\<not> has_registered (client s p)" and on: "s_on s"
    and u: "str_fits NVSHARE_GPU_UUID_LEN (m_gpu_uuid m)" and r: "register_client annot cred oob n p m s = Inr (b, s')"
  shows "b" "bystanders p s s'" "sched_inv s'" "s_clients s' = s_clients s" "has_registered (client s' p)"
    "standing s' p = Out" "named s' p (m_gpu_uuid m)" "c_fd (client s' p) = c_fd (client s p)"
    "\<exists>answer new. sent_since s s' = (c_fd (client s p), answer) # new \<and> m_type answer = SCHED_ON
      \<and> (\<forall>e \<in> set new. m_type (snd e) = UPDATE_LIMIT)"
proof -
  have w: "wf_state s" "ids_ok s" "sends_ok s" using v by (simp_all add: sched_inv_def)
  obtain i s1 where i: "fresh_id n s = Inr (i, s1)" using r p(2) by (auto simp: register_client_def bindR_Inr_iff)
  obtain g where *: "b" "wf_state s'" "ids_ok s'" "sends_ok s'" "c_id (client s' p) = i" "c_context (client s' p) = Some g"
    "g \<in> set (s_contexts s')" "strncmp_eq (g_uuid (gpu s' g)) (m_gpu_uuid m) NVSHARE_GPU_UUID_LEN" "enrolled p s s'"
    using register_client_correct [OF w p i u, of annot cred oob] r by auto
  then show b "sched_inv s'" "named s' p (m_gpu_uuid m)" by (auto simp: sched_inv_def named_def)
  note v' = \<open>sched_inv s'\<close>
  show sc: "s_clients s' = s_clients s" using *(9) by (simp add: enrolled_def)
  show "has_registered (client s' p)" using fresh_id_correct [OF i] *(5) by (simp add: has_registered_def)
  obtain answer new where a: "w_sent (s_world s') = new @ (c_fd (client s p), answer) # w_sent (s_world s)"
    "\<forall>e \<in> set new. fst e = c_fd (client s p) \<and> m_type (snd e) = UPDATE_LIMIT" "m_type answer = sched_status s'"
    "s_on s' = s_on s" "c_fd (client s' p) = c_fd (client s p)"
    using register_answer [of annot cred oob n p m s s'] r *(1) w(3) p by auto
  show "c_fd (client s' p) = c_fd (client s p)" by (rule a(5))
  have since: "sent_since s s' = (c_fd (client s p), answer) # rev new"
    using a(1) by (simp add: sent_since_new [of s' "new @ [(c_fd (client s p), answer)]"])
  show "\<exists>answer new. sent_since s s' = (c_fd (client s p), answer) # new \<and> m_type answer = SCHED_ON
      \<and> (\<forall>e \<in> set new. m_type (snd e) = UPDATE_LIMIT)"
    using since a(2,3,4) on by (auto simp: sched_status_def)
  have c: "c_context (client s p) = None" using w(2) p by (auto simp: ids_ok_def list_all_iff alive_def)
  note st = enrolled_standing [OF v v' *(9) c]
  show "standing s' p = Out" using st [OF p(1)] c by (simp add: standing_def)
  have "steady s s' q" if q: "alive s q" "q \<noteq> p" for q
  proof -
    have fd: "c_fd (client s' q) \<noteq> c_fd (client s p)"
      using w(1) q p(1) *(9) by (auto simp: wf_state_def inj_on_def alive_def enrolled_def)
    then have "\<forall>e \<in> set (sent_since s s'). fst e \<noteq> c_fd (client s' q)" using since a(2) by auto
    then show ?thesis using st [OF q(1)] *(9) q(2)
      by (simp add: steady_def granted_def turn_def enrolled_def)
  qed
  moreover have "serial_ok s \<longrightarrow> serial_ok s'"
  proof (intro impI)
    assume s: "serial_ok s"
    have "length (g_running_list (gpu s' h)) \<le> 1"
      if "cfg_scheduling_mode (s_config s) = SCHED_MODE_SERIAL" "h \<in> set (s_contexts s')" for h
      using s that *(9) by (cases "h \<in> set (s_contexts s)") (auto simp: serial_ok_def enrolled_def queues_def)
    then show "serial_ok s'" using *(9) by (simp add: serial_ok_def enrolled_def)
  qed
  ultimately show "bystanders p s s'"
    using a(4) sc *(9) by (auto simp: bystanders_def alive_def contexts_kept_def enrolled_def)
qed

section \<open>An idle GPU\<close>

text \<open>A client without a compute limit that asks for an idle GPU without other requests is granted the
  lock at once, unless clients run concurrently and the memory does not suffice.\<close>

lemma head_granted:
  assumes w: "wf_state s" "sends_ok s" "g \<in> set (s_contexts s)" and r: "g_requests (gpu s g) = p # rs"
    and ad: "admissible g p s" and t: "try_schedule n g s = Inr s'" and n: "sched_measure g s < n"
  shows "p \<in> set (g_running_list (gpu s' g))"
proof -
  obtain k where k: "n = Suc k" using n by (cases n) auto
  obtain s1 where s1: "can_run g p s = Inr (True, s1)" "skel s1 = skel s" "works g s [] s1" "admissible g p s1"
    using wf_can_run_admits [OF w(1,3) _ ad] r by auto
  have q: "g_requests (gpu s1 g) = p # rs" "g_wait_queue (gpu s1 g) = g_wait_queue (gpu s g)"
    using r by (simp_all add: skel_simps [OF s1(2)])
  note f1 = works_fields [OF s1(3)] and w1 = works_wf [OF w(1,3) s1(3)]
  have g1: "g \<in> set (s_contexts s1)" "sends_ok s1" using f1 w by simp_all
  have mem: "can_run_with_memory g p s1" using s1(4) by (simp add: admissible_def)
  obtain s2 where s2: "bindR (send_message p ((s_out_msg s1)\<lparr>m_type := LOCK_OK\<rparr>) (set_out_type LOCK_OK s1))
      (\<lambda>(sent, s4). if \<not> sent then bindR (delete_client (try_schedule k) p s4) (try_schedule k g)
         else bindR (schedule_client g p s4) (\<lambda>s5. if cfg_scheduling_mode (s_config s5) \<noteq> SCHED_MODE_SERIAL
             then try_schedule k g s5 else Inr s5))
      = (if cfg_scheduling_mode (s_config s2) \<noteq> SCHED_MODE_SERIAL then try_schedule k g s2 else Inr s2)"
    "works g s1 [p] s2" "g_requests (gpu s2 g) = rs" "g_wait_queue (gpu s2 g) = g_wait_queue (gpu s1 g)"
    using grant_step [OF w1 g1(2,1) q(1) mem] .
  have run: "p \<in> set (g_running_list (gpu s2 g))" using s2(2) by (simp add: works_def)
  have t2: "(if cfg_scheduling_mode (s_config s2) \<noteq> SCHED_MODE_SERIAL then try_schedule k g s2 else Inr s2) = Inr s'"
    using t s2(1) by (simp add: k sched_turn_def r s1(1) Let_def)
  show ?thesis
  proof (cases "cfg_scheduling_mode (s_config s2) = SCHED_MODE_SERIAL")
    case False
    note f2 = works_fields [OF s2(2)]
    have "sched_measure g s2 < k" using n r s2(3,4) q(2) by (simp add: sched_measure_def k)
    then obtain adm s3 where "try_schedule k g s2 = Inr s3" "works g s2 adm s3"
      using try_schedule_correct [OF works_wf [OF w1 g1(1) s2(2)], of g k] f2 g1 by auto
    then show ?thesis using t2 False run by (simp add: works_def)
  qed (use t2 run in simp)
qed

lemma idle_request_granted:
  assumes v: "sched_inv s" and p: "alive s p" "has_registered (client s p)" "standing s p = Out" and on: "s_on s"
    and n: "enough_fuel n s" and h: "handle_req_lock n p s = Inr s'"
    and g: "c_context (client s p) = Some g" "g_requests (gpu s g) = []" "g_running_list (gpu s g) = []"
    and a: "cfg_scheduling_mode (s_config s) \<noteq> SCHED_MODE_CONCURRENT" "100 \<le> c_core_limit (client s p)"
  shows "standing s' p = Run \<and> granted s s' p = 1"
proof -
  have w: "wf_state s" "sends_ok s" using v by (simp_all add: sched_inv_def)
  have gc: "g \<in> set (s_contexts s)" by (rule wf_context [OF w(1) p(1) g(1)])
  have nq: "p \<notin> set (all_queued (queues g s))" by (rule out_unqueued [OF v p(3) gc])
  let ?s1 = "upd_gpu g (\<lambda>x. x\<lparr>g_requests := g_requests x @ [p]\<rparr>) s"
  note i = insert_req_correct [OF w(1) p(1) g(1) nq]
  note f = frame_simps [OF i(3)]
  have lh: "\<not> g_lock_held (gpu s g)" using wf_gpu [OF w(1) gc] g(3) by (simp add: gpu_wf_def Let_def)
  have t: "try_schedule n g ?s1 = Inr s'"
    using h p(2) on g(1) i(1) lh by (auto simp: handle_req_lock_def split: if_splits)
  have "admissible g p ?s1"
    using a lh by (auto simp: admissible_def quota_ok_def can_run_with_memory_def Let_def split: scheduling_mode.split)
  moreover have "sched_measure g ?s1 < n" using enough_fuelD(1) [OF n gc] by (simp add: sched_measure_def)
  ultimately have "p \<in> set (g_running_list (gpu s' g))"
    using head_granted [OF i(2) _ _ _ _ t, of p "[]"] w(2) gc g(2) f by simp
  moreover have "c_context (client s' p) = Some g" using request_view(5) [OF v p on n h] g(1) by simp
  ultimately have "standing s' p = Run" by (simp add: standing_def)
  then show ?thesis using request_view(6) [OF v p on n h] by auto
qed

end
