(* ===== verification/LibState.thy ===== *)
theory LibState
  imports Comm Strtod
begin

text \<open>
  The state of the interposer library libnvshare (src/hook.c, src/client.c): the globals of both
  files in one record, with the CUDA driver, NVML, the clocks and the socket behind it. The driver
  and NVML are not part of the repository: they are the record \<open>driver\<close> of functions that give the
  outcome of the k-th call the library makes, and nothing is assumed about them here.
\<close>

datatype CUresult = CUDA_SUCCESS | CUDA_ERROR_OUT_OF_MEMORY | CUDA_ERROR_NOT_INITIALIZED | CUDA_ERROR_UNKNOWN
  | CUDA_ERROR_CODE nat

datatype CUmem_advise = CU_MEM_ADVISE_SET_READ_MOSTLY | CU_MEM_ADVISE_UNSET_READ_MOSTLY
  | CU_MEM_ADVISE_SET_PREFERRED_LOCATION | CU_MEM_ADVISE_UNSET_PREFERRED_LOCATION | CU_MEM_ADVISE_SET_ACCESSED_BY
  | CU_MEM_ADVISE_UNSET_ACCESSED_BY

type_synonym CUdeviceptr = "64 word"

text \<open>What a symbol lookup yields: a function of this library, or one of the driver.\<close>

datatype address = Interposed string | Driver string

record driver =
  dr_malloc :: "nat \<Rightarrow> size_t \<Rightarrow> CUresult \<times> CUdeviceptr"
  dr_free :: "nat \<Rightarrow> CUdeviceptr \<Rightarrow> CUresult"
  dr_info :: "nat \<Rightarrow> CUresult \<times> size_t \<times> size_t"
  dr_advise :: "nat \<Rightarrow> CUdeviceptr \<Rightarrow> size_t \<Rightarrow> CUmem_advise \<Rightarrow> CUresult"
  dr_set_current :: "nat \<Rightarrow> CUresult"
  dr_get_current :: "nat \<Rightarrow> CUresult \<times> nat option"
  dr_sync :: "nat \<Rightarrow> CUresult"
  dr_init :: "nat \<Rightarrow> CUresult"
  dr_work :: "nat \<Rightarrow> string \<Rightarrow> CUresult"
  dr_proc :: "nat \<Rightarrow> string \<Rightarrow> CUresult \<times> address option"
  dr_nvml_init :: "nat \<Rightarrow> bool"
  dr_nvml_handle :: "nat \<Rightarrow> string option \<Rightarrow> bool"
  dr_nvml_util :: "nat \<Rightarrow> nat option"
  dr_mono :: "nat \<Rightarrow> timespec"
  dr_time :: "nat \<Rightarrow> int"
  dr_write :: "nat \<Rightarrow> wcall list"

text \<open>\<open>l_real\<close> names the function pointers \<^verbatim>\<open>real_...\<close> that are not null; \<open>l_calls\<close> counts the calls into
  the environment; \<open>l_sent\<close> holds the messages written to the scheduler, newest first, with the
  number of bytes that the kernel took.\<close>

record lib_state =
  l_real :: "string list"
  l_nvml_ok :: bool
  l_mem_allocatable :: size_t
  l_got_max_mem_size :: bool
  l_sum_allocated :: size_t
  l_memory_limit :: size_t
  l_allocations :: "(CUdeviceptr \<times> size_t) list"
  l_kern_since_sync :: int
  l_pending_kernel_window :: int
  l_timeout_count :: int
  l_single_oversub :: bool
  l_sync_duration_big :: int
  l_window_min_floor :: int
  l_warmup_period_sec :: int
  l_debug :: bool
  l_scheduler_on :: bool
  l_own_lock :: bool
  l_need_lock :: bool
  l_did_work :: bool
  l_client_id :: uint64
  l_rsock :: int
  l_core_limit :: int
  l_lock_acquire_time :: int
  l_last_lock_ok_ms :: int
  l_drop_events :: "64 word"
  l_lock_to_drop_sum_ms :: int
  l_lock_to_drop_max_ms :: int
  l_drop_to_release_sum_ms :: int
  l_drop_to_release_max_ms :: int
  l_cuda_ctx :: "nat option"
  l_cuda_ctx_ok :: bool
  l_gpu_uuid :: string
  l_req_lock_msg :: message
  l_out_msg :: message
  l_drv :: driver
  l_calls :: nat
  l_sent :: "(message \<times> nat) list"

text \<open>The initialisers of the globals; the globals of client.c without one are zero.\<close>

definition lib_zero :: "driver \<Rightarrow> lib_state" where
  "lib_zero d = \<lparr>l_real = [], l_nvml_ok = True, l_mem_allocatable = 0, l_got_max_mem_size = False,
     l_sum_allocated = 0, l_memory_limit = 0, l_allocations = [], l_kern_since_sync = 0,
     l_pending_kernel_window = 64, l_timeout_count = 0, l_single_oversub = False, l_sync_duration_big = 10,
     l_window_min_floor = 4, l_warmup_period_sec = 30, l_debug = False, l_scheduler_on = False,
     l_own_lock = False, l_need_lock = False, l_did_work = False, l_client_id = 0, l_rsock = 0,
     l_core_limit = 100, l_lock_acquire_time = 0, l_last_lock_ok_ms = 0, l_drop_events = 0,
     l_lock_to_drop_sum_ms = 0, l_lock_to_drop_max_ms = 0, l_drop_to_release_sum_ms = 0,
     l_drop_to_release_max_ms = 0, l_cuda_ctx = None, l_cuda_ctx_ok = False, l_gpu_uuid = [],
     l_req_lock_msg = zero_message, l_out_msg = zero_message, l_drv = d, l_calls = 0, l_sent = []\<rparr>"

text \<open>One call into the environment: its number, and the state that has counted it.\<close>

definition tick :: "lib_state \<Rightarrow> nat \<times> lib_state" where
  "tick s = (l_calls s, s\<lparr>l_calls := Suc (l_calls s)\<rparr>)"

definition has_real :: "string \<Rightarrow> lib_state \<Rightarrow> bool" where
  "has_real f s \<longleftrightarrow> f \<in> set (l_real s)"

definition monotonic_time_ms :: "lib_state \<Rightarrow> int \<times> lib_state" where
  "monotonic_time_ms s =
     (let (k, s1) = tick s; ts = dr_mono (l_drv s) k in (tv_sec ts * 1000 + tv_nsec ts sdiv 1000000, s1))"

text \<open>A message that must reach the scheduler whole (\<^verbatim>\<open>true_or_exit(write_whole(...) == sizeof)\<close>), and
  one whose loss is only logged (\<^verbatim>\<open>nvshare_send_noblock\<close>). A write that never returns is \<open>OutOfFuel\<close>.\<close>

definition lib_send :: "message \<Rightarrow> lib_state \<Rightarrow> lib_state res" where
  "lib_send m s =
     (let (k, s1) = tick s in
      case write_whole (dr_write (l_drv s) k) (encode_message m) of
        None \<Rightarrow> Inl OutOfFuel
      | Some (Inl e, _, _) \<Rightarrow> Inl Exited
      | Some (Inr n, _, _) \<Rightarrow> if n = 659 then Inr (s1\<lparr>l_sent := (m, n) # l_sent s1\<rparr>) else Inl Exited)"

definition report_memory_usage_to_scheduler :: "size_t \<Rightarrow> lib_state \<Rightarrow> lib_state res" where
  "report_memory_usage_to_scheduler allocated s =
     (if l_rsock s \<le> 0 then Inr s
      else (let m = zero_message\<lparr>m_type := MEM_UPDATE, m_id := l_client_id s, m_memory_usage := allocated\<rparr>;
                (k, s1) = tick s
            in case nvshare_send_noblock (dr_write (l_drv s) k) (encode_message m) of
                 None \<Rightarrow> Inl OutOfFuel
               | Some (Inl e) \<Rightarrow> Inr s1
               | Some (Inr n) \<Rightarrow> Inr (s1\<lparr>l_sent := (m, n) # l_sent s1\<rparr>)))"

section \<open>Writes that complete\<close>

definition lib_writes_ok :: "lib_state \<Rightarrow> bool" where
  "lib_writes_ok s \<longleftrightarrow> (\<forall>k. dr_write (l_drv s) k = [WOk 659])"

text \<open>What the environment calls leave alone.\<close>

definition lib_base :: "lib_state \<Rightarrow> lib_state" where
  "lib_base s = s\<lparr>l_calls := 0, l_sent := []\<rparr>"

lemma lib_send_ok:
  "lib_writes_ok s \<Longrightarrow> lib_send m s = Inr (s\<lparr>l_calls := Suc (l_calls s), l_sent := (m, 659) # l_sent s\<rparr>)"
  by (simp add: lib_send_def tick_def lib_writes_ok_def write_whole_one encode_message_length)

lemma report_ok:
  "lib_writes_ok s \<Longrightarrow> report_memory_usage_to_scheduler a s =
     Inr (if l_rsock s \<le> 0 then s else s\<lparr>l_calls := Suc (l_calls s),
       l_sent := (zero_message\<lparr>m_type := MEM_UPDATE, m_id := l_client_id s, m_memory_usage := a\<rparr>, 659) # l_sent s\<rparr>)"
  by (simp add: report_memory_usage_to_scheduler_def tick_def lib_writes_ok_def nvshare_send_noblock_def
      encode_message_length)

end
