(* ===== verification/HookMem.thy ===== *)
theory HookMem
  imports LibState
begin

text \<open>
  The memory side of the interposer (src/hook.c): loading the driver functions, the symbol
  lookups that hand out interposed functions, the bookkeeping of allocations against the memory
  limit, the hints to the driver before and after a context switch, and the settings read from the
  environment. Calls of the application are atomic in the model.
\<close>

section \<open>Symbols\<close>

text \<open>The renaming of symbols by cuda_defs.h.\<close>

definition versioned :: "string list" where
  "versioned = [''cuMemGetInfo'', ''cuMemAlloc'', ''cuMemFree'', ''cuMemcpyHtoD'', ''cuMemcpyDtoH'', ''cuMemcpyDtoD'',
     ''cuMemcpyHtoDAsync'', ''cuMemcpyDtoHAsync'', ''cuMemcpyDtoDAsync'', ''nvmlInit'',
     ''nvmlDeviceGetHandleByIndex'', ''nvmlDeviceGetHandleByUUID'']"

definition cuda_symbol :: "string \<Rightarrow> string" where
  "cuda_symbol f = (if f \<in> set versioned then f @ ''_v2'' else f)"

definition hook_names :: "string list" where
  "hook_names = [''cuMemAlloc'', ''cuMemFree'', ''cuMemGetInfo'', ''cuGetProcAddress'', ''cuGetProcAddress_v2'',
     ''cuInit'', ''cuLaunchKernel'', ''cuMemcpy'', ''cuMemcpyAsync'', ''cuMemcpyDtoH'', ''cuMemcpyDtoHAsync'',
     ''cuMemcpyHtoD'', ''cuMemcpyHtoDAsync'', ''cuMemcpyDtoD'', ''cuMemcpyDtoDAsync'']"

text \<open>\<open>dlsym_225\<close> and \<open>dlsym_234\<close> differ in the real \<^verbatim>\<open>dlsym\<close> they fall back to: \<open>real\<close> is its answer.\<close>

definition dlsym_hook :: "(string \<Rightarrow> address option) \<Rightarrow> string \<Rightarrow> address option" where
  "dlsym_hook real symbol =
     (if \<not> strncmp_eq symbol ''cu'' 2 then real symbol
      else case find (\<lambda>f. symbol = cuda_symbol f) hook_names of
             Some f \<Rightarrow> Some (Interposed f)
           | None \<Rightarrow> real symbol)"

text \<open>The part of \<open>cuGetProcAddress\<close> and \<open>cuGetProcAddress_v2\<close> after the initialisation; \<open>self\<close> is the
  function's own name.\<close>

definition get_proc_address :: "string \<Rightarrow> string \<Rightarrow> lib_state \<Rightarrow> CUresult \<times> address option \<times> lib_state" where
  "get_proc_address self symbol s =
     (if \<not> has_real self s then (CUDA_ERROR_NOT_INITIALIZED, None, s)
      else case find (\<lambda>f. symbol = f) hook_names of
             Some f \<Rightarrow> (CUDA_SUCCESS, Some (Interposed f), s)
           | None \<Rightarrow> (let (k, s1) = tick s; (r, a) = dr_proc (l_drv s) k symbol in (r, a, s1)))"

section \<open>Loading the real functions\<close>

text \<open>\<open>found lib f\<close> tells whether the dynamic linker finds symbol \<open>f\<close> in \<open>lib\<close>.\<close>

definition nvml_table :: "(string \<times> bool) list" where
  "nvml_table = [(''nvmlDeviceGetUtilizationRates'', False), (''nvmlInit'', True),
     (''nvmlDeviceGetHandleByIndex'', True), (''nvmlDeviceGetHandleByUUID'', True)]"

definition load_nvml_one :: "(string \<Rightarrow> bool) \<Rightarrow> string \<times> bool \<Rightarrow> lib_state \<Rightarrow> lib_state" where
  "load_nvml_one found e s =
     (let (f, fallback) = e in
      if found (cuda_symbol f) \<or> fallback \<and> found f then s\<lparr>l_real := f # l_real s\<rparr>
      else s\<lparr>l_nvml_ok := False\<rparr>)"

definition load_nvml :: "bool \<Rightarrow> (string \<Rightarrow> bool) \<Rightarrow> lib_state \<Rightarrow> lib_state" where
  "load_nvml opened found s =
     (if \<not> opened then s\<lparr>l_nvml_ok := False\<rparr> else fold (load_nvml_one found) nvml_table s)"

text \<open>The driver functions in the order they are loaded, and whether a missing one is fatal.\<close>

definition cuda_table :: "(string \<times> bool) list" where
  "cuda_table = [(''cuMemAllocManaged'', True), (''cuMemFree'', True), (''cuGetProcAddress'', False),
     (''cuGetProcAddress_v2'', False), (''cuMemGetInfo'', True), (''cuGetErrorString'', True),
     (''cuGetErrorName'', True), (''cuCtxSetCurrent'', True), (''cuCtxGetCurrent'', True), (''cuInit'', True),
     (''cuCtxSynchronize'', True), (''cuMemAdvise'', False), (''cuLaunchKernel'', True), (''cuMemcpy'', True),
     (''cuMemcpyAsync'', True), (''cuMemcpyDtoH'', True), (''cuMemcpyDtoHAsync'', True), (''cuMemcpyHtoD'', True),
     (''cuMemcpyHtoDAsync'', True), (''cuMemcpyDtoD'', True), (''cuMemcpyDtoDAsync'', True)]"

fun load_cuda :: "(string \<Rightarrow> bool) \<Rightarrow> (string \<times> bool) list \<Rightarrow> lib_state \<Rightarrow> lib_state res" where
  "load_cuda found [] s = Inr s"
| "load_cuda found ((f, required) # fs) s =
     (if found (cuda_symbol f) then load_cuda found fs (s\<lparr>l_real := f # l_real s\<rparr>)
      else if required then Inl Exited else load_cuda found fs s)"

record linker =
  ld_open :: "string \<Rightarrow> bool"
  ld_sym :: "string \<Rightarrow> string \<Rightarrow> bool"

definition bootstrap_cuda :: "linker \<Rightarrow> lib_state \<Rightarrow> lib_state res" where
  "bootstrap_cuda ld s =
     (let s1 = load_nvml (ld_open ld ''libnvidia-ml.so.1'') (ld_sym ld ''libnvidia-ml.so.1'') s in
      if \<not> ld_open ld ''libcuda.so'' then Inl Exited
      else load_cuda (ld_sym ld ''libcuda.so'') cuda_table s1)"

section \<open>Settings\<close>

text \<open>Multiplication of a double by a whole number that a double represents exactly.\<close>

fun dbl_mul :: "nat \<Rightarrow> double \<Rightarrow> double" where
  "dbl_mul k (Fin neg m e) = (if e \<ge> 0 then to_double neg (m * k * 2 ^ nat e) 1 else to_double neg (m * k) (2 ^ nat (- e)))"
| "dbl_mul k d = d"

definition starts_with :: "char \<Rightarrow> string \<Rightarrow> bool" where
  "starts_with c s \<longleftrightarrow> (case s of x # _ \<Rightarrow> tolower x = c | [] \<Rightarrow> False)"

definition hook_unit :: "string \<Rightarrow> nat" where
  "hook_unit t =
     (let binary = starts_with (CHR ''i'') (tl t) in
      if starts_with (CHR ''g'') t then (if binary then 1024 * 1024 * 1024 else 1000 * 1000 * 1000)
      else if starts_with (CHR ''m'') t then (if binary then 1024 * 1024 else 1000 * 1000)
      else if starts_with (CHR ''k'') t then (if binary then 1024 else 1000)
      else 1)"

definition hook_parse_memory_size :: "size_t \<Rightarrow> string \<Rightarrow> size_t" where
  "hook_parse_memory_size oob str =
     (let (value, rest) = strtod str; t = dropWhile (\<lambda>c. c = CHR '' '') rest
      in size_of_double oob (if hook_unit t = 1 then value else dbl_mul (hook_unit t) value))"

definition initialize_libnvshare ::
  "(string \<Rightarrow> string option) \<Rightarrow> size_t \<Rightarrow> linker \<Rightarrow> lib_state \<Rightarrow> lib_state res" where
  "initialize_libnvshare getenv oob ld s0 =
     (let s1 = from_env getenv ''NVSHARE_DEBUG'' (\<lambda>v s. s\<lparr>l_debug := True\<rparr>) s0;
          s2 = from_env getenv ''NVSHARE_ENABLE_SINGLE_OVERSUB'' (\<lambda>v s. s\<lparr>l_single_oversub := True\<rparr>) s1;
          s3 = from_env getenv ''NVSHARE_GPU_MEMORY_LIMIT'' (\<lambda>v s. s\<lparr>l_memory_limit := hook_parse_memory_size oob v\<rparr>) s2;
          s4 = from_env getenv ''NVSHARE_KERN_SYNC_DURATION_BIG'' (\<lambda>v s. s\<lparr>l_sync_duration_big := atoi v\<rparr>) s3;
          s5 = from_env getenv ''NVSHARE_KERN_WINDOW_MIN_FLOOR'' (\<lambda>v s. s\<lparr>l_window_min_floor := atoi v\<rparr>) s4;
          s6 = from_env getenv ''NVSHARE_KERN_WARMUP_PERIOD_SEC'' (\<lambda>v s. s\<lparr>l_warmup_period_sec := atoi v\<rparr>) s5
      in bootstrap_cuda ld s6)"

section \<open>Allocations\<close>

definition hook_update_memory_limit :: "size_t \<Rightarrow> lib_state \<Rightarrow> lib_state" where
  "hook_update_memory_limit new_limit s = s\<lparr>l_memory_limit := new_limit\<rparr>"

definition insert_cuda_allocation :: "CUdeviceptr \<Rightarrow> size_t \<Rightarrow> lib_state \<Rightarrow> lib_state res" where
  "insert_cuda_allocation dptr bytesize s =
     (let s1 = s\<lparr>l_sum_allocated := l_sum_allocated s + bytesize,
                 l_allocations := l_allocations s @ [(dptr, bytesize)]\<rparr>
      in report_memory_usage_to_scheduler (l_sum_allocated s1) s1)"

text \<open>The walk of \<open>remove_cuda_allocation\<close>; \<open>pre\<close> holds the nodes that stay, last one first.\<close>

fun remove_alloc_loop :: "CUdeviceptr \<Rightarrow> (CUdeviceptr \<times> size_t) list \<Rightarrow> (CUdeviceptr \<times> size_t) list \<Rightarrow> lib_state \<Rightarrow> lib_state res" where
  "remove_alloc_loop rm_ptr pre [] s = Inr s"
| "remove_alloc_loop rm_ptr pre ((p, sz) # as) s =
     (if p = rm_ptr
      then (let s1 = s\<lparr>l_sum_allocated := l_sum_allocated s - sz, l_allocations := rev pre @ as\<rparr> in
            bindR (report_memory_usage_to_scheduler (l_sum_allocated s1) s1) (remove_alloc_loop rm_ptr pre as))
      else remove_alloc_loop rm_ptr ((p, sz) # pre) as s)"

definition remove_cuda_allocation :: "CUdeviceptr \<Rightarrow> lib_state \<Rightarrow> lib_state res" where
  "remove_cuda_allocation rm_ptr s = remove_alloc_loop rm_ptr [] (l_allocations s) s"

definition MEMINFO_RESERVE :: size_t where "MEMINFO_RESERVE = 1536 * 2 ^ 20"

text \<open>\<open>out\<close> is what the two output variables hold before the call.\<close>

definition cuMemGetInfo :: "size_t \<times> size_t \<Rightarrow> lib_state \<Rightarrow> CUresult \<times> (size_t \<times> size_t) \<times> lib_state" where
  "cuMemGetInfo out s =
     (if \<not> has_real ''cuMemGetInfo'' s then (CUDA_ERROR_NOT_INITIALIZED, out, s)
      else (let (k, s1) = tick s; (result, mfree, mtotal) = dr_info (l_drv s) k in
        if l_memory_limit s1 > 0
        then (result, (if l_memory_limit s1 > l_sum_allocated s1 then l_memory_limit s1 - l_sum_allocated s1 else 0,
                       l_memory_limit s1), s1)
        else (result, (mtotal - MEMINFO_RESERVE, mtotal), s1)))"

definition cuMemAlloc :: "size_t \<Rightarrow> CUdeviceptr \<Rightarrow> size_t \<Rightarrow> lib_state \<Rightarrow> (CUresult \<times> CUdeviceptr \<times> lib_state) res" where
  "cuMemAlloc junk dptr bytesize s =
     (if \<not> has_real ''cuMemAllocManaged'' s then Inr (CUDA_ERROR_NOT_INITIALIZED, dptr, s)
      else
        (let s1 = (if l_got_max_mem_size s then s
                   else (let (_, (mfree, _), s') = cuMemGetInfo (l_mem_allocatable s, junk) s in
                         s'\<lparr>l_mem_allocatable := mfree, l_got_max_mem_size := True\<rparr>));
             needed = l_sum_allocated s1 + bytesize
         in if l_memory_limit s1 > 0 \<and> needed > l_memory_limit s1 then Inr (CUDA_ERROR_OUT_OF_MEMORY, dptr, s1)
            else if needed > l_mem_allocatable s1 \<and> \<not> l_single_oversub s1 then Inr (CUDA_ERROR_OUT_OF_MEMORY, dptr, s1)
            else (let (k, s2) = tick s1; (result, p) = dr_malloc (l_drv s1) k bytesize in
                  if result = CUDA_SUCCESS
                  then bindR (insert_cuda_allocation p bytesize s2) (\<lambda>s3. Inr (result, p, s3))
                  else Inr (result, p, s2))))"

definition cuMemFree :: "CUdeviceptr \<Rightarrow> lib_state \<Rightarrow> (CUresult \<times> lib_state) res" where
  "cuMemFree dptr s =
     (if \<not> has_real ''cuMemFree'' s then Inr (CUDA_ERROR_NOT_INITIALIZED, s)
      else (let (k, s1) = tick s; result = dr_free (l_drv s) k dptr in
            if result = CUDA_SUCCESS then bindR (remove_cuda_allocation dptr s1) (\<lambda>s2. Inr (result, s2))
            else Inr (result, s1)))"

section \<open>Swap hints\<close>

text \<open>The loop over the allocations: how many hints the driver took, and the bytes they cover.\<close>

fun advise_loop :: "CUmem_advise \<Rightarrow> (CUdeviceptr \<times> size_t) list \<Rightarrow> nat \<Rightarrow> size_t \<Rightarrow> lib_state \<Rightarrow> nat \<times> size_t \<times> lib_state" where
  "advise_loop adv [] count bytes s = (count, bytes, s)"
| "advise_loop adv ((p, sz) # as) count bytes s =
     (let (k, s1) = tick s in
      if dr_advise (l_drv s) k p sz adv = CUDA_SUCCESS then advise_loop adv as (Suc count) (bytes + sz) s1
      else advise_loop adv as count bytes s1)"

text \<open>Setting the context of the calling thread: whether the walk goes on.\<close>

definition set_thread_context :: "lib_state \<Rightarrow> bool \<times> lib_state" where
  "set_thread_context s =
     (if l_cuda_ctx s \<noteq> None \<and> has_real ''cuCtxSetCurrent'' s
      then (let (k, s1) = tick s in (dr_set_current (l_drv s) k = CUDA_SUCCESS, s1)) else (True, s))"

definition swap_out_all_allocations :: "lib_state \<Rightarrow> lib_state" where
  "swap_out_all_allocations s =
     (if \<not> has_real ''cuMemAdvise'' s then s
      else (let (ok, s1) = set_thread_context s in
            if \<not> ok then s1
            else (let (count, _, s2) = advise_loop CU_MEM_ADVISE_SET_PREFERRED_LOCATION (l_allocations s1) 0 0 s1 in
                  if count > 0 then snd (tick s2) else s2)))"

definition swap_in_all_allocations :: "lib_state \<Rightarrow> lib_state" where
  "swap_in_all_allocations s =
     (if \<not> has_real ''cuMemAdvise'' s then s
      else (let (ok, s1) = set_thread_context s in
            if \<not> ok then s1
            else snd (snd (advise_loop CU_MEM_ADVISE_UNSET_PREFERRED_LOCATION (l_allocations s1) 0 0 s1))))"

end
