(* ===== verification/ClientLib.thy ===== *)
theory ClientLib
  imports HookMem
begin

text \<open>
  The client side of the lock protocol (src/client.c): registration with the scheduler, the thread
  that handles its messages, the threads of the application that wait for the lock, and the thread
  that releases the lock early. Each definition is one stretch of code that holds
  \<^verbatim>\<open>global_mutex\<close>; threads interleave between them.
\<close>

section \<open>Waiting for the lock\<close>

definition cuda_sync_context :: "lib_state \<Rightarrow> lib_state" where
  "cuda_sync_context s = snd (tick (snd (tick (s\<lparr>l_pending_kernel_window := 1\<rparr>))))"

definition get_app_context :: "lib_state \<Rightarrow> lib_state res" where
  "get_app_context s =
     (if l_cuda_ctx_ok s then Inr s
      else (let (k, s1) = tick s; (r, ctx) = dr_get_current (l_drv s) k in
            if r \<noteq> CUDA_SUCCESS then Inl Exited else Inr (s1\<lparr>l_cuda_ctx := ctx, l_cuda_ctx_ok := True\<rparr>)))"

definition request_lock :: "lib_state \<Rightarrow> lib_state res" where
  "request_lock s = (if l_need_lock s then Inr s else lib_send (l_req_lock_msg s) (s\<lparr>l_need_lock := True\<rparr>))"

text \<open>The loop around the condition variable. \<open>env\<close> lists what the other threads do up to each
  wake-up; the result tells whether the lock is held or the thread still waits when the list ends.\<close>

fun lock_wait :: "(lib_state \<Rightarrow> lib_state res) list \<Rightarrow> lib_state \<Rightarrow> (bool \<times> lib_state) res" where
  "lock_wait [] s = (if l_own_lock s then Inr (True, s) else bindR (request_lock s) (\<lambda>s1. Inr (False, s1)))"
| "lock_wait (e # es) s =
     (if l_own_lock s then Inr (True, s) else bindR (request_lock s) (\<lambda>s1. bindR (e s1) (lock_wait es)))"

definition continue_with_lock :: "(lib_state \<Rightarrow> lib_state res) list \<Rightarrow> lib_state \<Rightarrow> (bool \<times> lib_state) res" where
  "continue_with_lock env s =
     bindR (get_app_context s) (\<lambda>s1. bindR (lock_wait env s1) (\<lambda>(got, s2).
       Inr (got, if got then s2\<lparr>l_did_work := True\<rparr> else s2)))"

section \<open>Registration\<close>

definition read_pod_name :: "(string \<Rightarrow> string option) \<Rightarrow> nat \<Rightarrow> string" where
  "read_pod_name getenv n = strlcpy_field n (case getenv ''HOSTNAME'' of Some v \<Rightarrow> v | None \<Rightarrow> ''none'')"

text \<open>\<^verbatim>\<open>fgets\<close>: at most \<open>n - 1\<close> characters, up to and with the first line feed; nothing at end of file.\<close>

definition fgets :: "nat \<Rightarrow> string \<Rightarrow> string option" where
  "fgets n content =
     (if content = [] then None
      else (let t = take (n - 1) content in Some (take (Suc (length (takeWhile (\<lambda>c. c \<noteq> CHR 0x0A) t))) t)))"

text \<open>\<open>file\<close> is the content of the mounted namespace file, if it can be opened.\<close>

definition read_pod_namespace :: "string option \<Rightarrow> nat \<Rightarrow> string" where
  "read_pod_namespace file n =
     (case file of
        None \<Rightarrow> strlcpy_field n ''none''
      | Some content \<Rightarrow> (case fgets n content of None \<Rightarrow> strlcpy_field n ''none'' | Some l \<Rightarrow> cstr l))"

definition visible_gpu :: "(string \<Rightarrow> string option) \<Rightarrow> string" where
  "visible_gpu getenv =
     (case getenv ''NVIDIA_VISIBLE_DEVICES'' of
        Some v \<Rightarrow> strlcpy_field NVSHARE_GPU_UUID_LEN v
      | None \<Rightarrow> (case getenv ''CUDA_VISIBLE_DEVICES'' of Some v \<Rightarrow> strlcpy_field NVSHARE_GPU_UUID_LEN v | None \<Rightarrow> []))"

definition register_message :: "(string \<Rightarrow> string option) \<Rightarrow> string option \<Rightarrow> int \<Rightarrow> message" where
  "register_message getenv file pid =
     (let (ns, pod) = (if getenv ''KUBERNETES_SERVICE_HOST'' \<noteq> None
                       then (read_pod_namespace file POD_NAMESPACE_LEN_MAX, read_pod_name getenv POD_NAME_LEN_MAX)
                       else (''none'', ''none''))
      in zero_message\<lparr>m_type := REGISTER, m_protocol_version := 2, m_id := 1234, m_host_pid := pid,
           m_pod_name := pod, m_pod_namespace := ns, m_gpu_uuid := strlcpy_field NVSHARE_GPU_UUID_LEN (visible_gpu getenv)\<rparr>)"

text \<open>\<^verbatim>\<open>sscanf\<close> with \<^verbatim>\<open>SCNx64\<close>: nothing when there is no digit, saturating beyond 64 bits.\<close>

definition scan_hex :: "string \<Rightarrow> uint64 option" where
  "scan_hex str =
     (let (neg, s1) = strip_sign (dropWhile isspace str); (b, s2) = strip_base 16 s1;
          ds = takeWhile (\<lambda>c. digit_of c < 16) s2; v = digits_val 16 ds
      in if ds = [] then None
         else if v \<ge> 2 ^ 64 then Some (- 1)
         else Some (if neg then - of_nat v else of_nat v))"

definition receive_from_scheduler :: "rcall list \<Rightarrow> message res" where
  "receive_from_scheduler cs =
     (case nvshare_receive_block cs 659 of
        None \<Rightarrow> Inl OutOfFuel
      | Some (Inl e) \<Rightarrow> Inl Exited
      | Some (Inr (n, bs)) \<Rightarrow> if n = 659 then Inr (decode_message bs) else Inl Exited)"

definition initial_status :: "message \<Rightarrow> lib_state \<Rightarrow> lib_state res" where
  "initial_status m s =
     (if m_type m = SCHED_ON \<or> m_type m = SCHED_OFF then
        (case scan_hex (m_data m) of
           None \<Rightarrow> Inl Exited
         | Some i \<Rightarrow> Inr (s\<lparr>l_client_id := i, l_core_limit := m_core_limit m, l_scheduler_on := (m_type m = SCHED_ON),
                           l_own_lock := (m_type m = SCHED_OFF), l_need_lock := False,
                           l_out_msg := zero_message\<lparr>m_id := i\<rparr>\<rparr>))
      else Inl Exited)"

text \<open>\<open>client_fn\<close> up to its loop: \<open>conn\<close> are the outcomes of the attempts to connect, \<open>reply\<close> those of
  the reads for the first message.\<close>

definition client_register ::
  "(string \<Rightarrow> string option) \<Rightarrow> string option \<Rightarrow> int \<Rightarrow> (sys \<times> sys) list \<Rightarrow> rcall list \<Rightarrow> lib_state \<Rightarrow> lib_state res" where
  "client_register getenv file pid conn reply s =
     (let (k, s1) = tick s in
      if dr_init (l_drv s) k \<noteq> CUDA_SUCCESS then Inl Exited
      else (let s2 = s1\<lparr>l_gpu_uuid := visible_gpu getenv\<rparr> in
        case nvshare_connect 0 conn of
          None \<Rightarrow> Inl OutOfFuel
        | Some r \<Rightarrow>
            if so_ret r \<noteq> 0 then Inl Exited
            else bindR (lib_send (register_message getenv file pid)
                          (s2\<lparr>l_rsock := (case so_sock r of Some fd \<Rightarrow> fd | None \<Rightarrow> l_rsock s2)\<rparr>)) (\<lambda>s3.
                 bindR (receive_from_scheduler reply) (\<lambda>m. initial_status m s3))))"

section \<open>Messages of the scheduler\<close>

text \<open>One observation of a latency: the sum and the maximum, unless the clock went backwards.\<close>

definition observe :: "int \<Rightarrow> int \<Rightarrow> int \<times> int \<Rightarrow> int \<times> int" where
  "observe from till acc = (if till \<ge> from then (fst acc + (till - from), max (snd acc) (till - from)) else acc)"

definition on_lock_ok :: "lib_state \<Rightarrow> lib_state" where
  "on_lock_ok s =
     (let s1 = (swap_in_all_allocations s)\<lparr>l_need_lock := False, l_own_lock := True\<rparr>;
          s2 = (if l_lock_acquire_time s1 = 0
                then (let (k, s') = tick s1 in s'\<lparr>l_lock_acquire_time := dr_time (l_drv s1) k\<rparr>) else s1);
          (now, s3) = monotonic_time_ms s2
      in s3\<lparr>l_last_lock_ok_ms := now, l_did_work := True\<rparr>)"

definition drop_prepare :: "lib_state \<Rightarrow> int \<times> lib_state" where
  "drop_prepare s =
     (let (drop_recv, s1) = monotonic_time_ms s;
          acc = (l_lock_to_drop_sum_ms s1, l_lock_to_drop_max_ms s1);
          acc' = (if l_last_lock_ok_ms s1 > 0 then observe (l_last_lock_ok_ms s1) drop_recv acc else acc);
          s2 = cuda_sync_context (s1\<lparr>l_lock_to_drop_sum_ms := fst acc', l_lock_to_drop_max_ms := snd acc', l_own_lock := False\<rparr>)
      in (drop_recv, s2\<lparr>l_out_msg := (l_out_msg s2)\<lparr>m_type := LOCK_RELEASED\<rparr>\<rparr>))"

definition drop_finish :: "int \<Rightarrow> lib_state \<Rightarrow> lib_state" where
  "drop_finish drop_recv s =
     (let (released, s1) = monotonic_time_ms s;
          acc = observe drop_recv released (l_drop_to_release_sum_ms s1, l_drop_to_release_max_ms s1)
      in s1\<lparr>l_drop_to_release_sum_ms := fst acc, l_drop_to_release_max_ms := snd acc, l_drop_events := l_drop_events s1 + 1\<rparr>)"

definition on_drop_lock :: "lib_state \<Rightarrow> lib_state res" where
  "on_drop_lock s =
     (if \<not> l_own_lock s then Inr s
      else (let (drop_recv, s1) = drop_prepare s in
            bindR (lib_send (l_out_msg s1) s1) (\<lambda>s2. Inr (drop_finish drop_recv s2))))"

definition client_msg :: "message \<Rightarrow> lib_state \<Rightarrow> lib_state res" where
  "client_msg m s =
     (case m_type m of
        LOCK_OK \<Rightarrow> Inr (on_lock_ok s)
      | DROP_LOCK \<Rightarrow> on_drop_lock s
      | SCHED_ON \<Rightarrow> Inr (if l_scheduler_on s then s
                        else s\<lparr>l_scheduler_on := True, l_need_lock := False, l_own_lock := False\<rparr>)
      | SCHED_OFF \<Rightarrow> Inr (if l_scheduler_on s
                         then s\<lparr>l_scheduler_on := False, l_own_lock := True, l_need_lock := False\<rparr> else s)
      | PREPARE_SWAP_OUT \<Rightarrow> Inr (swap_out_all_allocations s)
      | UPDATE_LIMIT \<Rightarrow> Inr (hook_update_memory_limit (m_memory_limit m) s)
      | UPDATE_CORE_LIMIT \<Rightarrow> Inr (if 1 \<le> m_core_limit m \<and> m_core_limit m \<le> 100
                                 then s\<lparr>l_core_limit := m_core_limit m\<rparr> else s)
      | _ \<Rightarrow> Inr s)"

text \<open>One turn of the loop of \<open>client_fn\<close>.\<close>

definition client_turn :: "rcall list \<Rightarrow> lib_state \<Rightarrow> lib_state res" where
  "client_turn cs s = bindR (receive_from_scheduler cs) (\<lambda>m. client_msg m s)"

section \<open>Early release\<close>

definition release_early_setup :: "lib_state \<Rightarrow> lib_state" where
  "release_early_setup s =
     (if \<not> l_nvml_ok s then s
      else (let (k, s1) = tick s in
        if \<not> dr_nvml_init (l_drv s) k then s1\<lparr>l_nvml_ok := False\<rparr>
        else (let by_index = (\<lambda>s. let (k, s') = tick s in s'\<lparr>l_nvml_ok := dr_nvml_handle (l_drv s) k None\<rparr>) in
              if l_gpu_uuid s1 \<noteq> []
              then (let (k2, s2) = tick s1 in
                    if dr_nvml_handle (l_drv s1) k2 (Some (l_gpu_uuid s1)) then s2 else by_index s2)
              else by_index s1)))"

definition elapsed_ms :: "timespec \<Rightarrow> int" where
  "elapsed_ms d = (tv_sec d mod 2 ^ 32 * 1000 mod 2 ^ 32 + tv_nsec d sdiv 1000000) mod 2 ^ 32"

text \<open>Whether the client has been idle: the utilisation of the GPU or, without NVML, the time that a
  synchronisation takes.\<close>

definition is_idle :: "lib_state \<Rightarrow> bool \<times> lib_state" where
  "is_idle s =
     (if l_nvml_ok s
      then (let (k, s1) = tick s in
            case dr_nvml_util (l_drv s) k of
              None \<Rightarrow> (False, s1\<lparr>l_nvml_ok := False\<rparr>)
            | Some u \<Rightarrow> (u = 0, s1))
      else (let (k1, s1) = tick s; s2 = cuda_sync_context s1; (k2, s3) = tick s2
            in (elapsed_ms (timespecsub (dr_mono (l_drv s) k2) (dr_mono (l_drv s) k1)) < 100, s3)))"

definition release_early_timeout :: "lib_state \<Rightarrow> lib_state res" where
  "release_early_timeout s =
     (if \<not> l_scheduler_on s \<or> \<not> l_own_lock s then Inr s
      else if l_did_work s then Inr (s\<lparr>l_did_work := False\<rparr>)
      else (let (idle, s1) = is_idle s in
            if \<not> idle then Inr s1
            else bindR (lib_send (zero_message\<lparr>m_type := LOCK_RELEASED, m_id := l_client_id s1\<rparr>) s1)
                   (\<lambda>s2. Inr (s2\<lparr>l_own_lock := False\<rparr>))))"

datatype wakeup = TimedOut | Signalled | WaitFailed

text \<open>A wake-up of \<open>release_early_fn\<close>: whether the interval starts anew, which clears \<open>did_work\<close>, or
  the thread waits for the remainder of it.\<close>

definition release_early_wake :: "wakeup \<Rightarrow> lib_state \<Rightarrow> (bool \<times> lib_state) res" where
  "release_early_wake w s =
     (case w of
        WaitFailed \<Rightarrow> Inl Exited
      | TimedOut \<Rightarrow> bindR (release_early_timeout s) (\<lambda>s1. Inr (True, s1\<lparr>l_did_work := False\<rparr>))
      | Signalled \<Rightarrow> Inr (l_did_work s, s\<lparr>l_did_work := False\<rparr>))"

section \<open>Initialisation\<close>

definition initialize_client ::
  "(string \<Rightarrow> string option) \<Rightarrow> string option \<Rightarrow> int \<Rightarrow> (sys \<times> sys) list \<Rightarrow> rcall list \<Rightarrow> lib_state \<Rightarrow> lib_state res" where
  "initialize_client getenv file pid conn reply s =
     bindR (client_register getenv file pid conn reply
              (s\<lparr>l_scheduler_on := False, l_cuda_ctx := None, l_own_lock := False, l_need_lock := False,
                 l_lock_acquire_time := 0\<rparr>)) (\<lambda>s1.
       let s2 = release_early_setup s1
       in Inr (s2\<lparr>l_req_lock_msg := zero_message\<lparr>m_type := REQ_LOCK, m_id := l_client_id s2\<rparr>\<rparr>))"

end
