(* ===== verification/HookCall.thy ===== *)
theory HookCall
  imports ClientLib
begin

text \<open>
  The interposed calls of src/hook.c that need the lock or bootstrap the library: \<open>cuInit\<close>, the two
  symbol lookups, \<open>cuLaunchKernel\<close> with the control of the number of pending kernels, and the copies.
\<close>

section \<open>The window of pending kernels\<close>

definition KERN_SYNC_WINDOW_MAX :: int where "KERN_SYNC_WINDOW_MAX = 2048"

definition get_kernel_window_max :: "int \<Rightarrow> int" where
  "get_kernel_window_max core_limit =
     (let dynamic_max = (if core_limit \<ge> 100 then KERN_SYNC_WINDOW_MAX
            else (let d = core_limit sdiv 2; d1 = (if d < 16 then 16 else d) in if d1 > 32 then 32 else d1))
      in if dynamic_max > KERN_SYNC_WINDOW_MAX then KERN_SYNC_WINDOW_MAX else dynamic_max)"

text \<open>\<^verbatim>\<open>(int)(pending_kernel_window * 0.8)\<close>: the double next to 0.8 is \<open>3602879701896397 / 2 ^ 52\<close>; the
  product is rounded to a double and truncated.\<close>

definition mild_backoff :: "int \<Rightarrow> int" where
  "mild_backoff w =
     (case to_double (w < 0) (nat \<bar>w\<bar> * 3602879701896397) (2 ^ 52) of
        Fin neg m e \<Rightarrow> (let v = int (if e \<ge> 0 then m * 2 ^ nat e else m div 2 ^ nat (- e)) in if neg then - v else v)
      | _ \<Rightarrow> 0)"

text \<open>The adaptive control after a synchronisation that took \<open>secs\<close> whole seconds.\<close>

definition adapt_window :: "int \<Rightarrow> bool \<Rightarrow> lib_state \<Rightarrow> lib_state" where
  "adapt_window secs in_warmup s =
     (let w = l_pending_kernel_window s;
          grown = min (to_int32 (w * 2)) (get_kernel_window_max (l_core_limit s))
      in if secs \<ge> l_sync_duration_big s then
           (if in_warmup then s\<lparr>l_pending_kernel_window := grown\<rparr>
            else (let n = l_timeout_count s + 1 in
                  s\<lparr>l_timeout_count := n,
                    l_pending_kernel_window := (if n > 3 then 1 else max (l_window_min_floor s) (w sdiv 2))\<rparr>))
         else if secs \<ge> 1 then
           s\<lparr>l_timeout_count := 0,
             l_pending_kernel_window := (if in_warmup then grown else max (l_window_min_floor s) (mild_backoff w))\<rparr>
         else s\<lparr>l_timeout_count := 0, l_pending_kernel_window := grown\<rparr>)"

text \<open>The stretch of \<open>cuLaunchKernel\<close> under \<^verbatim>\<open>kcount_mutex\<close>; the result of the launch is passed through
  unless the context is synchronised.\<close>

definition count_kernel :: "CUresult \<Rightarrow> lib_state \<Rightarrow> CUresult \<times> lib_state" where
  "count_kernel result s =
     (let s1 = s\<lparr>l_kern_since_sync := l_kern_since_sync s + 1\<rparr> in
      if l_kern_since_sync s1 \<ge> l_pending_kernel_window s1
      then (let (k1, s2) = tick s1; (k2, s3) = tick s2; (k3, s4) = tick s3; (k4, s5) = tick s4;
                duration = timespecsub (dr_mono (l_drv s) k3) (dr_mono (l_drv s) k1);
                now = dr_time (l_drv s) k4;
                in_warmup = (l_lock_acquire_time s5 > 0 \<and> now - l_lock_acquire_time s5 < l_warmup_period_sec s5);
                s6 = adapt_window (tv_sec duration) in_warmup s5
            in (dr_sync (l_drv s) k2, s6\<lparr>l_kern_since_sync := 0\<rparr>))
      else (result, s1))"

section \<open>Work on the GPU\<close>

text \<open>A copy of memory: \<open>f\<close> is the driver function, \<open>env\<close> what other threads do while the call waits for
  the lock; without the lock there is no result.\<close>

type_synonym gpu_call = "(lib_state \<Rightarrow> lib_state res) list \<Rightarrow> lib_state \<Rightarrow> (CUresult option \<times> lib_state) res"

definition locked_call :: "string \<Rightarrow> gpu_call" where
  "locked_call f env s =
     (if \<not> has_real f s then Inr (Some CUDA_ERROR_NOT_INITIALIZED, s)
      else bindR (continue_with_lock env s) (\<lambda>(got, s1).
        if \<not> got then Inr (None, s1)
        else (let (k, s2) = tick s1 in Inr (Some (dr_work (l_drv s1) k f), s2))))"

definition cuMemcpy :: gpu_call where "cuMemcpy = locked_call ''cuMemcpy''"
definition cuMemcpyAsync :: gpu_call where "cuMemcpyAsync = locked_call ''cuMemcpyAsync''"
definition cuMemcpyDtoH :: gpu_call where "cuMemcpyDtoH = locked_call ''cuMemcpyDtoH''"
definition cuMemcpyDtoHAsync :: gpu_call where "cuMemcpyDtoHAsync = locked_call ''cuMemcpyDtoHAsync''"
definition cuMemcpyHtoD :: gpu_call where "cuMemcpyHtoD = locked_call ''cuMemcpyHtoD''"
definition cuMemcpyHtoDAsync :: gpu_call where "cuMemcpyHtoDAsync = locked_call ''cuMemcpyHtoDAsync''"
definition cuMemcpyDtoD :: gpu_call where "cuMemcpyDtoD = locked_call ''cuMemcpyDtoD''"
definition cuMemcpyDtoDAsync :: gpu_call where "cuMemcpyDtoDAsync = locked_call ''cuMemcpyDtoDAsync''"

definition cuLaunchKernel :: gpu_call where
  "cuLaunchKernel env s =
     bindR (locked_call ''cuLaunchKernel'' env s) (\<lambda>(r, s1).
       if has_real ''cuLaunchKernel'' s
       then (case r of None \<Rightarrow> Inr (None, s1) | Some result \<Rightarrow> (let (r', s2) = count_kernel result s1 in Inr (Some r', s2)))
       else Inr (r, s1))"

section \<open>Entry points\<close>

text \<open>What the process finds when it first enters the library: its environment, the dynamic linker,
  the namespace file, its process number, the scheduler's answers.\<close>

record process =
  pr_env :: "string \<Rightarrow> string option"
  pr_oob :: size_t
  pr_linker :: linker
  pr_namespace :: "string option"
  pr_pid :: int
  pr_connect :: "(sys \<times> sys) list"
  pr_reply :: "rcall list"

text \<open>The two \<^verbatim>\<open>pthread_once\<close> calls; \<open>started\<close> tells whether they have run.\<close>

definition enter_library :: "process \<Rightarrow> bool \<Rightarrow> lib_state \<Rightarrow> lib_state res" where
  "enter_library p started s =
     (if started then Inr s
      else bindR (initialize_libnvshare (pr_env p) (pr_oob p) (pr_linker p) s)
             (initialize_client (pr_env p) (pr_namespace p) (pr_pid p) (pr_connect p) (pr_reply p)))"

definition cuInit :: "process \<Rightarrow> bool \<Rightarrow> lib_state \<Rightarrow> (CUresult \<times> lib_state) res" where
  "cuInit p started s =
     bindR (enter_library p started s) (\<lambda>s1. let (k, s2) = tick s1 in Inr (dr_init (l_drv s1) k, s2))"

definition cuGetProcAddress :: "process \<Rightarrow> bool \<Rightarrow> string \<Rightarrow> lib_state \<Rightarrow> (CUresult \<times> address option \<times> lib_state) res" where
  "cuGetProcAddress p started symbol s =
     bindR (enter_library p started s) (\<lambda>s1. Inr (get_proc_address ''cuGetProcAddress'' symbol s1))"

definition cuGetProcAddress_v2 :: "process \<Rightarrow> bool \<Rightarrow> string \<Rightarrow> lib_state \<Rightarrow> (CUresult \<times> address option \<times> lib_state) res" where
  "cuGetProcAddress_v2 p started symbol s =
     bindR (enter_library p started s) (\<lambda>s1. Inr (get_proc_address ''cuGetProcAddress_v2'' symbol s1))"

end
