(* ===== verification/LibSafety.thy ===== *)
theory LibSafety
  imports HookCall
begin

text \<open>
  The invariant of the interposer library and its preservation by every call of the application,
  every message of the scheduler and every wake-up of the early release: the sum of the allocations
  is kept in step with their list, the lock is never held and requested at once, and the window of
  pending kernels stays within its bounds.
\<close>

section \<open>Calls that only touch the environment\<close>

text \<open>\<open>quiet s t\<close>: only the number of calls and the log of messages differ.\<close>

definition quiet :: "lib_state \<Rightarrow> lib_state \<Rightarrow> bool" where
  "quiet s t \<longleftrightarrow> t = s\<lparr>l_calls := l_calls t, l_sent := l_sent t\<rparr>"

lemma quietI: "t = s\<lparr>l_calls := c, l_sent := m\<rparr> \<Longrightarrow> quiet s t"
  by (simp add: quiet_def)

lemma quietE:
  assumes "quiet s t" obtains c m where "t = s\<lparr>l_calls := c, l_sent := m\<rparr>"
  using assms by (auto simp: quiet_def)

lemma quiet_refl [simp, intro]: "quiet s s"
  by (simp add: quiet_def)

lemma quiet_trans:
  assumes "quiet s t" "quiet t u" shows "quiet s u"
  using assms by (elim quietE) (auto intro: quietI)

lemma tick_eq: "tick s = (l_calls s, s\<lparr>l_calls := Suc (l_calls s)\<rparr>)"
  by (simp add: tick_def)

lemma quiet_tick [simp]: "quiet s (snd (tick s))"
  by (simp add: tick_def quiet_def)

lemma quiet_calls [simp]: "quiet s (s\<lparr>l_calls := c\<rparr>)"
  by (simp add: quiet_def)

lemma quiet_send: "lib_send m s = Inr t \<Longrightarrow> quiet s t"
  by (auto simp: lib_send_def tick_def quiet_def split: option.splits sum.splits if_splits)

lemma sent_send: "lib_send m s = Inr t \<Longrightarrow> l_sent t = (m, 659) # l_sent s"
  by (auto simp: lib_send_def tick_def split: option.splits sum.splits if_splits)

lemma quiet_report: "report_memory_usage_to_scheduler a s = Inr t \<Longrightarrow> quiet s t"
  by (auto simp: report_memory_usage_to_scheduler_def tick_def quiet_def Let_def split: option.splits sum.splits if_splits)

lemma sent_report:
  assumes "report_memory_usage_to_scheduler a s = Inr t"
  shows "\<exists>new. l_sent t = new @ l_sent s \<and> (\<forall>e \<in> set new. m_type (fst e) = MEM_UPDATE \<and> m_memory_usage (fst e) = a)"
  using assms by (auto simp: report_memory_usage_to_scheduler_def tick_def Let_def split: option.splits sum.splits if_splits)

lemma advise_eq: "snd (snd (advise_loop adv as n b s)) = s\<lparr>l_calls := l_calls s + length as\<rparr>"
  by (induction adv as n b s rule: advise_loop.induct) (simp_all add: tick_def Let_def)

lemma set_thread_context_eq: "\<exists>c. snd (set_thread_context s) = s\<lparr>l_calls := c\<rparr>"
proof (cases "l_cuda_ctx s \<noteq> None \<and> has_real ''cuCtxSetCurrent'' s")
  case True
  then show ?thesis by (auto simp: set_thread_context_def tick_def)
next
  case False
  then show ?thesis by (intro exI [of _ "l_calls s"]) (auto simp: set_thread_context_def)
qed

lemma swap_in_eq: "\<exists>c. swap_in_all_allocations s = s\<lparr>l_calls := c\<rparr>"
proof -
  obtain ok s1 where s1: "set_thread_context s = (ok, s1)" by (cases "set_thread_context s")
  with set_thread_context_eq [of s] obtain c where c: "s1 = s\<lparr>l_calls := c\<rparr>" by auto
  show ?thesis
  proof (cases "has_real ''cuMemAdvise'' s")
    case True
    then show ?thesis by (auto simp: swap_in_all_allocations_def s1 advise_eq c)
  next
    case False
    then show ?thesis by (intro exI [of _ "l_calls s"]) (simp add: swap_in_all_allocations_def)
  qed
qed

lemma swap_out_eq: "\<exists>c. swap_out_all_allocations s = s\<lparr>l_calls := c\<rparr>"
proof -
  obtain ok s1 where s1: "set_thread_context s = (ok, s1)" by (cases "set_thread_context s")
  with set_thread_context_eq [of s] obtain c where c: "s1 = s\<lparr>l_calls := c\<rparr>" by auto
  obtain n b s2 where a: "advise_loop CU_MEM_ADVISE_SET_PREFERRED_LOCATION (l_allocations s1) 0 0 s1 = (n, b, s2)"
    by (cases "advise_loop CU_MEM_ADVISE_SET_PREFERRED_LOCATION (l_allocations s1) 0 0 s1")
  with advise_eq [of CU_MEM_ADVISE_SET_PREFERRED_LOCATION "l_allocations s1" 0 0 s1]
  have s2: "s2 = s\<lparr>l_calls := c + length (l_allocations s1)\<rparr>" by (simp add: c)
  show ?thesis
  proof (cases "has_real ''cuMemAdvise'' s")
    case True
    then show ?thesis by (auto simp: swap_out_all_allocations_def s1 a tick_def) (auto simp: c s2)
  next
    case False
    then show ?thesis by (intro exI [of _ "l_calls s"]) (simp add: swap_out_all_allocations_def)
  qed
qed

section \<open>The window of pending kernels\<close>

lemma round_div_even_near:
  assumes "0 < y"
  shows "2 * (round_div_even x y * y) \<le> 2 * x + y" "2 * x \<le> 2 * (round_div_even x y * y) + y"
proof -
  have x: "2 * x = 2 * (x div y * y) + 2 * (x mod y)" by (metis div_mult_mod_eq distrib_left)
  have y: "x mod y < y" using assms by simp
  have c: "round_div_even x y = x div y + 1 \<and> y \<le> 2 * (x mod y) \<or> round_div_even x y = x div y \<and> 2 * (x mod y) \<le> y"
    by (auto simp: round_div_even_def Let_def)
  then have "2 * (round_div_even x y * y) = 2 * (x div y * y) + 2 * y \<and> y \<le> 2 * (x mod y)
      \<or> 2 * (round_div_even x y * y) = 2 * (x div y * y) \<and> 2 * (x mod y) \<le> y" by (auto simp: algebra_simps)
  then show "2 * (round_div_even x y * y) \<le> 2 * x + y" "2 * x \<le> 2 * (round_div_even x y * y) + y"
    using x y by linarith+
qed

text \<open>The rounded product with the double next to 0.8 truncates to four fifths.\<close>

lemma four_fifths:
  assumes w: "w < 2 ^ 31" and k: "3 \<le> k"
  shows "round_div_even (w * 3602879701896397 * 2 ^ k) (2 ^ 52) div 2 ^ k = 4 * w div 5"
proof -
  define K where "K = (2::nat) ^ k"
  define B where "B = (2::nat) ^ 52"
  define A where "A = w * 3602879701896397 * K"
  define m where "m = round_div_even A B"
  define q where "q = 4 * w div 5"
  define r where "r = 4 * w mod 5"
  have qr: "4 * w = 5 * q + r" "r \<le> 4" unfolding q_def r_def using mod_less_divisor [of 5 "4 * w"] by simp_all
  have "5 * A = 4 * w * (B * K) + w * K" by (simp add: A_def B_def algebra_simps)
  also have "\<dots> = 5 * (q * (B * K)) + r * (B * K) + w * K" by (simp only: qr(1)) (simp add: algebra_simps)
  finally have a5: "5 * A = 5 * (q * (B * K)) + r * (B * K) + w * K" .
  have near: "2 * (m * B) \<le> 2 * A + B" "2 * A \<le> 2 * (m * B) + B"
    unfolding m_def by (rule round_div_even_near, simp add: B_def)+
  have "8 \<le> K" using power_increasing [OF k, of "2::nat"] by (simp add: K_def)
  then have BK: "8 * B \<le> B * K" by simp
  have rB: "r * (B * K) \<le> 4 * (B * K)" using qr(2) by simp
  have "4 * (w * K) \<le> B * K" using w by (simp add: B_def)
  moreover have "0 < B * K" by (simp add: B_def K_def)
  ultimately have "m * B < q * (B * K) + B * K" using near(1) a5 BK rB by linarith
  then have "m * B < (q + 1) * K * B" by (simp add: algebra_simps)
  then have up: "m < (q + 1) * K" by simp
  have lo: "q * K \<le> m"
  proof (rule ccontr)
    assume "\<not> q * K \<le> m"
    then have "(m + 1) * B \<le> q * K * B" by (intro mult_le_mono1) simp
    then have "m * B + B \<le> q * (B * K)" by (simp add: algebra_simps)
    moreover have "0 < B" by (simp add: B_def)
    ultimately show False using near(2) a5 by linarith
  qed
  have "m div K = q"
  proof (rule div_nat_eqI)
    show "K * q \<le> m" using lo by (simp add: mult.commute)
    show "m < K * Suc q" using up by (simp add: mult.commute)
  qed
  then show ?thesis by (simp add: m_def q_def A_def B_def K_def)
qed

lemma mild_backoff_eq:
  assumes "0 \<le> w" "w < 2 ^ 31" shows "mild_backoff w = 4 * w div 5"
proof (cases "w = 0")
  case True
  then show ?thesis by (simp add: mild_backoff_def to_double_def)
next
  case False
  define n where "n = nat w"
  have n: "w = int n" "0 < n" "n < 2 ^ 31" using assms False by (simp_all add: n_def)
  define a where "a = n * 3602879701896397"
  have "a < 2 ^ 83"
  proof -
    have "a \<le> 2 ^ 31 * 3602879701896397" unfolding a_def using n(3) by simp
    then show ?thesis by simp
  qed
  then have la: "bitlen a \<le> 83" using bitlen_le [of a 83] n(2) by (simp add: a_def)
  have b53: "bitlen (2 ^ 52) = 53" by (simp add: bitlen.simps)
  define e0 where "e0 = int (bitlen a) - int (bitlen (2 ^ 52)) - 53"
  define e where "e = (case scaled a (2 ^ 52) e0 of (x, y) \<Rightarrow> if x div y \<ge> 2 ^ 53 then e0 + 1 else e0)"
  have e: "e \<le> - 3" using la b53 by (simp add: e_def e0_def split: prod.splits)
  have "to_double False a (2 ^ 52) = (case scaled a (2 ^ 52) e of (x, y) \<Rightarrow> Fin False (round_div_even x y) e)"
    using n(2) by (simp only: to_double_def e_def e0_def Let_def) (simp add: a_def)
  also have "scaled a (2 ^ 52) e = (a * 2 ^ nat (- e), 2 ^ 52)" using e by (simp add: scaled_def)
  finally have d: "to_double False a (2 ^ 52) = Fin False (round_div_even (a * 2 ^ nat (- e)) (2 ^ 52)) e" by simp
  have "mild_backoff w = int (round_div_even (a * 2 ^ nat (- e)) (2 ^ 52) div 2 ^ nat (- e))"
    using e n d by (simp add: mild_backoff_def a_def n_def Let_def)
  also have "\<dots> = int (4 * n div 5)" unfolding a_def using four_fifths [OF n(3), of "nat (- e)"] e by simp
  finally show ?thesis by (simp add: n(1) zdiv_int)
qed

section \<open>Allocations\<close>

abbreviation allocated :: "lib_state \<Rightarrow> size_t" where
  "allocated s \<equiv> sum_list (map snd (l_allocations s))"

definition alloc_ok :: "lib_state \<Rightarrow> bool" where
  "alloc_ok s \<longleftrightarrow> l_sum_allocated s = allocated s"

lemma insert_allocation_eq:
  assumes "insert_cuda_allocation p n s = Inr t"
  shows "quiet (s\<lparr>l_sum_allocated := l_sum_allocated s + n, l_allocations := l_allocations s @ [(p, n)]\<rparr>) t"
  using quiet_report [OF assms [unfolded insert_cuda_allocation_def Let_def]] .

lemma remove_loop_eq:
  assumes "remove_alloc_loop rm pre as s = Inr t" "l_allocations s = rev pre @ as" "\<forall>a \<in> set pre. fst a \<noteq> rm"
    "alloc_ok s"
  shows "quiet (s\<lparr>l_sum_allocated := sum_list (map snd (filter (\<lambda>a. fst a \<noteq> rm) (rev pre @ as))),
                 l_allocations := filter (\<lambda>a. fst a \<noteq> rm) (rev pre @ as)\<rparr>) t"
  using assms
proof (induction as arbitrary: pre s)
  case Nil
  have f: "filter (\<lambda>a. fst a \<noteq> rm) (rev pre) = rev pre" using Nil.prems(3) by (simp add: filter_id_conv)
  have "s\<lparr>l_sum_allocated := sum_list (map snd (rev pre)), l_allocations := rev pre\<rparr> = s"
    using Nil.prems(2,4) by (simp add: alloc_ok_def flip: Nil.prems(2))
  then show ?case using Nil.prems(1) f by simp
next
  case (Cons a as)
  obtain p sz where a: "a = (p, sz)" by (cases a)
  show ?case
  proof (cases "p = rm")
    case True
    let ?s1 = "s\<lparr>l_sum_allocated := l_sum_allocated s - sz, l_allocations := rev pre @ as\<rparr>"
    obtain s2 where s2: "report_memory_usage_to_scheduler (l_sum_allocated ?s1) ?s1 = Inr s2"
      "remove_alloc_loop rm pre as s2 = Inr t"
      using Cons.prems(1) True by (auto simp: a Let_def res_simps)
    obtain c m where e: "s2 = ?s1\<lparr>l_calls := c, l_sent := m\<rparr>" using quiet_report [OF s2(1)] by (rule quietE)
    have "alloc_ok s2" using Cons.prems(2,4) by (simp add: alloc_ok_def e a)
    with Cons.IH [OF s2(2) _ Cons.prems(3)] have
      "quiet (s2\<lparr>l_sum_allocated := sum_list (map snd (filter (\<lambda>a. fst a \<noteq> rm) (rev pre @ as))),
                 l_allocations := filter (\<lambda>a. fst a \<noteq> rm) (rev pre @ as)\<rparr>) t" by (simp add: e)
    then show ?thesis using True by (auto simp: e a elim!: quietE intro: quietI)
  next
    case False
    then show ?thesis using Cons.prems Cons.IH [of "a # pre" s] by (simp add: a)
  qed
qed

lemma remove_allocation_eq:
  assumes "remove_cuda_allocation rm s = Inr t" "alloc_ok s"
  shows "quiet (s\<lparr>l_sum_allocated := sum_list (map snd (filter (\<lambda>a. fst a \<noteq> rm) (l_allocations s))),
                 l_allocations := filter (\<lambda>a. fst a \<noteq> rm) (l_allocations s)\<rparr>) t"
  using remove_loop_eq [OF assms(1) [unfolded remove_cuda_allocation_def]] assms(2) by simp

lemma mem_info_eq: "\<exists>c. snd (snd (cuMemGetInfo out s)) = s\<lparr>l_calls := c\<rparr>"
proof (cases "has_real ''cuMemGetInfo'' s")
  case True
  then show ?thesis by (auto simp: cuMemGetInfo_def tick_def Let_def split: prod.splits)
next
  case False
  then show ?thesis by (intro exI [of _ "l_calls s"]) (simp add: cuMemGetInfo_def)
qed

text \<open>What an allocation does: it may fix the amount of memory on first use, and it adds the new
  block only when the limits allow it and the driver succeeds.\<close>

definition first_max :: "size_t \<Rightarrow> lib_state \<Rightarrow> size_t" where
  "first_max junk s = (if l_got_max_mem_size s then l_mem_allocatable s
     else fst (fst (snd (cuMemGetInfo (l_mem_allocatable s, junk) s))))"

text \<open>The state after the amount of memory is known.\<close>

definition measured :: "size_t \<Rightarrow> nat \<Rightarrow> lib_state \<Rightarrow> lib_state" where
  "measured junk c s = s\<lparr>l_mem_allocatable := first_max junk s, l_got_max_mem_size := True, l_calls := c\<rparr>"

lemma first_use:
  obtains c where "(if l_got_max_mem_size s then s
      else (let (_, (mfree, _), s') = cuMemGetInfo (l_mem_allocatable s, junk) s in
            s'\<lparr>l_mem_allocatable := mfree, l_got_max_mem_size := True\<rparr>)) = measured junk c s"
proof (cases "l_got_max_mem_size s")
  case True
  then show ?thesis by (intro that [of "l_calls s"]) (simp add: measured_def first_max_def)
next
  case False
  obtain r' f tot s' where i: "cuMemGetInfo (l_mem_allocatable s, junk) s = (r', (f, tot), s')" by (metis prod.exhaust)
  with mem_info_eq [of "(l_mem_allocatable s, junk)" s] obtain c where "s' = s\<lparr>l_calls := c\<rparr>" by auto
  then show ?thesis using i False by (intro that [of c]) (simp add: measured_def first_max_def)
qed

lemma mem_alloc_eq:
  assumes "has_real ''cuMemAllocManaged'' s"
  obtains c where "cuMemAlloc junk d n s =
     (if 0 < l_memory_limit s \<and> l_memory_limit s < l_sum_allocated s + n
         \<or> first_max junk s < l_sum_allocated s + n \<and> \<not> l_single_oversub s
      then Inr (CUDA_ERROR_OUT_OF_MEMORY, d, measured junk c s)
      else (let (result, q) = dr_malloc (l_drv s) c n in
            if result = CUDA_SUCCESS
            then bindR (insert_cuda_allocation q n (measured junk (Suc c) s)) (\<lambda>t. Inr (result, q, t))
            else Inr (result, q, measured junk (Suc c) s)))"
proof -
  obtain c where c: "(if l_got_max_mem_size s then s
      else (let (_, (mfree, _), s') = cuMemGetInfo (l_mem_allocatable s, junk) s in
            s'\<lparr>l_mem_allocatable := mfree, l_got_max_mem_size := True\<rparr>)) = measured junk c s"
    by (rule first_use)
  have "tick (measured junk c s) = (c, measured junk (Suc c) s)" by (simp add: tick_def measured_def)
  then show thesis using assms c by (intro that [of c]) (simp add: cuMemAlloc_def measured_def Let_def split: prod.split)
qed

lemma booked:
  assumes "insert_cuda_allocation q n (measured junk c s) = Inr t"
  shows "quiet (s\<lparr>l_mem_allocatable := first_max junk s, l_got_max_mem_size := True, l_sum_allocated := l_sum_allocated s + n,
           l_allocations := l_allocations s @ [(q, n)]\<rparr>) t"
proof -
  from insert_allocation_eq [OF assms] obtain c' m' where
    "t = (measured junk c s)\<lparr>l_sum_allocated := l_sum_allocated s + n,
          l_allocations := l_allocations s @ [(q, n)]\<rparr>\<lparr>l_calls := c', l_sent := m'\<rparr>"
    by (rule quietE) (simp add: measured_def)
  then show ?thesis by (intro quietI) (simp add: measured_def)
qed

lemma mem_alloc_cases:
  assumes "cuMemAlloc junk d n s = Inr (r, p, t)"
  obtains (not_loaded) "t = s" "r = CUDA_ERROR_NOT_INITIALIZED" "\<not> has_real ''cuMemAllocManaged'' s"
  | (failed) a g where "quiet (s\<lparr>l_mem_allocatable := a, l_got_max_mem_size := g\<rparr>) t" "r \<noteq> CUDA_SUCCESS"
      "l_sent t = l_sent s" "g" "a = first_max junk s"
  | (success) a g c where "r = CUDA_SUCCESS"
      "quiet (s\<lparr>l_mem_allocatable := a, l_got_max_mem_size := g, l_sum_allocated := l_sum_allocated s + n,
               l_allocations := l_allocations s @ [(p, n)]\<rparr>) t"
      "0 < l_memory_limit s \<Longrightarrow> l_sum_allocated s + n \<le> l_memory_limit s"
      "l_single_oversub s \<or> l_sum_allocated s + n \<le> a" "g" "a = first_max junk s"
      "insert_cuda_allocation p n (s\<lparr>l_mem_allocatable := a, l_got_max_mem_size := g, l_calls := c\<rparr>) = Inr t"
proof (cases "has_real ''cuMemAllocManaged'' s")
  case True
  let ?full = "0 < l_memory_limit s \<and> l_memory_limit s < l_sum_allocated s + n
    \<or> first_max junk s < l_sum_allocated s + n \<and> \<not> l_single_oversub s"
  obtain c where c: "cuMemAlloc junk d n s =
     (if ?full then Inr (CUDA_ERROR_OUT_OF_MEMORY, d, measured junk c s)
      else (let (result, q) = dr_malloc (l_drv s) c n in
            if result = CUDA_SUCCESS
            then bindR (insert_cuda_allocation q n (measured junk (Suc c) s)) (\<lambda>t. Inr (result, q, t))
            else Inr (result, q, measured junk (Suc c) s)))"
    by (rule mem_alloc_eq [OF True])
  have refused: ?thesis if "t = measured junk k s" "r \<noteq> CUDA_SUCCESS" for k
    using that by (intro failed [where a = "first_max junk s" and g = True]) (auto simp: measured_def quiet_def)
  consider "t = measured junk c s" "r = CUDA_ERROR_OUT_OF_MEMORY" | "t = measured junk (Suc c) s" "r \<noteq> CUDA_SUCCESS"
    | "\<not> ?full" "r = CUDA_SUCCESS" "insert_cuda_allocation p n (measured junk (Suc c) s) = Inr t"
    using assms unfolding c by (auto simp: bindR_Inr_iff split: if_splits prod.splits)
  then show ?thesis
  proof cases
    case 3
    show ?thesis
      by (rule success [OF 3(2) booked [OF 3(3)], of "Suc c"]) (use 3 in \<open>auto simp: not_less measured_def\<close>)
  qed (simp_all add: refused)
qed (use assms in \<open>auto simp: cuMemAlloc_def intro: not_loaded\<close>)

section \<open>The invariant\<close>

definition window_ok :: "lib_state \<Rightarrow> bool" where
  "window_ok s \<longleftrightarrow> (1 \<le> l_window_min_floor s \<and> l_window_min_floor s \<le> KERN_SYNC_WINDOW_MAX \<longrightarrow>
     1 \<le> l_pending_kernel_window s \<and> l_pending_kernel_window s \<le> KERN_SYNC_WINDOW_MAX)"

definition lock_ok :: "lib_state \<Rightarrow> bool" where
  "lock_ok s \<longleftrightarrow> \<not> (l_own_lock s \<and> l_need_lock s) \<and> m_type (l_req_lock_msg s) = REQ_LOCK"

definition lib_inv :: "lib_state \<Rightarrow> bool" where
  "lib_inv s \<longleftrightarrow> alloc_ok s \<and> lock_ok s \<and> window_ok s"

lemmas lib_inv_defs = lib_inv_def alloc_ok_def lock_ok_def window_ok_def

lemma lib_inv_quiet: "quiet s t \<Longrightarrow> lib_inv t = lib_inv s"
  by (elim quietE) (simp add: lib_inv_defs)

lemma lib_inv_calls [simp]: "lib_inv (s\<lparr>l_calls := c\<rparr>) = lib_inv s"
  by (rule lib_inv_quiet) simp

lemma kernel_window_max_bounds: "16 \<le> get_kernel_window_max c \<and> get_kernel_window_max c \<le> KERN_SYNC_WINDOW_MAX"
  by (simp add: get_kernel_window_max_def KERN_SYNC_WINDOW_MAX_def Let_def)

lemma window_ok_adapt: assumes "window_ok s" shows "window_ok (adapt_window secs b s)"
proof -
  let ?w = "l_pending_kernel_window s" and ?f = "l_window_min_floor s"
  have floor: "l_window_min_floor (adapt_window secs b s) = ?f" by (simp add: adapt_window_def Let_def)
  have "1 \<le> l_pending_kernel_window (adapt_window secs b s) \<and> l_pending_kernel_window (adapt_window secs b s) \<le> 2048"
    if f: "1 \<le> ?f" "?f \<le> 2048"
  proof -
    have w: "1 \<le> ?w" "?w \<le> 2048" using assms f by (auto simp: window_ok_def KERN_SYNC_WINDOW_MAX_def)
    then have "to_int32 (?w * 2) = ?w * 2" by (intro to_int32_id) auto
    moreover have "mild_backoff ?w = 4 * ?w div 5" by (rule mild_backoff_eq) (use w in auto)
    moreover have "4 * ?w div 5 \<le> 2048" "?w sdiv 2 \<le> 2048" using w by auto
    ultimately show ?thesis
      using f w kernel_window_max_bounds [of "l_core_limit s"]
      by (auto simp: adapt_window_def Let_def KERN_SYNC_WINDOW_MAX_def)
  qed
  then show ?thesis by (simp add: window_ok_def floor KERN_SYNC_WINDOW_MAX_def)
qed

lemma adapt_window_eq: "\<exists>n w. adapt_window secs b s = s\<lparr>l_timeout_count := n, l_pending_kernel_window := w\<rparr>"
proof (cases "secs \<ge> l_sync_duration_big s \<and> b")
  case True
  then show ?thesis
    by (intro exI [of _ "l_timeout_count s"]
        exI [of _ "min (to_int32 (l_pending_kernel_window s * 2)) (get_kernel_window_max (l_core_limit s))"])
      (simp add: adapt_window_def)
next
  case False
  then show ?thesis by (auto simp: adapt_window_def Let_def)
qed

lemma lib_inv_adapt: assumes "lib_inv s" shows "lib_inv (adapt_window secs b s)"
proof -
  obtain n w where e: "adapt_window secs b s = s\<lparr>l_timeout_count := n, l_pending_kernel_window := w\<rparr>"
    using adapt_window_eq by blast
  have "alloc_ok (adapt_window secs b s)" "lock_ok (adapt_window secs b s)"
    using assms unfolding e by (simp_all add: lib_inv_defs)
  then show ?thesis using assms window_ok_adapt by (simp add: lib_inv_def)
qed

lemma lib_inv_since_sync [simp]: "lib_inv (s\<lparr>l_kern_since_sync := k\<rparr>) = lib_inv s"
  by (simp add: lib_inv_defs)

lemma lib_inv_did_work [simp]: "lib_inv (s\<lparr>l_did_work := b\<rparr>) = lib_inv s"
  by (simp add: lib_inv_defs)

lemma lib_inv_count: "lib_inv s \<Longrightarrow> lib_inv (snd (count_kernel r s))"
  by (simp add: count_kernel_def tick_def Let_def lib_inv_adapt)

section \<open>Preservation\<close>

lemma lib_inv_context: "get_app_context s = Inr t \<Longrightarrow> lib_inv s \<Longrightarrow> lib_inv t"
  by (auto simp: get_app_context_def tick_def lib_inv_defs split: if_splits prod.splits)

lemma lib_inv_request:
  assumes "request_lock s = Inr t" "lib_inv s" "\<not> l_own_lock s" shows "lib_inv t \<and> l_own_lock t = l_own_lock s"
proof (cases "l_need_lock s")
  case False
  then have "quiet (s\<lparr>l_need_lock := True\<rparr>) t" using assms(1) by (auto simp: request_lock_def dest: quiet_send)
  with assms show ?thesis by (elim quietE) (simp add: lib_inv_defs)
qed (use assms in \<open>simp add: request_lock_def\<close>)

lemma lib_inv_continue:
  assumes "continue_with_lock [] s = Inr (got, t)" "lib_inv s" shows "lib_inv t"
  using assms
  by (auto simp: continue_with_lock_def res_simps split: prod.splits if_splits
      dest: lib_inv_context dest!: lib_inv_request)

lemma lib_inv_locked:
  assumes "locked_call f [] s = Inr (r, t)" "lib_inv s" shows "lib_inv t"
  using assms by (auto simp: locked_call_def res_simps tick_def split: prod.splits if_splits dest!: lib_inv_continue)

lemma lib_inv_launch:
  assumes "cuLaunchKernel [] s = Inr (r, t)" "lib_inv s" shows "lib_inv t"
proof -
  obtain r1 s1 where l: "locked_call ''cuLaunchKernel'' [] s = Inr (r1, s1)"
    and t: "t = s1 \<or> (\<exists>x. t = snd (count_kernel x s1))"
    using assms(1) by (auto simp: cuLaunchKernel_def res_simps split: if_splits option.splits prod.splits) (metis snd_conv)+
  with lib_inv_locked [OF l assms(2)] show ?thesis by (auto simp: lib_inv_count)
qed

lemma lib_inv_alloc:
  assumes "cuMemAlloc junk d n s = Inr (r, p, t)" "lib_inv s" shows "lib_inv t"
  using assms(1)
proof (cases rule: mem_alloc_cases)
  case not_loaded
  then show ?thesis using assms(2) by simp
next
  case (failed a g)
  then show ?thesis using assms(2) by (elim quietE) (simp add: lib_inv_defs)
next
  case (success a g c)
  from success(2) show ?thesis using assms(2) by (elim quietE) (simp add: lib_inv_defs)
qed

lemma mem_free_cases:
  assumes "cuMemFree d s = Inr (r, t)"
  obtains (same) "quiet s t" "r \<noteq> CUDA_SUCCESS" "l_sent t = l_sent s"
  | (freed) "r = CUDA_SUCCESS" "remove_cuda_allocation d (s\<lparr>l_calls := Suc (l_calls s)\<rparr>) = Inr t"
proof (cases "has_real ''cuMemFree'' s")
  case True
  let ?s1 = "s\<lparr>l_calls := Suc (l_calls s)\<rparr>" and ?r = "dr_free (l_drv s) (l_calls s) d"
  have e: "(if ?r = CUDA_SUCCESS then bindR (remove_cuda_allocation d ?s1) (\<lambda>s2. Inr (?r, s2)) else Inr (?r, ?s1)) = Inr (r, t)"
    using assms True by (simp add: cuMemFree_def tick_def Let_def)
  show ?thesis
  proof (cases "?r = CUDA_SUCCESS")
    case True
    then show ?thesis using e freed by (auto simp only: if_True bindR_Inr_iff Inr_inject prod.inject)
  next
    case False
    then have "t = ?s1" "r \<noteq> CUDA_SUCCESS" using e by simp_all
    then show ?thesis by (intro same) simp_all
  qed
qed (use assms same in \<open>simp add: cuMemFree_def\<close>)

lemma lib_inv_free:
  assumes "cuMemFree d s = Inr (r, t)" "lib_inv s" shows "lib_inv t"
  using assms(1)
proof (cases rule: mem_free_cases)
  case same
  then show ?thesis using assms(2) lib_inv_quiet by simp
next
  case freed
  have "alloc_ok (s\<lparr>l_calls := Suc (l_calls s)\<rparr>)" using assms(2) by (simp add: lib_inv_defs)
  from remove_allocation_eq [OF freed(2) this] show ?thesis using assms(2) by (elim quietE) (simp add: lib_inv_defs)
qed

text \<open>The fields on which the invariant and the protocol depend.\<close>

definition mem_same :: "lib_state \<Rightarrow> lib_state \<Rightarrow> bool" where
  "mem_same s t \<longleftrightarrow> l_allocations t = l_allocations s \<and> l_sum_allocated t = l_sum_allocated s
     \<and> l_req_lock_msg t = l_req_lock_msg s \<and> l_window_min_floor t = l_window_min_floor s
     \<and> l_scheduler_on t = l_scheduler_on s"

lemma lock_ok_fields:
  "l_own_lock (on_lock_ok s)" "\<not> l_need_lock (on_lock_ok s)" "mem_same s (on_lock_ok s)"
  "l_pending_kernel_window (on_lock_ok s) = l_pending_kernel_window s" "l_sent (on_lock_ok s) = l_sent s"
proof -
  obtain c where c: "swap_in_all_allocations s = s\<lparr>l_calls := c\<rparr>" using swap_in_eq by blast
  show "l_own_lock (on_lock_ok s)" "\<not> l_need_lock (on_lock_ok s)" "mem_same s (on_lock_ok s)"
    "l_pending_kernel_window (on_lock_ok s) = l_pending_kernel_window s" "l_sent (on_lock_ok s) = l_sent s"
    by (simp_all add: on_lock_ok_def c tick_def monotonic_time_ms_def Let_def mem_same_def)
qed

lemma drop_lock_fields:
  assumes "on_drop_lock s = Inr t" "l_own_lock s"
  shows "\<not> l_own_lock t" "l_need_lock t = l_need_lock s" "mem_same s t" "l_pending_kernel_window t = 1"
    "l_sent t = ((l_out_msg s)\<lparr>m_type := LOCK_RELEASED\<rparr>, 659) # l_sent s"
proof -
  define s1 where "s1 = snd (drop_prepare s)"
  have p: "\<not> l_own_lock s1" "l_need_lock s1 = l_need_lock s" "mem_same s s1" "l_pending_kernel_window s1 = 1"
    "l_sent s1 = l_sent s" "l_out_msg s1 = (l_out_msg s)\<lparr>m_type := LOCK_RELEASED\<rparr>"
    by (simp_all add: s1_def drop_prepare_def monotonic_time_ms_def tick_def cuda_sync_context_def Let_def mem_same_def)
  have "bindR (lib_send (l_out_msg s1) s1) (\<lambda>s2. Inr (drop_finish (fst (drop_prepare s)) s2)) = Inr t"
    using assms by (simp add: on_drop_lock_def s1_def case_prod_beta)
  then obtain s2 where s2: "lib_send (l_out_msg s1) s1 = Inr s2" and t: "t = drop_finish (fst (drop_prepare s)) s2"
    by (auto simp: bindR_Inr_iff)
  from quiet_send [OF s2] obtain c m where e: "s2 = s1\<lparr>l_calls := c, l_sent := m\<rparr>" by (rule quietE)
  show "\<not> l_own_lock t" "l_need_lock t = l_need_lock s" "mem_same s t" "l_pending_kernel_window t = 1"
    using p by (simp_all add: t e drop_finish_def monotonic_time_ms_def tick_def Let_def mem_same_def)
  show "l_sent t = ((l_out_msg s)\<lparr>m_type := LOCK_RELEASED\<rparr>, 659) # l_sent s"
    using sent_send [OF s2] p by (simp add: t drop_finish_def monotonic_time_ms_def tick_def Let_def)
qed

lemma lib_inv_mem_same:
  assumes "lib_inv s" "mem_same s t" "\<not> (l_own_lock t \<and> l_need_lock t)"
    "l_pending_kernel_window t = l_pending_kernel_window s \<or> l_pending_kernel_window t = 1"
  shows "lib_inv t"
  using assms by (auto simp: lib_inv_defs mem_same_def KERN_SYNC_WINDOW_MAX_def)

lemma lib_inv_msg:
  assumes "client_msg m s = Inr t" "lib_inv s" shows "lib_inv t"
proof (cases "m_type m")
  case LOCK_OK
  then have t: "t = on_lock_ok s" using assms(1) by (simp add: client_msg_def)
  show ?thesis unfolding t by (rule lib_inv_mem_same [OF assms(2)]) (simp_all add: lock_ok_fields)
next
  case DROP_LOCK
  then have d: "on_drop_lock s = Inr t" using assms(1) by (simp add: client_msg_def)
  show ?thesis
  proof (cases "l_own_lock s")
    case True
    note f = drop_lock_fields [OF d True]
    show ?thesis by (rule lib_inv_mem_same [OF assms(2)]) (simp_all add: f)
  qed (use d assms(2) in \<open>simp add: on_drop_lock_def\<close>)
next
  case PREPARE_SWAP_OUT
  then show ?thesis using assms swap_out_eq [of s] by (auto simp: client_msg_def)
qed (use assms in \<open>auto simp: client_msg_def hook_update_memory_limit_def lib_inv_defs split: if_splits\<close>)

lemma is_idle_fields:
  "mem_same s (snd (is_idle s))" "l_own_lock (snd (is_idle s)) = l_own_lock s" "l_need_lock (snd (is_idle s)) = l_need_lock s"
  "l_sent (snd (is_idle s)) = l_sent s"
  "l_pending_kernel_window (snd (is_idle s)) = l_pending_kernel_window s \<or> l_pending_kernel_window (snd (is_idle s)) = 1"
  "l_client_id (snd (is_idle s)) = l_client_id s"
  by (auto simp: is_idle_def tick_def cuda_sync_context_def Let_def mem_same_def split: option.splits)

lemma early_timeout_fields:
  assumes "release_early_timeout s = Inr t"
  shows "mem_same s t" "l_need_lock t = l_need_lock s"
    "l_pending_kernel_window t = l_pending_kernel_window s \<or> l_pending_kernel_window t = 1"
    "l_own_lock t = l_own_lock s \<and> l_sent t = l_sent s
     \<or> l_own_lock s \<and> \<not> l_own_lock t \<and> l_scheduler_on s
       \<and> l_sent t = (zero_message\<lparr>m_type := LOCK_RELEASED, m_id := l_client_id s\<rparr>, 659) # l_sent s"
proof -
  define s1 where "s1 = snd (is_idle s)"
  note i = is_idle_fields [of s, folded s1_def]
  let ?m = "zero_message\<lparr>m_type := LOCK_RELEASED, m_id := l_client_id s\<rparr>"
  have c: "t = s \<or> t = s\<lparr>l_did_work := False\<rparr> \<or> t = s1
    \<or> (\<exists>s2. lib_send ?m s1 = Inr s2 \<and> t = s2\<lparr>l_own_lock := False\<rparr> \<and> l_scheduler_on s \<and> l_own_lock s)"
  proof (cases "\<not> l_scheduler_on s \<or> \<not> l_own_lock s")
    case True
    then show ?thesis using assms by (simp add: release_early_timeout_def)
  next
    case on: False
    show ?thesis
    proof (cases "l_did_work s")
      case True
      then show ?thesis using assms on by (simp add: release_early_timeout_def)
    next
      case False
      then have "(if \<not> fst (is_idle s) then Inr s1
          else bindR (lib_send ?m s1) (\<lambda>s2. Inr (s2\<lparr>l_own_lock := False\<rparr>))) = Inr t"
        using assms i(6) on
        by (cases "fst (is_idle s)") (simp_all add: release_early_timeout_def s1_def case_prod_beta)
      then show ?thesis using on by (cases "fst (is_idle s)") (auto simp: bindR_Inr_iff)
    qed
  qed
  then consider (same) "t = s" | (work) "t = s\<lparr>l_did_work := False\<rparr>" | (busy) "t = s1"
    | (idle) s2 where "lib_send ?m s1 = Inr s2" "t = s2\<lparr>l_own_lock := False\<rparr>" "l_scheduler_on s" "l_own_lock s"
    by blast
  then have "mem_same s t \<and> l_need_lock t = l_need_lock s
    \<and> (l_pending_kernel_window t = l_pending_kernel_window s \<or> l_pending_kernel_window t = 1)
    \<and> (l_own_lock t = l_own_lock s \<and> l_sent t = l_sent s
      \<or> l_own_lock s \<and> \<not> l_own_lock t \<and> l_scheduler_on s \<and> l_sent t = (?m, 659) # l_sent s)"
  proof cases
    case (idle s2)
    from quiet_send [OF idle(1)] obtain c m where e: "s2 = s1\<lparr>l_calls := c, l_sent := m\<rparr>" by (rule quietE)
    show ?thesis using i idle sent_send [OF idle(1)] by (auto simp: e mem_same_def)
  qed (use i in \<open>auto simp: mem_same_def\<close>)
  then show "mem_same s t" "l_need_lock t = l_need_lock s"
    "l_pending_kernel_window t = l_pending_kernel_window s \<or> l_pending_kernel_window t = 1"
    "l_own_lock t = l_own_lock s \<and> l_sent t = l_sent s
     \<or> l_own_lock s \<and> \<not> l_own_lock t \<and> l_scheduler_on s \<and> l_sent t = (?m, 659) # l_sent s" by blast+
qed

lemma lib_inv_early:
  assumes "release_early_wake w s = Inr (b, t)" "lib_inv s" shows "lib_inv t"
proof (cases w)
  case TimedOut
  then obtain s1 where s1: "release_early_timeout s = Inr s1" "t = s1\<lparr>l_did_work := False\<rparr>"
    using assms(1) by (auto simp: release_early_wake_def bindR_Inr_iff)
  note f = early_timeout_fields [OF s1(1)]
  have "\<not> (l_own_lock s1 \<and> l_need_lock s1)" using f(2,4) assms(2) by (auto simp: lib_inv_defs)
  from lib_inv_mem_same [OF assms(2) f(1) this f(3)] show ?thesis by (simp add: s1(2))
qed (use assms in \<open>auto simp: release_early_wake_def\<close>)

section \<open>The threads of the library\<close>

text \<open>The steps of the application and of the early release, which need no message; a call that has
  to wait for the lock ends the step and is resumed by a later one.\<close>

inductive app_step :: "lib_state \<Rightarrow> lib_state \<Rightarrow> bool" where
  app_wait: "continue_with_lock [] s = Inr (got, t) \<Longrightarrow> app_step s t"
| app_copy: "locked_call f [] s = Inr (r, t) \<Longrightarrow> app_step s t"
| app_launch: "cuLaunchKernel [] s = Inr (r, t) \<Longrightarrow> app_step s t"
| app_alloc: "cuMemAlloc junk d n s = Inr (r, p, t) \<Longrightarrow> app_step s t"
| app_free: "cuMemFree d s = Inr (r, t) \<Longrightarrow> app_step s t"
| app_info: "cuMemGetInfo out s = (r, v, t) \<Longrightarrow> app_step s t"
| app_lookup: "get_proc_address self symbol s = (r, a, t) \<Longrightarrow> app_step s t"
| early_release: "release_early_wake w s = Inr (b, t) \<Longrightarrow> app_step s t"

inductive lib_step :: "lib_state \<Rightarrow> lib_state \<Rightarrow> bool" where
  step_app: "app_step s t \<Longrightarrow> lib_step s t"
| step_msg: "client_msg m s = Inr t \<Longrightarrow> lib_step s t"

lemma lookup_quiet: "get_proc_address self symbol s = (r, a, t) \<Longrightarrow> quiet s t"
  by (auto simp: get_proc_address_def tick_def Let_def split: if_splits option.splits prod.splits)

lemma info_quiet: "cuMemGetInfo out s = (r, v, t) \<Longrightarrow> quiet s t"
  using mem_info_eq [of out s] by auto

lemma app_step_inv: "app_step s t \<Longrightarrow> lib_inv s \<Longrightarrow> lib_inv t"
  by (induction rule: app_step.induct)
    (auto dest: lib_inv_continue lib_inv_locked lib_inv_launch lib_inv_alloc lib_inv_free lib_inv_early
      dest!: lookup_quiet info_quiet simp: lib_inv_quiet)

lemma lib_step_inv: "lib_inv s \<Longrightarrow> lib_step s t \<Longrightarrow> lib_inv t"
  by (auto elim!: lib_step.cases intro: app_step_inv lib_inv_msg)

section \<open>Start of the library\<close>

lemma from_env_keeps: "P c \<Longrightarrow> (\<And>v c. P c \<Longrightarrow> P (f v c)) \<Longrightarrow> P (from_env getenv name f c)"
  by (auto simp: from_env_def split: option.splits)

text \<open>What loading and configuration leave alone.\<close>

definition untouched :: "lib_state \<Rightarrow> bool" where
  "untouched s \<longleftrightarrow> l_allocations s = [] \<and> l_sum_allocated s = 0 \<and> l_pending_kernel_window s = 64 \<and> l_sent s = []"

lemma untouched_nvml: "untouched s \<Longrightarrow> untouched (load_nvml opened found s)"
  by (simp add: load_nvml_def nvml_table_def load_nvml_one_def untouched_def)

lemma untouched_cuda: "load_cuda found fs s = Inr t \<Longrightarrow> untouched s \<Longrightarrow> untouched t"
  by (induction found fs s rule: load_cuda.induct) (auto simp: untouched_def split: if_splits)

lemma untouched_bootstrap: "bootstrap_cuda ld s = Inr t \<Longrightarrow> untouched s \<Longrightarrow> untouched t"
  by (auto simp: bootstrap_cuda_def Let_def split: if_splits dest: untouched_cuda intro: untouched_nvml)

lemma untouched_init:
  assumes "initialize_libnvshare getenv oob ld s = Inr t" "untouched s" shows "untouched t"
  using assms(1) unfolding initialize_libnvshare_def Let_def
  by (rule untouched_bootstrap) (intro from_env_keeps [where P = untouched] assms(2); simp add: untouched_def)+

definition start_ok :: "lib_state \<Rightarrow> bool" where
  "start_ok s \<longleftrightarrow> l_allocations s = [] \<and> l_sum_allocated s = 0 \<and> l_pending_kernel_window s = 64
     \<and> \<not> l_need_lock s \<and> (l_own_lock s \<longleftrightarrow> \<not> l_scheduler_on s) \<and> list_all (\<lambda>e. m_type (fst e) = REGISTER) (l_sent s)"

lemma register_start:
  assumes "client_register getenv file pid conn reply s = Inr t" "untouched s" shows "start_ok t"
proof -
  obtain a r where c: "nvshare_connect 0 conn = Some r" "so_ret r = 0"
    and a: "a = s\<lparr>l_calls := Suc (l_calls s), l_gpu_uuid := visible_gpu getenv,
        l_rsock := (case so_sock r of Some fd \<Rightarrow> fd | None \<Rightarrow> l_rsock s)\<rparr>"
    and b: "bindR (lib_send (register_message getenv file pid) a)
        (\<lambda>s3. bindR (receive_from_scheduler reply) (\<lambda>m. initial_status m s3)) = Inr t"
    using assms(1) by (auto simp: client_register_def tick_def Let_def split: if_splits option.splits)
  from b obtain s3 m where s3: "lib_send (register_message getenv file pid) a = Inr s3" and i: "initial_status m s3 = Inr t"
    by (auto simp: bindR_Inr_iff)
  have "m_type (register_message getenv file pid) = REGISTER" by (simp add: register_message_def Let_def)
  with sent_send [OF s3] assms(2) have l: "list_all (\<lambda>e. m_type (fst e) = REGISTER) (l_sent s3)"
    by (simp add: a untouched_def)
  from quiet_send [OF s3] obtain c' m' where e: "s3 = a\<lparr>l_calls := c', l_sent := m'\<rparr>" by (rule quietE)
  show ?thesis using i l assms(2)
    by (auto simp: initial_status_def start_ok_def untouched_def e a split: if_splits option.splits)
qed

lemma setup_same:
  "mem_same s (release_early_setup s)" "l_own_lock (release_early_setup s) = l_own_lock s"
  "l_need_lock (release_early_setup s) = l_need_lock s" "l_sent (release_early_setup s) = l_sent s"
  "l_pending_kernel_window (release_early_setup s) = l_pending_kernel_window s"
  by (simp_all add: release_early_setup_def tick_def Let_def mem_same_def)

lemma enter_start:
  assumes "enter_library p False (lib_zero d) = Inr s"
  shows "start_ok s" "m_type (l_req_lock_msg s) = REQ_LOCK"
proof -
  obtain s1 s2 where s1: "initialize_libnvshare (pr_env p) (pr_oob p) (pr_linker p) (lib_zero d) = Inr s1"
    and s2: "client_register (pr_env p) (pr_namespace p) (pr_pid p) (pr_connect p) (pr_reply p)
      (s1\<lparr>l_scheduler_on := False, l_cuda_ctx := None, l_own_lock := False, l_need_lock := False, l_lock_acquire_time := 0\<rparr>) = Inr s2"
    and s: "s = (release_early_setup s2)\<lparr>l_req_lock_msg := zero_message\<lparr>m_type := REQ_LOCK,
      m_id := l_client_id (release_early_setup s2)\<rparr>\<rparr>"
    using assms by (auto simp: enter_library_def initialize_client_def bindR_Inr_iff Let_def)
  have "untouched s1" by (rule untouched_init [OF s1]) (simp add: untouched_def lib_zero_def)
  then have "start_ok s2" by (intro register_start [OF s2]) (simp add: untouched_def)
  then show "start_ok s" "m_type (l_req_lock_msg s) = REQ_LOCK"
    using setup_same [of s2] by (simp_all add: s start_ok_def mem_same_def)
qed

definition lib_start :: "lib_state \<Rightarrow> bool" where
  "lib_start s \<longleftrightarrow> (\<exists>p d. enter_library p False (lib_zero d) = Inr s)"

lemma lib_start_ok: "lib_start s \<Longrightarrow> start_ok s \<and> m_type (l_req_lock_msg s) = REQ_LOCK"
  using enter_start by (auto simp: lib_start_def)

lemma lib_start_inv: "lib_start s \<Longrightarrow> lib_inv s"
  by (drule lib_start_ok) (simp add: lib_inv_defs start_ok_def KERN_SYNC_WINDOW_MAX_def)

interpretation library: invariant_system lib_start lib_step lib_inv
  by unfold_locales (auto intro: lib_start_inv lib_step_inv)

end
