(* ===== verification/LockProtocol.thy ===== *)
theory LockProtocol
  imports LibSafety
begin

text \<open>
  The contract of a client of the GPU lock, as the scheduler relies on it: it asks for the lock only
  when it neither holds nor awaits it, and releases it only when it holds it. The contract is a
  locale over phases and logs; the interposer library is shown to satisfy it while the scheduler
  keeps to its side (it grants only what was asked for) and stays on.
\<close>

datatype phase = Idle | Waiting | Holding

text \<open>One step of a client and the lock messages it sends.\<close>

inductive protocol :: "phase \<Rightarrow> message_type list \<Rightarrow> phase \<Rightarrow> bool" where
  stay: "protocol p [] p"
| request: "protocol Idle [REQ_LOCK] Waiting"
| granted: "protocol Waiting [] Holding"
| release: "protocol Holding [LOCK_RELEASED] Idle"

inductive_cases protocolE: "protocol p out q"

text \<open>Requests and releases take turns; the flag tells which comes next.\<close>

fun alternates :: "bool \<Rightarrow> message_type list \<Rightarrow> bool" where
  "alternates b [] \<longleftrightarrow> True"
| "alternates b (m # ms) \<longleftrightarrow> m = (if b then REQ_LOCK else LOCK_RELEASED) \<and> alternates (\<not> b) ms"

lemma alternates_append: "alternates b (xs @ ys) \<longleftrightarrow> alternates b xs \<and> alternates (b = even (length xs)) ys"
  by (induction b xs rule: alternates.induct) auto

locale lock_client =
  fixes phase_of :: "'s \<Rightarrow> phase"
    and log :: "'s \<Rightarrow> message_type list"
    and start :: "'s \<Rightarrow> bool"
    and step :: "'s \<Rightarrow> 's \<Rightarrow> bool"
    and inv :: "'s \<Rightarrow> bool"
  assumes start_idle: "start s \<Longrightarrow> phase_of s = Idle \<and> log s = [] \<and> inv s"
    and step_protocol: "inv s \<Longrightarrow> step s t \<Longrightarrow> inv t \<and> (\<exists>out. log t = log s @ out \<and> protocol (phase_of s) out (phase_of t))"
begin

definition in_turn :: "'s \<Rightarrow> bool" where
  "in_turn s \<longleftrightarrow> inv s \<and> alternates True (log s) \<and> (phase_of s = Idle \<longleftrightarrow> even (length (log s)))"

lemma in_turn_step: "in_turn s \<Longrightarrow> step s t \<Longrightarrow> in_turn t"
  using step_protocol [of s t] by (auto simp: in_turn_def alternates_append elim!: protocolE)

lemma in_turn_run: "step\<^sup>*\<^sup>* s t \<Longrightarrow> in_turn s \<Longrightarrow> in_turn t"
  by (induction rule: rtranclp_induct) (auto intro: in_turn_step)

lemma lock_traffic_alternates:
  assumes "start s" "step\<^sup>*\<^sup>* s t"
  shows "alternates True (log t) \<and> (phase_of t = Idle \<longleftrightarrow> even (length (log t)))"
proof -
  have "in_turn s" using start_idle [OF assms(1)] by (simp add: in_turn_def)
  from in_turn_run [OF assms(2) this] show ?thesis by (simp add: in_turn_def)
qed

end

section \<open>The interposer library as a client\<close>

definition lib_phase :: "lib_state \<Rightarrow> phase" where
  "lib_phase s = (if l_own_lock s then Holding else if l_need_lock s then Waiting else Idle)"

definition is_lock_msg :: "message_type \<Rightarrow> bool" where
  "is_lock_msg t \<longleftrightarrow> t = REQ_LOCK \<or> t = LOCK_RELEASED"

definition lock_log :: "lib_state \<Rightarrow> message_type list" where
  "lock_log s = filter is_lock_msg (rev (map (\<lambda>e. m_type (fst e)) (l_sent s)))"

text \<open>The scheduler grants the lock only to a client that waits, and does not change its status.\<close>

definition polite :: "lib_state \<Rightarrow> message \<Rightarrow> bool" where
  "polite s m \<longleftrightarrow> (m_type m = LOCK_OK \<longrightarrow> l_need_lock s) \<and> (m_type m = SCHED_ON \<longrightarrow> l_scheduler_on s)
     \<and> (m_type m = SCHED_OFF \<longrightarrow> \<not> l_scheduler_on s)"

inductive polite_step :: "lib_state \<Rightarrow> lib_state \<Rightarrow> bool" where
  polite_app: "app_step s t \<Longrightarrow> polite_step s t"
| polite_msg: "polite s m \<Longrightarrow> client_msg m s = Inr t \<Longrightarrow> polite_step s t"

definition speaks :: "lib_state \<Rightarrow> lib_state \<Rightarrow> bool" where
  "speaks s t \<longleftrightarrow> (\<exists>out. lock_log t = lock_log s @ out \<and> protocol (lib_phase s) out (lib_phase t))"

lemma speaks_same:
  assumes "l_own_lock t = l_own_lock s" "l_need_lock t = l_need_lock s" "lock_log t = lock_log s" shows "speaks s t"
  using assms by (auto simp: speaks_def lib_phase_def intro: protocol.intros)

lemma lock_log_sent: "l_sent t = (m, k) # l_sent s \<Longrightarrow> lock_log t = lock_log s @ (if is_lock_msg (m_type m) then [m_type m] else [])"
  by (simp add: lock_log_def)

lemma lock_log_same: "l_sent t = l_sent s \<Longrightarrow> lock_log t = lock_log s"
  by (simp add: lock_log_def)

lemma lock_log_reports: "l_sent t = new @ l_sent s \<Longrightarrow> \<forall>e \<in> set new. m_type (fst e) = MEM_UPDATE \<Longrightarrow> lock_log t = lock_log s"
  by (simp add: lock_log_def is_lock_msg_def filter_False)
lemma lib_phase_cong: "l_own_lock t = l_own_lock s \<Longrightarrow> l_need_lock t = l_need_lock s \<Longrightarrow> lib_phase t = lib_phase s"
  by (simp add: lib_phase_def)

lemma speaks_trans_same:
  assumes "speaks s t" "l_own_lock u = l_own_lock t" "l_need_lock u = l_need_lock t" "lock_log u = lock_log t"
  shows "speaks s u"
  using assms(1) unfolding speaks_def lib_phase_cong [OF assms(2,3)] assms(4) .

lemma speaks_from_same:
  assumes "speaks t u" "l_own_lock t = l_own_lock s" "l_need_lock t = l_need_lock s" "lock_log t = lock_log s"
  shows "speaks s u"
  using assms(1) unfolding speaks_def lib_phase_cong [OF assms(2,3)] assms(4) .

lemma context_same:
  assumes "get_app_context s = Inr t"
  shows "l_own_lock t = l_own_lock s \<and> l_need_lock t = l_need_lock s \<and> l_sent t = l_sent s
    \<and> l_req_lock_msg t = l_req_lock_msg s"
  using assms by (auto simp: get_app_context_def tick_def split: if_splits prod.splits)

lemma request_speaks:
  assumes "request_lock s = Inr t" "\<not> l_own_lock s" "m_type (l_req_lock_msg s) = REQ_LOCK" shows "speaks s t"
proof (cases "l_need_lock s")
  case True
  then show ?thesis using assms(1) by (simp add: request_lock_def speaks_same)
next
  case False
  let ?s = "s\<lparr>l_need_lock := True\<rparr>"
  have m: "lib_send (l_req_lock_msg s) ?s = Inr t" using assms(1) False by (simp add: request_lock_def)
  have "lock_log t = lock_log s @ [REQ_LOCK]"
    using lock_log_sent [OF sent_send [OF m]] assms(3) by (simp add: is_lock_msg_def lock_log_def)
  moreover from quiet_send [OF m] have "l_need_lock t" "\<not> l_own_lock t" using assms(2) by (auto elim!: quietE)
  ultimately show ?thesis using assms(2) False by (auto simp: speaks_def lib_phase_def intro: protocol.intros)
qed

lemma continue_speaks:
  assumes "continue_with_lock [] s = Inr (got, t)" "lib_inv s" shows "speaks s t"
proof -
  obtain s1 where s1: "get_app_context s = Inr s1"
    and w: "bindR (lock_wait [] s1) (\<lambda>(got, s2). Inr (got, if got then s2\<lparr>l_did_work := True\<rparr> else s2)) = Inr (got, t)"
    using assms(1) by (auto simp: continue_with_lock_def bindR_Inr_iff)
  note c = context_same [OF s1]
  have r: "m_type (l_req_lock_msg s1) = REQ_LOCK" using c assms(2) by (simp add: lib_inv_defs)
  have "speaks s1 t"
  proof (cases "l_own_lock s1")
    case True
    then have "t = s1\<lparr>l_did_work := True\<rparr>" using w by simp
    then show ?thesis by (simp add: speaks_same lock_log_def)
  next
    case False
    then obtain s2 where "request_lock s1 = Inr s2" "t = s2" using w by (auto simp: bindR_Inr_iff)
    then show ?thesis using request_speaks False r by blast
  qed
  then show ?thesis by (rule speaks_from_same) (use c in \<open>auto intro: lock_log_same\<close>)
qed

lemma locked_speaks:
  assumes "locked_call f [] s = Inr (r, t)" "lib_inv s" shows "speaks s t"
proof (cases "has_real f s")
  case True
  then obtain got s1 where s1: "continue_with_lock [] s = Inr (got, s1)" and t: "t = s1 \<or> t = s1\<lparr>l_calls := Suc (l_calls s1)\<rparr>"
    using assms(1) by (auto simp: locked_call_def bindR_Inr_iff tick_def split: if_splits)
  from t continue_speaks [OF s1 assms(2)] show ?thesis
    by (auto intro: speaks_trans_same simp: lock_log_def)
qed (use assms in \<open>simp add: locked_call_def speaks_same\<close>)

lemma count_same:
  "l_own_lock (snd (count_kernel r s)) = l_own_lock s" "l_need_lock (snd (count_kernel r s)) = l_need_lock s"
  "l_sent (snd (count_kernel r s)) = l_sent s"
  by (simp_all add: count_kernel_def tick_def adapt_window_def Let_def)

lemma launch_speaks:
  assumes "cuLaunchKernel [] s = Inr (r, t)" "lib_inv s" shows "speaks s t"
proof -
  obtain r1 s1 where l: "locked_call ''cuLaunchKernel'' [] s = Inr (r1, s1)"
    and t: "t = s1 \<or> (\<exists>x. t = snd (count_kernel x s1))"
    using assms(1) by (auto simp: cuLaunchKernel_def res_simps split: if_splits option.splits prod.splits) (metis snd_conv)+
  note sp = locked_speaks [OF l assms(2)]
  have "speaks s (snd (count_kernel x s1))" for x
    by (rule speaks_trans_same [OF sp]) (simp_all add: count_same lock_log_def)
  then show ?thesis using t sp by blast
qed

section \<open>Allocations report only their memory\<close>

definition reports :: "lib_state \<Rightarrow> lib_state \<Rightarrow> bool" where
  "reports s t \<longleftrightarrow> (\<exists>new. l_sent t = new @ l_sent s \<and> (\<forall>e \<in> set new. m_type (fst e) = MEM_UPDATE))"

lemma reports_refl: "l_sent t = l_sent s \<Longrightarrow> reports s t"
  by (simp add: reports_def)

lemma reports_trans: "reports s t \<Longrightarrow> reports t u \<Longrightarrow> reports s u"
  by (force simp: reports_def)

lemma report_reports: "report_memory_usage_to_scheduler a s = Inr t \<Longrightarrow> reports s t"
  using sent_report [of a s t] by (auto simp: reports_def)

lemma remove_reports: "remove_alloc_loop rm pre as s = Inr t \<Longrightarrow> reports s t"
proof (induction rm pre as s rule: remove_alloc_loop.induct)
  case (2 rm pre p sz as s)
  show ?case
  proof (cases "p = rm")
    case True
    let ?s = "s\<lparr>l_sum_allocated := l_sum_allocated s - sz, l_allocations := rev pre @ as\<rparr>"
    obtain s1 where s1: "report_memory_usage_to_scheduler (l_sum_allocated s - sz) ?s = Inr s1" "remove_alloc_loop rm pre as s1 = Inr t"
      using 2(3) True by (auto simp: bindR_Inr_iff Let_def)
    have "reports ?s t" using report_reports [OF s1(1)] 2(1) [OF True refl _ s1(2)] s1(1) by (auto intro: reports_trans)
    then show ?thesis by (simp add: reports_def)
  qed (use 2 in simp)
qed (simp add: reports_refl)

lemma reports_speaks:
  assumes "reports s t" "l_own_lock t = l_own_lock s" "l_need_lock t = l_need_lock s" shows "speaks s t"
  using assms lock_log_reports by (auto simp: reports_def intro: speaks_same)

lemma insert_reports: "insert_cuda_allocation p n s = Inr t \<Longrightarrow> reports s t"
  unfolding insert_cuda_allocation_def Let_def by (drule report_reports) (simp add: reports_def)

lemma alloc_speaks:
  assumes "cuMemAlloc junk d n s = Inr (r, p, t)" shows "speaks s t"
  using assms
proof (cases rule: mem_alloc_cases)
  case (failed a g)
  from failed(1) show ?thesis using failed(3) by (intro speaks_same lock_log_same) (auto elim!: quietE)
next
  case (success a g c)
  have "reports s t" using insert_reports [OF success(7)] by (simp add: reports_def)
  then show ?thesis
  proof (rule reports_speaks)
    from success(2) show "l_own_lock t = l_own_lock s" "l_need_lock t = l_need_lock s" by (auto elim!: quietE)
  qed
qed (simp add: speaks_same)

lemma quiet_speaks: "quiet s t \<Longrightarrow> l_sent t = l_sent s \<Longrightarrow> speaks s t"
  by (intro speaks_same lock_log_same) (auto elim!: quietE)

lemma free_speaks:
  assumes "cuMemFree d s = Inr (r, t)" "lib_inv s" shows "speaks s t"
  using assms(1)
proof (cases rule: mem_free_cases)
  case same
  then show ?thesis by (intro quiet_speaks)
next
  case freed
  let ?s = "s\<lparr>l_calls := Suc (l_calls s)\<rparr>"
  have "reports ?s t" using freed(2) by (simp add: remove_cuda_allocation_def remove_reports)
  moreover have "alloc_ok ?s" using assms(2) by (simp add: lib_inv_defs)
  note e = remove_allocation_eq [OF freed(2) this]
  ultimately show ?thesis
    by (intro reports_speaks) (use e in \<open>auto simp: reports_def elim!: quietE\<close>)
qed

lemma lookup_sent: "get_proc_address self symbol s = (r, a, t) \<Longrightarrow> l_sent t = l_sent s"
  by (auto simp: get_proc_address_def tick_def Let_def split: if_splits option.splits prod.splits)

lemma info_sent: "cuMemGetInfo out s = (r, v, t) \<Longrightarrow> l_sent t = l_sent s"
  using mem_info_eq [of out s] by auto

lemma early_speaks:
  assumes "release_early_wake w s = Inr (b, t)" "lib_inv s" shows "speaks s t"
proof (cases w)
  case TimedOut
  then obtain s1 where s1: "release_early_timeout s = Inr s1" "t = s1\<lparr>l_did_work := False\<rparr>"
    using assms(1) by (auto simp: release_early_wake_def bindR_Inr_iff)
  note f = early_timeout_fields [OF s1(1)]
  have "speaks s s1"
  proof (cases "l_own_lock s1 = l_own_lock s \<and> l_sent s1 = l_sent s")
    case True
    then show ?thesis using f(2) by (intro speaks_same lock_log_same) simp_all
  next
    case False
    with f(4) have o: "l_own_lock s" "\<not> l_own_lock s1"
      and l: "l_sent s1 = (zero_message\<lparr>m_type := LOCK_RELEASED, m_id := l_client_id s\<rparr>, 659) # l_sent s" by blast+
    have "\<not> l_need_lock s1" using o f(2) assms(2) by (simp add: lib_inv_defs)
    then show ?thesis using o lock_log_sent [OF l] by (auto simp: speaks_def lib_phase_def is_lock_msg_def intro: protocol.intros)
  qed
  then show ?thesis by (rule speaks_trans_same) (simp_all add: s1(2) lock_log_def)
qed (use assms in \<open>auto simp: release_early_wake_def lock_log_def intro!: speaks_same\<close>)

lemma app_speaks: "app_step s t \<Longrightarrow> lib_inv s \<Longrightarrow> speaks s t"
  by (induction rule: app_step.induct)
    (auto intro: continue_speaks locked_speaks launch_speaks alloc_speaks free_speaks early_speaks
      quiet_speaks lookup_quiet info_quiet lookup_sent info_sent)

lemma msg_speaks:
  assumes "client_msg m s = Inr t" "lib_inv s" "polite s m" shows "speaks s t"
proof (cases "m_type m")
  case LOCK_OK
  then have t: "t = on_lock_ok s" "l_need_lock s" using assms by (simp_all add: client_msg_def polite_def)
  moreover have "\<not> l_own_lock s" using t(2) assms(2) by (simp add: lib_inv_defs)
  ultimately show ?thesis using lock_ok_fields [of s] lock_log_same [OF lock_ok_fields(5)]
    by (auto simp: speaks_def lib_phase_def intro: protocol.intros)
next
  case DROP_LOCK
  then have d: "on_drop_lock s = Inr t" using assms(1) by (simp add: client_msg_def)
  show ?thesis
  proof (cases "l_own_lock s")
    case True
    note f = drop_lock_fields [OF d True]
    have "\<not> l_need_lock t" using True f(2) assms(2) by (simp add: lib_inv_defs)
    then show ?thesis using True f lock_log_sent [OF f(5)]
      by (auto simp: speaks_def lib_phase_def is_lock_msg_def intro: protocol.intros)
  qed (use d in \<open>simp add: on_drop_lock_def speaks_same\<close>)
next
  case PREPARE_SWAP_OUT
  then show ?thesis using assms(1) swap_out_eq [of s] by (auto simp: client_msg_def lock_log_def intro: speaks_same)
qed (use assms in \<open>auto simp: client_msg_def hook_update_memory_limit_def polite_def lock_log_def split: if_splits intro!: speaks_same\<close>)

lemma polite_lib: "polite_step s t \<Longrightarrow> lib_step s t"
  by (auto elim!: polite_step.cases intro: lib_step.intros)

lemma polite_speaks: "polite_step s t \<Longrightarrow> lib_inv s \<Longrightarrow> speaks s t"
  by (auto elim!: polite_step.cases intro: app_speaks msg_speaks)

text \<open>The library starts idle when the scheduler is on.\<close>

definition lock_start :: "lib_state \<Rightarrow> bool" where
  "lock_start s \<longleftrightarrow> lib_start s \<and> l_scheduler_on s"

lemma lock_start_idle: "lock_start s \<Longrightarrow> lib_phase s = Idle \<and> lock_log s = [] \<and> lib_inv s"
  using lib_start_ok [of s] lib_start_inv [of s]
  by (auto simp: lock_start_def lib_phase_def lock_log_def start_ok_def is_lock_msg_def filter_empty_conv list_all_iff)

interpretation lib_client: lock_client lib_phase lock_log lock_start polite_step lib_inv
  by unfold_locales
    (use lock_start_idle polite_speaks lib_step_inv polite_lib in \<open>auto simp: speaks_def\<close>)

section \<open>What the library writes\<close>

definition lib_talks :: "lib_state \<Rightarrow> lib_state \<Rightarrow> bool" where
  "lib_talks s t \<longleftrightarrow> (\<exists>new. l_sent t = new @ l_sent s
     \<and> (\<forall>e \<in> set new. m_type (fst e) \<in> {MEM_UPDATE, REQ_LOCK, LOCK_RELEASED}))"

lemma lib_talks_same: "l_sent t = l_sent s \<Longrightarrow> lib_talks s t"
  by (simp add: lib_talks_def)

lemma lib_talks_trans: "lib_talks s t \<Longrightarrow> lib_talks t u \<Longrightarrow> lib_talks s u"
  by (force simp: lib_talks_def)

lemma lib_talks_reports: "reports s t \<Longrightarrow> lib_talks s t"
  by (auto simp: reports_def lib_talks_def)

lemma lib_talks_one: "l_sent t = (m, k) # l_sent s \<Longrightarrow> m_type m \<in> {MEM_UPDATE, REQ_LOCK, LOCK_RELEASED} \<Longrightarrow> lib_talks s t"
  by (simp add: lib_talks_def)

lemma continue_talks:
  assumes "continue_with_lock [] s = Inr (got, t)" "lib_inv s" shows "lib_talks s t"
proof -
  obtain s1 where s1: "get_app_context s = Inr s1"
    and w: "bindR (lock_wait [] s1) (\<lambda>(got, s2). Inr (got, if got then s2\<lparr>l_did_work := True\<rparr> else s2)) = Inr (got, t)"
    using assms(1) by (auto simp: continue_with_lock_def bindR_Inr_iff)
  note c = context_same [OF s1]
  have r: "m_type (l_req_lock_msg s1) = REQ_LOCK" using c assms(2) by (simp add: lib_inv_defs)
  have "lib_talks s1 t"
  proof (cases "l_own_lock s1 \<or> l_need_lock s1")
    case True
    then show ?thesis using w by (intro lib_talks_same) (auto simp: request_lock_def split: if_splits)
  next
    case False
    then have "lib_send (l_req_lock_msg s1) (s1\<lparr>l_need_lock := True\<rparr>) = Inr t"
      using w by (auto simp: request_lock_def bindR_Inr_iff)
    from sent_send [OF this] r show ?thesis by (simp add: lib_talks_def)
  qed
  then show ?thesis using c by (simp add: lib_talks_def)
qed

lemma locked_talks:
  assumes "locked_call f [] s = Inr (r, t)" "lib_inv s" shows "lib_talks s t"
proof (cases "has_real f s")
  case True
  then obtain got s1 where s1: "continue_with_lock [] s = Inr (got, s1)" and t: "l_sent t = l_sent s1"
    using assms(1) by (auto simp: locked_call_def bindR_Inr_iff tick_def split: if_splits)
  from t continue_talks [OF s1 assms(2)] show ?thesis by (simp add: lib_talks_def)
qed (use assms in \<open>simp add: locked_call_def lib_talks_same\<close>)

lemma launch_talks:
  assumes "cuLaunchKernel [] s = Inr (r, t)" "lib_inv s" shows "lib_talks s t"
proof -
  obtain r1 s1 where l: "locked_call ''cuLaunchKernel'' [] s = Inr (r1, s1)"
    and t: "t = s1 \<or> (\<exists>x. t = snd (count_kernel x s1))"
    using assms(1) by (auto simp: cuLaunchKernel_def res_simps split: if_splits option.splits prod.splits) (metis snd_conv)+
  have "l_sent t = l_sent s1" using t by (auto simp: count_same)
  then show ?thesis using locked_talks [OF l assms(2)] by (simp add: lib_talks_def)
qed

lemma alloc_talks:
  assumes "cuMemAlloc junk d n s = Inr (r, p, t)" shows "lib_talks s t"
  using assms
proof (cases rule: mem_alloc_cases)
  case (failed a g)
  then show ?thesis by (intro lib_talks_same) (auto elim!: quietE)
next
  case (success a g c)
  have "reports s t" using insert_reports [OF success(7)] by (simp add: reports_def)
  then show ?thesis by (rule lib_talks_reports)
qed (simp add: lib_talks_same)

lemma free_talks:
  assumes "cuMemFree d s = Inr (r, t)" shows "lib_talks s t"
  using assms
proof (cases rule: mem_free_cases)
  case freed
  have "reports (s\<lparr>l_calls := Suc (l_calls s)\<rparr>) t" using freed(2) by (simp add: remove_cuda_allocation_def remove_reports)
  from lib_talks_reports [OF this] show ?thesis by (simp add: lib_talks_def)
qed (rule lib_talks_same)

lemma early_talks:
  assumes "release_early_wake w s = Inr (b, t)" shows "lib_talks s t"
proof (cases w)
  case TimedOut
  then obtain s1 where s1: "release_early_timeout s = Inr s1" "t = s1\<lparr>l_did_work := False\<rparr>"
    using assms(1) by (auto simp: release_early_wake_def bindR_Inr_iff)
  have "lib_talks s s1" using early_timeout_fields(4) [OF s1(1)] by (auto intro: lib_talks_same lib_talks_one)
  then show ?thesis by (simp add: s1(2) lib_talks_def)
qed (use assms in \<open>auto simp: release_early_wake_def intro!: lib_talks_same\<close>)

lemma app_talks: "app_step s t \<Longrightarrow> lib_inv s \<Longrightarrow> lib_talks s t"
  by (induction rule: app_step.induct)
    (auto intro: continue_talks locked_talks launch_talks alloc_talks free_talks early_talks lib_talks_same lookup_sent info_sent)

lemma msg_talks:
  assumes "client_msg m s = Inr t" shows "lib_talks s t"
proof (cases "m_type m")
  case LOCK_OK
  then show ?thesis using assms lock_ok_fields(5) [of s] by (intro lib_talks_same) (simp add: client_msg_def)
next
  case DROP_LOCK
  then have d: "on_drop_lock s = Inr t" using assms(1) by (simp add: client_msg_def)
  show ?thesis
  proof (cases "l_own_lock s")
    case True
    from drop_lock_fields(5) [OF d True] show ?thesis by (rule lib_talks_one) simp
  qed (use d in \<open>simp add: on_drop_lock_def lib_talks_same\<close>)
next
  case PREPARE_SWAP_OUT
  then show ?thesis using assms(1) swap_out_eq [of s] by (auto simp: client_msg_def intro!: lib_talks_same)
qed (use assms in \<open>auto simp: client_msg_def hook_update_memory_limit_def split: if_splits intro!: lib_talks_same\<close>)

section \<open>Only a grant gives the lock\<close>

definition no_gain :: "lib_state \<Rightarrow> lib_state \<Rightarrow> bool" where
  "no_gain s t \<longleftrightarrow> (l_own_lock t \<longrightarrow> l_own_lock s)"

lemma no_gain_quiet: "quiet s t \<Longrightarrow> no_gain s t"
  by (elim quietE) (simp add: no_gain_def)

lemma continue_no_gain: "continue_with_lock [] s = Inr (got, t) \<Longrightarrow> no_gain s t"
  by (auto simp: continue_with_lock_def get_app_context_def tick_def request_lock_def bindR_Inr_iff no_gain_def
      split: if_splits prod.splits dest!: quiet_send elim!: quietE)

lemma locked_no_gain: "locked_call f [] s = Inr (r, t) \<Longrightarrow> no_gain s t"
  by (auto simp: locked_call_def bindR_Inr_iff tick_def no_gain_def split: if_splits prod.splits dest!: continue_no_gain)

lemma launch_no_gain:
  assumes "cuLaunchKernel [] s = Inr (r, t)" shows "no_gain s t"
proof -
  obtain r1 s1 where l: "locked_call ''cuLaunchKernel'' [] s = Inr (r1, s1)"
    and t: "t = s1 \<or> (\<exists>x. t = snd (count_kernel x s1))"
    using assms(1) by (auto simp: cuLaunchKernel_def res_simps split: if_splits option.splits prod.splits) (metis snd_conv)+
  then show ?thesis using t locked_no_gain [OF l] by (auto simp: no_gain_def count_same)
qed

lemma alloc_no_gain:
  assumes "cuMemAlloc junk d n s = Inr (r, p, t)" shows "no_gain s t"
  using assms
proof (cases rule: mem_alloc_cases)
  case (failed a g)
  from failed(1) show ?thesis by (elim quietE) (simp add: no_gain_def)
next
  case (success a g c)
  from success(2) show ?thesis by (elim quietE) (simp add: no_gain_def)
qed (simp add: no_gain_def)

lemma free_no_gain:
  assumes "cuMemFree d s = Inr (r, t)" "lib_inv s" shows "no_gain s t"
  using assms(1)
proof (cases rule: mem_free_cases)
  case same
  then show ?thesis using no_gain_quiet by simp
next
  case freed
  have "alloc_ok (s\<lparr>l_calls := Suc (l_calls s)\<rparr>)" using assms(2) by (simp add: lib_inv_defs)
  from remove_allocation_eq [OF freed(2) this] show ?thesis by (elim quietE) (simp add: no_gain_def)
qed

lemma early_no_gain:
  assumes "release_early_wake w s = Inr (b, t)" shows "no_gain s t"
proof (cases w)
  case TimedOut
  then obtain s1 where s1: "release_early_timeout s = Inr s1" "t = s1\<lparr>l_did_work := False\<rparr>"
    using assms by (auto simp: release_early_wake_def bindR_Inr_iff)
  then show ?thesis using early_timeout_fields(4) [OF s1(1)] by (auto simp: no_gain_def)
qed (use assms in \<open>auto simp: release_early_wake_def no_gain_def\<close>)

lemma app_no_gain: "app_step s t \<Longrightarrow> lib_inv s \<Longrightarrow> no_gain s t"
  by (induction rule: app_step.induct)
    (auto intro: continue_no_gain locked_no_gain launch_no_gain alloc_no_gain free_no_gain early_no_gain
      no_gain_quiet lookup_quiet info_quiet)

lemma msg_no_gain:
  assumes "client_msg m s = Inr t" "m_type m \<noteq> LOCK_OK" "m_type m \<noteq> SCHED_OFF" shows "no_gain s t"
proof (cases "m_type m = PREPARE_SWAP_OUT")
  case True
  then show ?thesis using assms swap_out_eq [of s] by (auto simp: client_msg_def no_gain_def)
next
  case False
  then show ?thesis using assms drop_lock_fields(1) [of s t]
    by (cases "m_type m") (auto simp: client_msg_def no_gain_def on_drop_lock_def hook_update_memory_limit_def split: if_splits)
qed

end
