(* ===== verification/System.thy ===== *)
theory System
  imports SchedView LockProtocol
begin

text \<open>
  The scheduler and the processes it serves, composed. Each process runs the interposer library and
  is connected to the scheduler by a stream socket, modelled as two queues of messages: what the
  library writes is appended to one, what the scheduler writes to the descriptor of the process is
  appended to the other, and both ends read in order. All steps of the scheduler threads, of the
  application threads and of the message thread of each process interleave. Processes may end at any
  time. The scheduler stays on: while it is off every process runs freely by design.
\<close>

section \<open>States and steps\<close>

text \<open>\<open>Joining\<close> is a process between its connection and the answer to its registration, \<open>Tool\<close> a run of
  nvsharectl.\<close>

datatype proc = Absent | Tool | Joining process | Active process lib_state

record system =
  y_sched :: sched_state
  y_proc :: "cptr \<Rightarrow> proc"
  y_dead :: "cptr \<Rightarrow> bool"
  y_up :: "cptr \<Rightarrow> message list"
  y_down :: "cptr \<Rightarrow> message list"

definition registration :: "process \<Rightarrow> message" where
  "registration par = register_message (pr_env par) (pr_namespace par) (pr_pid par)"

text \<open>The values of environment variables are C strings.\<close>

definition env_ok :: "process \<Rightarrow> bool" where
  "env_ok par \<longleftrightarrow> (\<forall>n v. pr_env par n = Some v \<longrightarrow> NUL \<notin> set v)"

definition delivery :: "sched_state \<Rightarrow> sched_state \<Rightarrow> cptr \<Rightarrow> message list" where
  "delivery s s' p = map snd (filter (\<lambda>e. fst e = c_fd (client s' p)) (sent_since s s'))"

definition sched_moves :: "sched_state \<Rightarrow> system \<Rightarrow> system" where
  "sched_moves s' y = y\<lparr>y_sched := s', y_down := (\<lambda>p. y_down y p @ delivery (y_sched y) s' p)\<rparr>"

definition opened :: "sched_state \<Rightarrow> cptr \<Rightarrow> proc \<Rightarrow> message \<Rightarrow> system \<Rightarrow> system" where
  "opened s' q pr m y = y\<lparr>y_sched := s', y_proc := (y_proc y)(q := pr), y_dead := (y_dead y)(q := False),
     y_up := (y_up y)(q := [m]), y_down := (y_down y)(q := [])\<rparr>"

definition closed :: "cptr \<Rightarrow> system \<Rightarrow> system" where
  "closed p y = y\<lparr>y_proc := (y_proc y)(p := Absent), y_up := (y_up y)(p := []), y_down := (y_down y)(p := [])\<rparr>"

text \<open>The library of \<open>p\<close> goes from one state to the next and writes \<open>ms\<close>, completely.\<close>

definition wrote :: "lib_state \<Rightarrow> lib_state \<Rightarrow> message list \<Rightarrow> bool" where
  "wrote l l' ms \<longleftrightarrow> l_sent l' = rev (map (\<lambda>m. (m, 659)) ms) @ l_sent l"

definition lib_moves :: "cptr \<Rightarrow> process \<Rightarrow> lib_state \<Rightarrow> message list \<Rightarrow> system \<Rightarrow> system" where
  "lib_moves p par l' ms y = y\<lparr>y_proc := (y_proc y)(p := Active par l'), y_up := (y_up y)(p := y_up y p @ ms)\<rparr>"

inductive sys_step :: "system \<Rightarrow> system \<Rightarrow> bool" where
  connect: "event_allowed n (y_sched y) (NewConnection (Accepted fd) q junk True) \<Longrightarrow>
    handle_event annot cred oob n (NewConnection (Accepted fd) q junk True) (y_sched y) = Inr s' \<Longrightarrow>
    env_ok par \<Longrightarrow> sys_step y (opened s' q (Joining par) (registration par) y)"
| connect_tool: "event_allowed n (y_sched y) (NewConnection (Accepted fd) q junk True) \<Longrightarrow>
    handle_event annot cred oob n (NewConnection (Accepted fd) q junk True) (y_sched y) = Inr s' \<Longrightarrow>
    m_type m = SET_TQ \<or> m_type m = SCHED_ON \<Longrightarrow> sys_step y (opened s' q Tool m y)"
| receive: "y_up y p = m # ms \<Longrightarrow> receive_message r = Inr (Some m) \<Longrightarrow> enough_fuel n (y_sched y) \<Longrightarrow>
    handle_event annot cred oob n (Readable p r) (y_sched y) = Inr s' \<Longrightarrow>
    sys_step y ((sched_moves s' y)\<lparr>y_up := (y_up y)(p := ms)\<rparr>)"
| hang_up: "y_dead y p \<Longrightarrow> ev = HangUp p \<or> (\<exists>r. ev = Readable p r \<and> receive_message r = Inr None) \<Longrightarrow>
    event_allowed n (y_sched y) ev \<Longrightarrow> enough_fuel n (y_sched y) \<Longrightarrow>
    handle_event annot cred oob n ev (y_sched y) = Inr s' \<Longrightarrow> sys_step y (closed p (sched_moves s' y))"
| prepare: "g \<in> set (s_contexts (y_sched y)) \<Longrightarrow> enough_fuel n (y_sched y) \<Longrightarrow>
    timer_prepare n g rt (y_sched y) = Inr (tq, mn, d, s') \<Longrightarrow> sys_step y (sched_moves s' y)"
| enforce: "g \<in> set (s_contexts (y_sched y)) \<Longrightarrow> timer_enforce g timed_out mn tq (y_sched y) = Inr s' \<Longrightarrow>
    sys_step y (sched_moves s' y)"
| watch: "apply_annotations annot oob info (y_sched y) = Inr s' \<Longrightarrow> sys_step y (sched_moves s' y)"
| join: "y_proc y p = Joining par \<Longrightarrow> \<not> y_dead y p \<Longrightarrow> y_down y p = m # ms \<Longrightarrow> receive_from_scheduler reads = Inr m \<Longrightarrow>
    enter_library (par\<lparr>pr_reply := reads\<rparr>) False (lib_zero d) = Inr l \<Longrightarrow>
    sys_step y (y\<lparr>y_proc := (y_proc y)(p := Active par l), y_down := (y_down y)(p := ms)\<rparr>)"
| application: "y_proc y p = Active par l \<Longrightarrow> \<not> y_dead y p \<Longrightarrow> app_step l l' \<Longrightarrow> wrote l l' ms \<Longrightarrow>
    sys_step y (lib_moves p par l' ms y)"
| message: "y_proc y p = Active par l \<Longrightarrow> \<not> y_dead y p \<Longrightarrow> y_down y p = m # rest \<Longrightarrow> client_msg m l = Inr l' \<Longrightarrow>
    wrote l l' ms \<Longrightarrow> sys_step y ((lib_moves p par l' ms y)\<lparr>y_down := (y_down y)(p := rest)\<rparr>)"
| die: "y_proc y p \<noteq> Absent \<Longrightarrow> sys_step y (y\<lparr>y_dead := (y_dead y)(p := True)\<rparr>)"

definition sys_start :: "system \<Rightarrow> bool" where
  "sys_start y \<longleftrightarrow> sched_start (y_sched y) \<and> (\<forall>p. y_proc y p = Absent \<and> y_up y p = [])"

section \<open>The invariant\<close>

text \<open>What the two ends know of each other: the phase of the library, the lock messages under way to the
  scheduler, the grants under way to the library and the standing of the client at the scheduler.\<close>

inductive agree :: "phase \<Rightarrow> message_type list \<Rightarrow> nat \<Rightarrow> standing \<Rightarrow> bool" where
  idle: "agree Idle [] 0 Out"
| asked: "agree Waiting [REQ_LOCK] 0 Out"
| queued: "agree Waiting [] 0 Pending"
| won: "agree Waiting [] (Suc 0) Run"
| holding: "agree Holding [] 0 Run"
| gave_up: "agree Idle [LOCK_RELEASED] 0 Run"
| asked_again: "agree Waiting [LOCK_RELEASED, REQ_LOCK] 0 Run"

inductive_cases agreeE: "agree ph u k st"
inductive_cases agree_reqE: "agree ph (REQ_LOCK # u) k st"
inductive_cases agree_relE: "agree ph (LOCK_RELEASED # u) k st"
inductive_cases agree_wonE: "agree ph u (Suc k) st"
inductive_cases agree_holdE: "agree Holding u k st"

lemma agree_turn: "agree ph u k st \<Longrightarrow> turn st st' j \<Longrightarrow> agree ph u (k + j) st'"
  by (auto simp: turn_def elim!: agreeE intro: agree.intros)

lemma agree_protocol: "agree ph u k st \<Longrightarrow> protocol ph out ph' \<Longrightarrow> \<not> (ph = Waiting \<and> ph' = Holding) \<Longrightarrow> agree ph' (u @ out) k st"
  by (auto elim!: protocolE agreeE intro: agree.intros)

lemma agree_granted: "agree ph u (Suc k) st \<Longrightarrow> agree Holding u k st \<and> ph = Waiting"
  by (auto elim!: agree_wonE intro: agree.intros)

lemma agree_requested:
  "agree ph (REQ_LOCK # u) k st \<Longrightarrow> st = Out \<and> (st' = Pending \<and> j = 0 \<or> st' = Run \<and> j = 1 \<longrightarrow> agree ph u (k + j) st')"
  by (auto elim!: agree_reqE intro: agree.intros)

lemma agree_released: "agree ph (LOCK_RELEASED # u) k st \<Longrightarrow> st = Run \<and> agree ph u k Out"
  by (auto elim!: agree_relE intro: agree.intros)

definition lock_traffic :: "message list \<Rightarrow> message_type list" where
  "lock_traffic ms = filter is_lock_msg (map m_type ms)"

definition grants_in :: "message list \<Rightarrow> nat" where
  "grants_in ms = length (filter (\<lambda>m. m_type m = LOCK_OK) ms)"

definition gpu_of :: "process \<Rightarrow> string" where
  "gpu_of par = m_gpu_uuid (registration par)"

definition link_ok :: "system \<Rightarrow> cptr \<Rightarrow> bool" where
  "link_ok y p \<longleftrightarrow> (let s = y_sched y; up = y_up y p; down = y_down y p in
     case y_proc y p of
       Absent \<Rightarrow> up = []
     | Tool \<Rightarrow> \<not> has_registered (client s p) \<and> (\<forall>m \<in> set up. m_type m = SET_TQ \<or> m_type m = SCHED_ON)
     | Joining par \<Rightarrow> str_fits NVSHARE_GPU_UUID_LEN (gpu_of par) \<and> standing s p = Out
         \<and> grants_in down = 0 \<and> (\<forall>m \<in> set down. m_type m \<noteq> SCHED_OFF)
         \<and> (if has_registered (client s p)
            then up = [] \<and> named s p (gpu_of par) \<and> length (filter (\<lambda>m. is_status (m_type m)) down) \<le> 1
            else up = [registration par] \<and> (\<forall>m \<in> set down. \<not> is_status (m_type m)))
     | Active par l \<Rightarrow> has_registered (client s p) \<and> named s p (gpu_of par) \<and> lib_inv l
         \<and> (\<forall>m \<in> set down. \<not> is_status (m_type m)) \<and> (\<forall>m \<in> set up. m_type m \<in> {MEM_UPDATE, REQ_LOCK, LOCK_RELEASED})
         \<and> agree (lib_phase l) (lock_traffic up) (grants_in down) (standing s p))"

lemma link_active:
  "y_proc y p = Active par l \<Longrightarrow> link_ok y p \<longleftrightarrow> has_registered (client (y_sched y) p) \<and> named (y_sched y) p (gpu_of par) \<and> lib_inv l
     \<and> (\<forall>m \<in> set (y_down y p). \<not> is_status (m_type m))
     \<and> (\<forall>m \<in> set (y_up y p). m_type m \<in> {MEM_UPDATE, REQ_LOCK, LOCK_RELEASED})
     \<and> agree (lib_phase l) (lock_traffic (y_up y p)) (grants_in (y_down y p)) (standing (y_sched y) p)"
  by (simp add: link_ok_def Let_def)

definition sys_inv :: "system \<Rightarrow> bool" where
  "sys_inv y \<longleftrightarrow> sched_inv (y_sched y) \<and> s_on (y_sched y) \<and> uuids_ok (y_sched y) \<and> serial_ok (y_sched y)
     \<and> (\<forall>p. alive (y_sched y) p \<longleftrightarrow> y_proc y p \<noteq> Absent) \<and> (\<forall>p. link_ok y p)"

lemma lock_traffic_append [simp]: "lock_traffic (a @ b) = lock_traffic a @ lock_traffic b"
  by (simp add: lock_traffic_def)

lemma grants_in_append [simp]: "grants_in (a @ b) = grants_in a + grants_in b"
  by (simp add: grants_in_def)

lemma lock_traffic_Cons [simp]:
  "lock_traffic [] = []" "lock_traffic (m # ms) = (if is_lock_msg (m_type m) then [m_type m] else []) @ lock_traffic ms"
  "grants_in [] = 0" "grants_in (m # ms) = (if m_type m = LOCK_OK then 1 else 0) + grants_in ms"
  by (simp_all add: lock_traffic_def grants_in_def)

lemma registration_type [simp]: "m_type (registration par) = REGISTER"
  by (simp add: registration_def register_message_def Let_def)

section \<open>Steps of the scheduler\<close>

lemma delivery_grants: "grants_in (delivery s s' p) = granted s s' p"
  by (simp add: grants_in_def delivery_def granted_def filter_map o_def conj_commute)

lemma delivery_status:
  assumes "steady s s' p" "m \<in> set (delivery s s' p)" shows "\<not> is_status (m_type m)"
  using assms by (auto simp: steady_def delivery_def)

text \<open>A steady step of the scheduler keeps the link to every client that it is not about.\<close>

lemma link_steady:
  assumes l: "link_ok y p" and st: "steady (y_sched y) s' p" and c: "contexts_kept (y_sched y) s'"
  shows "link_ok (sched_moves s' y) p"
proof -
  let ?s = "y_sched y"
  have ids: "has_registered (client s' p) = has_registered (client ?s p)" "c_context (client s' p) = c_context (client ?s p)"
    and t: "turn (standing ?s p) (standing s' p) (grants_in (delivery ?s s' p))"
    using st by (simp_all add: steady_def has_registered_def delivery_grants)
  note ns = delivery_status [OF st]
  have off: "m_type m \<noteq> SCHED_OFF" if "m \<in> set (delivery ?s s' p)" for m
    using ns [OF that] by (auto simp: is_status_def)
  have nm: "named ?s p u \<Longrightarrow> named s' p u" for u using named_kept c ids(2) by blast
  have fe: "filter (\<lambda>m. is_status (m_type m)) (delivery ?s s' p) = []" using ns by (simp add: filter_empty_conv)
  have out: "standing s' p = Out \<and> grants_in (delivery ?s s' p) = 0" if "standing ?s p = Out" using t that by (auto simp: turn_def)
  show ?thesis
  proof (cases "y_proc y p")
    case (Joining par)
    then have "standing ?s p = Out" using l by (simp add: link_ok_def Let_def)
    then show ?thesis using l \<open>y_proc y p = Joining par\<close> ids nm off ns fe out by (auto simp: link_ok_def Let_def sched_moves_def)
  next
    case (Active par l)
    then show ?thesis using assms(1) ids nm ns agree_turn [OF _ t] by (auto simp: link_ok_def Let_def sched_moves_def)
  qed (use l ids in \<open>auto simp: link_ok_def Let_def sched_moves_def\<close>)
qed

lemma link_cong:
  "y_sched y' = y_sched y \<Longrightarrow> y_proc y' p = y_proc y p \<Longrightarrow> y_up y' p = y_up y p \<Longrightarrow> y_down y' p = y_down y p \<Longrightarrow>
    link_ok y' p = link_ok y p"
  by (simp add: link_ok_def)

lemma inv_link: "sys_inv y \<Longrightarrow> link_ok y p"
  by (simp add: sys_inv_def)

lemma inv_alive: "sys_inv y \<Longrightarrow> alive (y_sched y) p \<longleftrightarrow> y_proc y p \<noteq> Absent"
  by (simp add: sys_inv_def)

text \<open>A step of the scheduler that is about \<open>p\<close> has to be checked for \<open>p\<close> only.\<close>

lemma inv_about:
  assumes i: "sys_inv y" and b: "bystanders p (y_sched y) s'" and v: "sched_inv s'"
    and al: "\<And>q. q \<noteq> p \<Longrightarrow> alive s' q = alive (y_sched y) q"
    and y': "y_sched y' = s'" "\<And>q. q \<noteq> p \<Longrightarrow> y_proc y' q = y_proc y q \<and> y_up y' q = y_up y q
      \<and> y_down y' q = y_down (sched_moves s' y) q"
    and p: "alive s' p \<longleftrightarrow> y_proc y' p \<noteq> Absent" "link_ok y' p"
  shows "sys_inv y'"
proof -
  have "link_ok y' q \<and> (alive s' q \<longleftrightarrow> y_proc y' q \<noteq> Absent)" if q: "q \<noteq> p" for q
  proof (cases "alive (y_sched y) q")
    case True
    then have "link_ok (sched_moves s' y) q" using b q by (intro link_steady inv_link [OF i]) (auto simp: bystanders_def)
    then show ?thesis using y' q al [OF q] inv_alive [OF i] link_cong [of y' "sched_moves s' y" q] by (simp add: sched_moves_def)
  next
    case False
    then have "y_proc y q = Absent" "y_up y q = []" using inv_alive [OF i] inv_link [OF i, of q] by (simp_all add: link_ok_def)
    then show ?thesis using False y'(2) [OF q] al [OF q] by (simp add: link_ok_def)
  qed
  then have "\<forall>q. link_ok y' q \<and> (alive s' q \<longleftrightarrow> y_proc y' q \<noteq> Absent)" using p by metis
  moreover have "s_on s'" "uuids_ok s'" "serial_ok s'" using i b by (simp_all add: sys_inv_def bystanders_def)
  ultimately show ?thesis using v y'(1) by (simp add: sys_inv_def)
qed

text \<open>A step that is about no client.\<close>

lemma inv_moves:
  assumes i: "sys_inv y" and v: "sched_inv s'" and c: "s_clients s' = s_clients (y_sched y)" and t: "talks (y_sched y) s'"
    and st: "\<And>q. alive (y_sched y) q \<Longrightarrow> steady (y_sched y) s' q" and k: "contexts_kept (y_sched y) s'"
    and ser: "serial_ok (y_sched y) \<Longrightarrow> serial_ok s'" and u: "uuids_ok (y_sched y) \<Longrightarrow> uuids_ok s'"
  shows "sys_inv (sched_moves s' y)"
proof -
  have al: "alive s' q = alive (y_sched y) q" for q using c by (simp add: alive_def)
  have b: "bystanders p (y_sched y) s'" for p using st k ser u talks_on [OF t] al by (simp add: bystanders_def)
  have l: "link_ok (sched_moves s' y) p" for p
  proof (cases "alive (y_sched y) p")
    case True
    then show ?thesis by (intro link_steady inv_link [OF i] st k)
  next
    case False
    then have "y_proc y p = Absent" "y_up y p = []" using inv_alive [OF i] inv_link [OF i, of p] by (simp_all add: link_ok_def)
    then show ?thesis by (simp add: link_ok_def sched_moves_def)
  qed
  show ?thesis
    by (rule inv_about [OF i b v, of _ "sched_moves s' y"]) (use al l inv_alive [OF i] in \<open>auto simp: sched_moves_def\<close>)
qed

lemma inv_ident_moves:
  assumes i: "sys_inv y" and d: "ident (y_sched y) s'" and t: "talks (y_sched y) s'" shows "sys_inv (sched_moves s' y)"
proof (rule inv_moves [OF i _ _ t])
  show "sched_inv s'" using i inv_ident d by (auto simp: sys_inv_def)
  show "s_clients s' = s_clients (y_sched y)" using d by (simp add: ident_def)
  show "uuids_ok (y_sched y) \<Longrightarrow> uuids_ok s'" using d by (simp add: uuids_ok_def ident_def)
qed (use ident_steady [OF d t] in auto)

lemma inv_prepare:
  assumes i: "sys_inv y" and g: "g \<in> set (s_contexts (y_sched y))" "enough_fuel n (y_sched y)"
    and p: "timer_prepare n g rt (y_sched y) = Inr (tq, mn, d, s')"
  shows "sys_inv (sched_moves s' y)"
proof -
  let ?s = "y_sched y"
  have w: "wf_state ?s" "ids_ok ?s" "sends_ok ?s" using i by (simp_all add: sys_inv_def sched_inv_def)
  have "sched_measure g ?s < n" using enough_fuelD(1) [OF g(2,1)] by simp
  then have *: "wf_state s'" "frame g ?s s'" "mset (all_queued (queues g s')) = mset (all_queued (queues g ?s))"
    "grew g (g_running_list (gpu ?s g)) ?s s'"
    using timer_prepare_correct [OF w(1,3) g(1), of n rt] p by auto
  have t: "talks ?s s'" by (rule says_prepare [OF p])
  have v: "sched_inv s'" using i inv_frame [OF _ *(2,1)] by (simp add: sys_inv_def)
  show ?thesis
    by (rule inv_moves [OF i v _ t])
      (use frame_steady [OF *(1) g(1) *(2) t *(4,3)] frame_simps [OF *(2)] in \<open>auto simp: uuids_ok_def\<close>)
qed

lemma inv_enforce:
  assumes i: "sys_inv y" and g: "g \<in> set (s_contexts (y_sched y))" and p: "timer_enforce g b mn tq (y_sched y) = Inr s'"
  shows "sys_inv (sched_moves s' y)"
proof -
  let ?s = "y_sched y"
  have w: "wf_state ?s" "ids_ok ?s" "sends_ok ?s" using i by (simp_all add: sys_inv_def sched_inv_def)
  have *: "wf_state s'" "frame g ?s s'" "queues g s' = queues g ?s" "grants s' = grants ?s"
    using timer_enforce_correct [OF w(1,3) g, of b mn tq] p by auto
  have gr: "grew g (g_running_list (gpu ?s g)) ?s s'" using *(3,4) by (intro grew_none) (simp_all add: queues_def)
  have t: "talks ?s s'" using says_enforce [of ?s g b mn tq] p by (simp add: says_def)
  have v: "sched_inv s'" using i inv_frame [OF _ *(2,1)] by (simp add: sys_inv_def)
  show ?thesis
    by (rule inv_moves [OF i v _ t])
      (use frame_steady [OF *(1) g *(2) t gr] *(3) frame_simps [OF *(2)] in \<open>auto simp: uuids_ok_def\<close>)
qed

lemma inv_watch:
  assumes i: "sys_inv y" and p: "apply_annotations annot oob info (y_sched y) = Inr s'"
  shows "sys_inv (sched_moves s' y)"
proof (rule inv_ident_moves [OF i])
  have "sends_ok (y_sched y)" using i by (simp add: sys_inv_def sched_inv_def)
  then show "ident (y_sched y) s'" using apply_annotations_ident [of "y_sched y" annot oob info] p by auto
  show "talks (y_sched y) s'" using says_annotations [of "y_sched y" annot oob info] p by (simp add: says_def)
qed

section \<open>Connections\<close>

lemma accept_bystanders:
  assumes q: "\<not> alive s q" shows "bystanders q s (accept_client fd q junk True s)"
proof -
  let ?t = "accept_client fd q junk True s"
  have f: "\<And>p. p \<noteq> q \<Longrightarrow> client ?t p = client s p" "\<And>g. gpu ?t g = gpu s g" "s_contexts ?t = s_contexts s" "s_on ?t = s_on s"
    "s_config ?t = s_config s" "sent_since s ?t = []" "s_clients ?t = s_clients s @ [q]"
    by (simp_all add: accept_client_def sent_since_def)
  have "steady s ?t p" if "p \<noteq> q" for p
    using f(1) [OF that] f(2,6) by (simp add: steady_def turn_def granted_def standing_def queues_def split: option.split)
  then show ?thesis
    using f by (simp add: bystanders_def contexts_kept_def serial_ok_def uuids_ok_def alive_def)
qed

lemma inv_connect:
  assumes i: "sys_inv y" and a: "event_allowed n (y_sched y) (NewConnection (Accepted fd) q junk True)"
    and h: "handle_event annot cred oob n (NewConnection (Accepted fd) q junk True) (y_sched y) = Inr s'"
    and l: "link_ok (opened s' q pr m y) q" "pr \<noteq> Absent"
  shows "sys_inv (opened s' q pr m y)"
proof -
  have s': "s' = accept_client fd q junk True (y_sched y)" using h by (simp add: handle_event_def)
  have nq: "\<not> alive (y_sched y) q" using a by (simp add: event_allowed_def)
  have w: "wf_state (y_sched y)" "ids_ok (y_sched y)" "sends_ok (y_sched y)" using i by (simp_all add: sys_inv_def sched_inv_def)
  have "wf_state s'" using a unfolding s' by (intro accept_client_wf [OF w(1)]) (simp_all add: event_allowed_def)
  moreover have "sends_ok s'" using w(3) by (simp add: s' sends_ok_def accept_client_def)
  ultimately have v: "sched_inv s'" using accept_client_ids [OF w(2) nq] by (simp add: s' sched_inv_def)
  have d: "delivery (y_sched y) s' p = []" for p by (simp add: delivery_def s' sent_since_def accept_client_def)
  have al: "alive s' p \<longleftrightarrow> alive (y_sched y) p \<or> p = q" for p by (auto simp: s' accept_client_def alive_def)
  show ?thesis
    by (rule inv_about [OF i accept_bystanders [OF nq, of fd junk, folded s'] v])
      (use l al in \<open>auto simp: opened_def sched_moves_def d\<close>)
qed

lemma accepted_link:
  assumes "handle_event annot cred oob n (NewConnection (Accepted fd) q junk True) s = Inr s'"
  shows "\<not> has_registered (client s' q)" "standing s' q = Out"
  using assms by (auto simp: handle_event_def accept_client_def has_registered_def standing_def)

lemma visible_gpu_clean: "env_ok par \<Longrightarrow> NUL \<notin> set (visible_gpu (pr_env par))"
  by (auto simp: env_ok_def visible_gpu_def strlcpy_field_def split: option.split dest!: in_set_takeD)

lemma gpu_of_fits: "env_ok par \<Longrightarrow> str_fits NVSHARE_GPU_UUID_LEN (gpu_of par)"
  using visible_gpu_clean [of par] strlcpy_field_length [of NVSHARE_GPU_UUID_LEN "visible_gpu (pr_env par)"]
  by (auto simp: gpu_of_def registration_def register_message_def str_fits_def NVSHARE_GPU_UUID_LEN_def strlcpy_field_def
      Let_def split: if_split prod.split dest: in_set_takeD)

lemma inv_hang_up:
  assumes i: "sys_inv y" and ev: "ev = HangUp p \<or> (\<exists>r. ev = Readable p r \<and> receive_message r = Inr None)"
    and a: "event_allowed n (y_sched y) ev" "enough_fuel n (y_sched y)"
    and h: "handle_event annot cred oob n ev (y_sched y) = Inr s'"
  shows "sys_inv (closed p (sched_moves s' y))"
proof -
  let ?s = "y_sched y"
  have p: "alive ?s p" "may_leave ?s p" using ev a(1) by (auto simp: event_allowed_def)
  have d: "drop_connection n p ?s = Inr s'" using ev h p(1) by (auto simp: handle_event_def guard_live_def)
  have v: "sched_inv ?s" using i by (simp add: sys_inv_def)
  note r = departure_view [OF v p a(2) d]
  have "distinct (s_clients ?s)" using v by (simp add: sched_inv_def wf_state_def)
  then have al: "alive s' q \<longleftrightarrow> alive ?s q \<and> q \<noteq> p" for q using r(3) by (auto simp: alive_def)
  show ?thesis
    by (rule inv_about [OF i r(1,2)]) (use al in \<open>auto simp: closed_def sched_moves_def link_ok_def\<close>)
qed

section \<open>Steps of the processes\<close>

lemma wrote_log: "wrote l l' ms \<Longrightarrow> lock_log l' = lock_log l @ lock_traffic ms"
  by (simp add: wrote_def lock_log_def lock_traffic_def rev_map [symmetric] o_def)

lemma wrote_types:
  assumes "wrote l l' ms" "lib_talks l l'" "m \<in> set ms" shows "m_type m \<in> {MEM_UPDATE, REQ_LOCK, LOCK_RELEASED}"
  using assms by (auto simp: wrote_def lib_talks_def)

lemma speaks_traffic: "speaks l l' \<Longrightarrow> wrote l l' ms \<Longrightarrow> protocol (lib_phase l) (lock_traffic ms) (lib_phase l')"
  by (auto simp: speaks_def wrote_log)

lemma no_gain_phase: "no_gain l l' \<Longrightarrow> \<not> (lib_phase l = Waiting \<and> lib_phase l' = Holding)"
  by (auto simp: no_gain_def lib_phase_def split: if_splits)

lemma inv_process:
  assumes i: "sys_inv y" and y': "y_sched y' = y_sched y"
    "\<And>q. q \<noteq> p \<Longrightarrow> y_proc y' q = y_proc y q \<and> y_up y' q = y_up y q \<and> y_down y' q = y_down y q"
    and p: "y_proc y' p \<noteq> Absent" "y_proc y p \<noteq> Absent" "link_ok y' p"
  shows "sys_inv y'"
proof -
  have "link_ok y' q" for q using p(3) inv_link [OF i] y' link_cong [of y' y q] by (cases "q = p") simp_all
  moreover have "y_proc y' q = Absent \<longleftrightarrow> y_proc y q = Absent" for q using p y'(2) [of q] by (cases "q = p") auto
  ultimately show ?thesis using i y'(1) by (simp add: sys_inv_def)
qed

lemma inv_application:
  assumes i: "sys_inv y" and p: "y_proc y p = Active par l" and a: "app_step l l'" "wrote l l' ms"
  shows "sys_inv (lib_moves p par l' ms y)"
proof (rule inv_process [OF i, where p = p])
  have lk: "link_ok y p" by (rule inv_link [OF i])
  then have l: "lib_inv l" using p by (simp add: link_active)
  have "agree (lib_phase l') (lock_traffic (y_up y p) @ lock_traffic ms) (grants_in (y_down y p)) (standing (y_sched y) p)"
    using lk p by (intro agree_protocol [OF _ speaks_traffic [OF app_speaks [OF a(1) l] a(2)]] no_gain_phase app_no_gain [OF a(1) l])
      (simp add: link_active)
  then show "link_ok (lib_moves p par l' ms y) p"
    using lk p wrote_types [OF a(2) app_talks [OF a(1) l]] app_step_inv [OF a(1) l]
    by (auto simp: link_active lib_moves_def)
qed (use p in \<open>auto simp: lib_moves_def\<close>)

lemma inv_message:
  assumes i: "sys_inv y" and p: "y_proc y p = Active par l" and d: "y_down y p = m # rest"
    and a: "client_msg m l = Inr l'" "wrote l l' ms"
  shows "sys_inv ((lib_moves p par l' ms y)\<lparr>y_down := (y_down y)(p := rest)\<rparr>)"
proof (rule inv_process [OF i, where p = p])
  have lk: "link_ok y p" by (rule inv_link [OF i])
  then have l: "lib_inv l" and ns: "\<not> is_status (m_type m)"
    and ag: "agree (lib_phase l) (lock_traffic (y_up y p)) (grants_in (m # rest)) (standing (y_sched y) p)"
    using p d by (simp_all add: link_active)
  have "agree (lib_phase l') (lock_traffic (y_up y p) @ lock_traffic ms) (grants_in rest) (standing (y_sched y) p)"
  proof (cases "m_type m = LOCK_OK")
    case True
    have g: "agree Holding (lock_traffic (y_up y p)) (grants_in rest) (standing (y_sched y) p)"
      using agree_granted [of "lib_phase l" _ "grants_in rest"] ag True by simp
    have "l' = on_lock_ok l" using a(1) True by (simp add: client_msg_def)
    then have "lib_phase l' = Holding" "ms = []" using lock_ok_fields [of l] a(2) by (simp_all add: lib_phase_def wrote_def)
    then show ?thesis using g by simp
  next
    case False
    have "polite l m" using False ns by (simp add: polite_def is_status_def)
    note pr = speaks_traffic [OF msg_speaks [OF a(1) l this] a(2)]
    have "no_gain l l'" using False ns by (intro msg_no_gain [OF a(1)]) (auto simp: is_status_def)
    from agree_protocol [OF ag pr no_gain_phase [OF this]] False show ?thesis by simp
  qed
  then show "link_ok ((lib_moves p par l' ms y)\<lparr>y_down := (y_down y)(p := rest)\<rparr>) p"
    using lk p d wrote_types [OF a(2) msg_talks [OF a(1)]] lib_inv_msg [OF a(1) l]
    by (auto simp: link_active lib_moves_def)
qed (use p in \<open>auto simp: lib_moves_def\<close>)

lemma enter_status:
  assumes "enter_library par False (lib_zero d) = Inr l" "receive_from_scheduler (pr_reply par) = Inr m"
  shows "is_status (m_type m)" "l_scheduler_on l \<longleftrightarrow> m_type m = SCHED_ON"
proof -
  obtain s1 s2 where s2: "client_register (pr_env par) (pr_namespace par) (pr_pid par) (pr_connect par) (pr_reply par) s1 = Inr s2"
    and l: "l_scheduler_on l = l_scheduler_on (release_early_setup s2)"
    using assms(1) by (auto simp: enter_library_def initialize_client_def bindR_Inr_iff Let_def)
  obtain s3 where "initial_status m s3 = Inr s2"
    using s2 assms(2) by (auto simp: client_register_def tick_def Let_def bindR_Inr_iff split: if_splits option.splits)
  then show "is_status (m_type m)" "l_scheduler_on l \<longleftrightarrow> m_type m = SCHED_ON"
    using setup_same(1) [of s2] l by (auto simp: initial_status_def is_status_def mem_same_def split: if_splits option.splits)
qed

lemma inv_join:
  assumes i: "sys_inv y" and p: "y_proc y p = Joining par" and d: "y_down y p = m # ms"
    and r: "receive_from_scheduler reads = Inr m" and e: "enter_library (par\<lparr>pr_reply := reads\<rparr>) False (lib_zero dr) = Inr l"
  shows "sys_inv (y\<lparr>y_proc := (y_proc y)(p := Active par l), y_down := (y_down y)(p := ms)\<rparr>)"
proof (rule inv_process [OF i, where p = p])
  have st: "is_status (m_type m)" "l_scheduler_on l \<longleftrightarrow> m_type m = SCHED_ON" using enter_status [OF e] r by simp_all
  have lk: "standing (y_sched y) p = Out" "grants_in (m # ms) = 0" "m_type m \<noteq> SCHED_OFF"
    "if has_registered (client (y_sched y) p)
     then y_up y p = [] \<and> named (y_sched y) p (gpu_of par) \<and> length (filter (\<lambda>m. is_status (m_type m)) (m # ms)) \<le> 1
     else y_up y p = [registration par] \<and> (\<forall>m \<in> set (m # ms). \<not> is_status (m_type m))"
    using inv_link [OF i, of p] p d by (auto simp: link_ok_def Let_def)
  have on: "m_type m = SCHED_ON" using st lk(3) by (auto simp: is_status_def)
  have reg: "has_registered (client (y_sched y) p)" "y_up y p = []" "named (y_sched y) p (gpu_of par)"
    "\<forall>m \<in> set ms. \<not> is_status (m_type m)"
    using lk(4) st(1) by (auto simp: filter_empty_conv split: if_splits)
  have "lock_start l" using e st(2) on by (auto simp: lock_start_def lib_start_def)
  from lock_start_idle [OF this] have "lib_phase l = Idle" "lib_inv l" by simp_all
  then show "link_ok (y\<lparr>y_proc := (y_proc y)(p := Active par l), y_down := (y_down y)(p := ms)\<rparr>) p"
    using reg lk(1,2) by (simp add: link_active agree.intros)
qed (use p in auto)

section \<open>Messages at the scheduler\<close>

text \<open>Every message that is under way to the scheduler is one that it may be sent in its state.\<close>

lemma sent_allowed:
  assumes i: "sys_inv y" and up: "y_up y p = m # ms"
  shows "alive (y_sched y) p" "m_type m = REGISTER \<or> msg_allowed n (y_sched y) p m"
proof -
  let ?s = "y_sched y"
  have v: "sched_inv ?s" using i by (simp add: sys_inv_def)
  have lk: "link_ok y p" by (rule inv_link [OF i])
  then have "y_proc y p \<noteq> Absent" using up by (auto simp: link_ok_def)
  then show al: "alive ?s p" using inv_alive [OF i] by simp
  show "m_type m = REGISTER \<or> msg_allowed n ?s p m"
  proof (cases "y_proc y p")
    case (Active par l)
    have t: "m_type m \<in> {MEM_UPDATE, REQ_LOCK, LOCK_RELEASED}"
      and ag: "agree (lib_phase l) (lock_traffic (m # ms)) (grants_in (y_down y p)) (standing ?s p)"
      and reg: "has_registered (client ?s p)"
      using lk up by (simp_all add: link_active [OF Active])
    consider "m_type m = MEM_UPDATE" | "m_type m = REQ_LOCK" | "m_type m = LOCK_RELEASED" using t by auto
    then show ?thesis
    proof cases
      case 2
      then have "standing ?s p = Out" using ag agree_requested by (auto simp: is_lock_msg_def)
      then show ?thesis using 2 out_unqueued [OF v] by (simp add: msg_allowed_def list_all_iff)
    next
      case 3
      then have "standing ?s p = Run" using ag agree_released by (auto simp: is_lock_msg_def)
      then have "may_leave ?s p" by (auto simp: may_leave_def removable_def standing_def split: option.splits if_splits)
      then show ?thesis using 3 by (simp add: msg_allowed_def)
    qed (simp add: msg_allowed_def)
  qed (use lk up in \<open>auto simp: link_ok_def Let_def msg_allowed_def split: if_splits\<close>)
qed

lemma received: "receive_message r = Inr (Some m) \<Longrightarrow> alive s p \<Longrightarrow>
    handle_event annot cred oob n (Readable p r) s = process_msg annot cred oob n p m s"
  by (simp add: handle_event_def guard_live_def)

lemma says_msg:
  assumes "process_msg annot cred oob n p m s = Inr s'" "m_type m \<in> {SET_TQ, REQ_LOCK, LOCK_RELEASED, MEM_UPDATE}"
  shows "talks s s'"
proof -
  let ?s = "metrics_inc_msg (msg_code (m_type m)) s"
  have "says (\<lambda>s. s) ?s (process_msg annot cred oob n p m s)"
    using assms(2) says_req [of ?s] says_released [of ?s] says_mem [of ?s] talks_set_tq [of ?s]
    by (auto simp: process_msg_def Let_def)
  then show ?thesis using assms(1) by (simp add: says_def)
qed

lemma metrics_view [simp]:
  fixes c s defines "t \<equiv> metrics_inc_msg c s"
  shows "client t p = client s p" "alive t p = alive s p" "s_on t = s_on s" "standing t p = standing s p"
    "s_clients t = s_clients s" "sent_since t s' = sent_since s s'" "granted t s' p = granted s s' p"
    "bystanders p t s' = bystanders p s s'" "enough_fuel n t = enough_fuel n s" "grants t = grants s"
proof -
  have "t = s\<lparr>s_metrics := s_metrics t\<rparr>" by (simp add: t_def metrics_inc_msg_def)
  then obtain x where t: "t = s\<lparr>s_metrics := x\<rparr>" by blast
  have q: "queues g (s\<lparr>s_metrics := x\<rparr>) = queues g s" for g by (simp add: queues_def)
  have st: "standing (s\<lparr>s_metrics := x\<rparr>) p = standing s p" for p by (simp add: standing_def q split: option.split)
  show "client t p = client s p" "alive t p = alive s p" "s_on t = s_on s" "standing t p = standing s p"
    "s_clients t = s_clients s" "sent_since t s' = sent_since s s'" "granted t s' p = granted s s' p"
    "bystanders p t s' = bystanders p s s'" "enough_fuel n t = enough_fuel n s" "grants t = grants s"
    unfolding t by (simp_all add: alive_def st q sent_since_def granted_def bystanders_def steady_def contexts_kept_def
        serial_ok_def uuids_ok_def enough_fuel_def grants_def)
qed

lemma inv_take:
  assumes i: "sys_inv z" and p: "y_proc z p \<noteq> Absent" "link_ok (z\<lparr>y_up := (y_up z)(p := ms)\<rparr>) p"
  shows "sys_inv (z\<lparr>y_up := (y_up z)(p := ms)\<rparr>)"
  by (rule inv_process [OF i, where p = p]) (use p in auto)

lemma quiet_message:
  assumes i: "sys_inv y" and m: "m_type m = SET_TQ \<or> m_type m = SCHED_ON \<or> m_type m = MEM_UPDATE" and p: "alive (y_sched y) p"
    and h: "process_msg annot cred oob n p m (y_sched y) = Inr s'"
  shows "sys_inv (sched_moves s' y)"
proof -
  let ?s = "y_sched y" and ?t = "metrics_inc_msg (msg_code (m_type m)) (y_sched y)"
  have on: "s_on ?s" and v: "sched_inv ?s" using i by (simp_all add: sys_inv_def)
  have it: "ident ?s ?t" by (simp add: ident_core)
  have w: "wf_state ?t" "sends_ok ?t" using inv_ident [OF v it] by (simp_all add: sched_inv_def)
  have "ident ?t s'"
    using m h on handle_mem_update_ident [OF w, of p "m_memory_usage m"] p set_tq_ident [of ?t "m_data m"]
    by (auto simp: process_msg_def Let_def)
  moreover have "talks ?s s'"
  proof (cases "m_type m = SCHED_ON")
    case True
    then have "s' = ?t" using h on by (simp add: process_msg_def Let_def)
    then show ?thesis by simp
  qed (use m in \<open>auto intro: says_msg [OF h]\<close>)
  ultimately show ?thesis by (intro inv_ident_moves [OF i] ident_trans [OF it])
qed

lemma inv_receive_quiet:
  assumes i: "sys_inv y" and up: "y_up y p = m # ms" and pr: "process_msg annot cred oob n p m (y_sched y) = Inr s'"
    and m: "m_type m = SET_TQ \<or> m_type m = SCHED_ON \<or> m_type m = MEM_UPDATE"
  shows "sys_inv ((sched_moves s' y)\<lparr>y_up := (y_up y)(p := ms)\<rparr>)"
proof -
  have al: "alive (y_sched y) p" by (rule sent_allowed(1) [OF i up])
  have z: "sys_inv (sched_moves s' y)" by (rule quiet_message [OF i m al pr])
  have l: "link_ok (sched_moves s' y) p" by (rule inv_link [OF z])
  have u: "y_up (sched_moves s' y) = y_up y" "y_proc (sched_moves s' y) = y_proc y" by (simp_all add: sched_moves_def)
  have "link_ok ((sched_moves s' y)\<lparr>y_up := (y_up (sched_moves s' y))(p := ms)\<rparr>) p"
    using l up m u by (cases "y_proc y p") (auto simp: link_ok_def Let_def is_lock_msg_def split: if_splits)
  from inv_take [OF z _ this] show ?thesis using al inv_alive [OF i] u by simp
qed

lemma inv_receive_lock:
  assumes i: "sys_inv y" and up: "y_up y p = m # ms" and n: "enough_fuel n (y_sched y)"
    and pr: "process_msg annot cred oob n p m (y_sched y) = Inr s'"
    and a: "y_proc y p = Active par l" and m: "m_type m = REQ_LOCK \<or> m_type m = LOCK_RELEASED"
  shows "sys_inv ((sched_moves s' y)\<lparr>y_up := (y_up y)(p := ms)\<rparr>)"
proof -
  let ?s = "y_sched y" and ?t = "metrics_inc_msg (msg_code (m_type m)) (y_sched y)"
  have on: "s_on ?t" and v: "sched_inv ?t" using i inv_core [of ?s ?t] by (simp_all add: sys_inv_def)
  have al: "alive ?t p" using sent_allowed(1) [OF i up] by simp
  have lk: "has_registered (client ?s p)" "named ?s p (gpu_of par)" "lib_inv l" "\<forall>m \<in> set (y_down y p). \<not> is_status (m_type m)"
    "\<forall>m \<in> set ms. m_type m \<in> {MEM_UPDATE, REQ_LOCK, LOCK_RELEASED}"
    and ag: "agree (lib_phase l) (m_type m # lock_traffic ms) (grants_in (y_down y p)) (standing ?s p)"
    using inv_link [OF i, of p] up m by (auto simp: link_active [OF a] is_lock_msg_def)
  have reg: "has_registered (client ?t p)" and nt: "enough_fuel n ?t" using lk(1) n by simp_all
  have *: "bystanders p ?s s' \<and> sched_inv s' \<and> s_clients s' = s_clients ?s \<and> has_registered (client s' p)
    \<and> c_context (client s' p) = c_context (client ?s p)
    \<and> agree (lib_phase l) (lock_traffic ms) (grants_in (y_down y p) + granted ?s s' p) (standing s' p)
    \<and> talks ?s s'"
    using m
  proof
    assume q: "m_type m = REQ_LOCK"
    have h: "handle_req_lock n p ?t = Inr s'" using pr q by (simp add: process_msg_def Let_def)
    have out: "standing ?t p = Out" using ag agree_requested [of "lib_phase l"] q by simp
    note r = request_view [OF v al reg out on nt h]
    have "agree (lib_phase l) (lock_traffic ms) (grants_in (y_down y p) + granted ?s s' p) (standing s' p)"
      using agree_requested [of "lib_phase l" "lock_traffic ms" "grants_in (y_down y p)" "standing ?s p" "standing s' p" "granted ?s s' p"]
        ag q r(6) by auto
    then show ?thesis using r(1-5) q says_msg [OF pr] by simp
  next
    assume q: "m_type m = LOCK_RELEASED"
    have h: "handle_lock_released n p ?t = Inr s'" using pr q by (simp add: process_msg_def Let_def)
    have run: "standing ?t p = Run" using ag agree_released [of "lib_phase l"] q by simp
    note r = release_view [OF v al reg run on nt h]
    show ?thesis using r ag q agree_released [of "lib_phase l" "lock_traffic ms" "grants_in (y_down y p)" "standing ?s p"]
      says_msg [OF pr] by simp
  qed
  let ?y = "(sched_moves s' y)\<lparr>y_up := (y_up y)(p := ms)\<rparr>"
  have f: "y_sched ?y = s'" "y_proc ?y = y_proc y" "y_up ?y = (y_up y)(p := ms)" "y_down ?y p = y_down y p @ delivery ?s s' p"
    by (simp_all add: sched_moves_def)
  have "\<not> is_status (m_type x)" if "x \<in> set (delivery ?s s' p)" for x
    using that talks_no_status [of ?s s'] * by (auto simp: delivery_def)
  moreover have "named s' p (gpu_of par)"
    using * lk(2) named_kept [of ?s p _ s'] by (simp add: bystanders_def)
  ultimately have "link_ok ?y p" using * lk f by (auto simp: link_active [of ?y p par l] a delivery_grants)
  then show ?thesis
    by (intro inv_about [OF i, of p s']) (use * a al in \<open>auto simp: f alive_def sched_moves_def\<close>)
qed

lemma inv_receive_register:
  assumes i: "sys_inv y" and up: "y_up y p = m # ms" and pr: "process_msg annot cred oob n p m (y_sched y) = Inr s'"
    and j: "y_proc y p = Joining par"
  shows "sys_inv ((sched_moves s' y)\<lparr>y_up := (y_up y)(p := ms)\<rparr>)"
proof -
  let ?s = "y_sched y" and ?t = "metrics_inc_msg (msg_code (m_type m)) (y_sched y)"
  have on: "s_on ?t" and v: "sched_inv ?t" using i inv_core [of ?s ?t] by (simp_all add: sys_inv_def)
  have al: "alive ?t p" using sent_allowed(1) [OF i up] by simp
  have lk: "\<not> has_registered (client ?t p)" "m = registration par" "ms = []" "grants_in (y_down y p) = 0"
    "\<forall>m \<in> set (y_down y p). \<not> is_status (m_type m)" "str_fits NVSHARE_GPU_UUID_LEN (gpu_of par)"
    using inv_link [OF i, of p] up j by (auto simp: link_ok_def Let_def split: if_splits)
  obtain b s1 where r: "register_client annot cred oob n p m ?t = Inr (b, s1)"
    and s1: "(if b then Inr s1 else delete_client (try_schedule n) p s1) = Inr s'"
    using pr by (auto simp: process_msg_def lk(2) bindR_Inr_iff Let_def)
  have u: "str_fits NVSHARE_GPU_UUID_LEN (m_gpu_uuid m)" using lk(2,6) by (simp add: gpu_of_def)
  note g = register_view [OF v al lk(1) on u r]
  have "s1 = s'" using s1 g(1) by simp
  note g = g [unfolded this]
  obtain answer new where since: "sent_since ?s s' = (c_fd (client ?s p), answer) # new" "m_type answer = SCHED_ON"
    "\<forall>e \<in> set new. m_type (snd e) = UPDATE_LIMIT" using g(9) by auto
  let ?y = "(sched_moves s' y)\<lparr>y_up := (y_up y)(p := ms)\<rparr>"
  have f: "y_sched ?y = s'" "y_proc ?y = y_proc y" "y_up ?y = (y_up y)(p := ms)" "y_down ?y p = y_down y p @ delivery ?s s' p"
    by (simp_all add: sched_moves_def)
  obtain rest where rest: "delivery ?s s' p = answer # rest" "\<forall>x \<in> set rest. m_type x = UPDATE_LIMIT"
    using since g(8) by (force simp: delivery_def)
  have "filter (\<lambda>m. is_status (m_type m)) (y_down y p @ answer # rest) = [answer]"
    using lk(5) since(2) rest(2) by (auto simp: is_status_def filter_empty_conv)
  moreover have "grants_in (answer # rest) = 0" using since(2) rest(2) by (auto simp: grants_in_def filter_empty_conv)
  moreover have "\<forall>x \<in> set (y_down y p @ answer # rest). m_type x \<noteq> SCHED_OFF"
    using lk(5) since(2) rest(2) by (auto simp: is_status_def)
  moreover have "named s' p (gpu_of par)" using g(7) lk(2) by (simp add: gpu_of_def)
  ultimately have "link_ok ?y p" using g(5,6) f rest(1) lk j by (simp add: link_ok_def Let_def)
  then show ?thesis
    by (intro inv_about [OF i, of p s']) (use g j al in \<open>auto simp: f alive_def sched_moves_def\<close>)
qed

lemma inv_receive:
  assumes i: "sys_inv y" and up: "y_up y p = m # ms" and r: "receive_message r = Inr (Some m)" and n: "enough_fuel n (y_sched y)"
    and h: "handle_event annot cred oob n (Readable p r) (y_sched y) = Inr s'"
  shows "sys_inv ((sched_moves s' y)\<lparr>y_up := (y_up y)(p := ms)\<rparr>)"
proof -
  have pr: "process_msg annot cred oob n p m (y_sched y) = Inr s'"
    using received [OF r sent_allowed(1) [OF i up]] h by simp
  show ?thesis
  proof (cases "y_proc y p")
    case (Joining par)
    then show ?thesis by (rule inv_receive_register [OF i up pr])
  next
    case (Active par l)
    then have "m_type m \<in> {MEM_UPDATE, REQ_LOCK, LOCK_RELEASED}" using inv_link [OF i, of p] up by (auto simp: link_active)
    then show ?thesis using inv_receive_quiet [OF i up pr] inv_receive_lock [OF i up n pr Active] by auto
  qed (use inv_link [OF i, of p] up inv_receive_quiet [OF i up pr] in \<open>auto simp: link_ok_def Let_def\<close>)
qed

section \<open>The composed system\<close>

lemma sys_start_inv: "sys_start y \<Longrightarrow> sys_inv y"
  using initial_inv [of "y_sched y"]
  by (auto simp: sys_start_def sys_inv_def link_ok_def sched_start_def initial_state_def uuids_ok_def serial_ok_def alive_def)

lemma sys_step_inv: "sys_step y z \<Longrightarrow> sys_inv y \<Longrightarrow> sys_inv z"
proof (induction rule: sys_step.induct)
  case (connect n y fd q junk annot cred oob s' par)
  have "link_ok (opened s' q (Joining par) (registration par) y) q"
    using accepted_link [OF connect(2)] gpu_of_fits [OF connect(3)] by (simp add: link_ok_def opened_def)
  from inv_connect [OF connect(4,1,2) this] show ?case by simp
next
  case (connect_tool n y fd q junk annot cred oob s' m)
  have "link_ok (opened s' q Tool m y) q"
    using accepted_link [OF connect_tool(2)] connect_tool(3) by (simp add: link_ok_def opened_def)
  from inv_connect [OF connect_tool(4,1,2) this] show ?case by simp
next
  case (die y p)
  show ?case by (rule inv_process [OF die(2), where p = p]) (use die inv_link [of y p] in \<open>auto simp: link_ok_def\<close>)
qed (blast intro: inv_receive inv_hang_up inv_prepare inv_enforce inv_watch inv_join inv_application inv_message)+

interpretation sharing: invariant_system sys_start sys_step sys_inv
  by unfold_locales (auto intro: sys_start_inv sys_step_inv)

lemma short_list_same: "length xs \<le> 1 \<Longrightarrow> x \<in> set xs \<Longrightarrow> y \<in> set xs \<Longrightarrow> x = y"
  by (cases xs) auto

lemma holder_runs:
  assumes "sys_inv y" "y_proc y p = Active par l" "l_own_lock l"
  obtains g where "c_context (client (y_sched y) p) = Some g" "g \<in> set (s_contexts (y_sched y))"
    "p \<in> set (g_running_list (gpu (y_sched y) g))" "strncmp_eq (g_uuid (gpu (y_sched y) g)) (gpu_of par) NVSHARE_GPU_UUID_LEN"
proof -
  have a: "agree Holding (lock_traffic (y_up y p)) (grants_in (y_down y p)) (standing (y_sched y) p)"
    and n: "named (y_sched y) p (gpu_of par)"
    using inv_link [OF assms(1), of p] assms(3) by (simp_all add: link_active [OF assms(2)] lib_phase_def)
  have "standing (y_sched y) p = Run" using a by (auto elim: agree_holdE)
  then show thesis using n that by (auto simp: named_def standing_def split: if_splits)
qed

section \<open>Progress\<close>

lemma sent_allowed_event:
  assumes i: "sys_inv y" and up: "y_up y p = m # ms" and r: "receive_message r = Inr (Some m)"
    and f: "m_type m = REGISTER \<longrightarrow> \<not> isl (fresh_id n (metrics_inc_msg (msg_code REGISTER) (y_sched y)))"
  shows "event_allowed n (y_sched y) (Readable p r)"
proof -
  note s = sent_allowed(1) [OF i up] sent_allowed(2) [OF i up, of n]
  have "msg_allowed n (y_sched y) p m" if q: "m_type m = REGISTER"
  proof (cases "y_proc y p")
    case (Joining par)
    then have "\<not> has_registered (client (y_sched y) p)" "m = registration par" "str_fits NVSHARE_GPU_UUID_LEN (gpu_of par)"
      using inv_link [OF i, of p] up by (auto simp: link_ok_def Let_def split: if_splits)
    then show ?thesis using f by (simp add: msg_allowed_def gpu_of_def)
  qed (use inv_link [OF i, of p] up q in \<open>auto simp: link_ok_def Let_def\<close>)
  then show ?thesis using s r by (auto simp: event_allowed_def)
qed

text \<open>A library that does not hold the lock handles every message without writing.\<close>

lemma msg_waiting:
  assumes "\<not> l_own_lock l" obtains l' where "client_msg m l = Inr l'" "wrote l l' []"
proof -
  have "\<exists>l'. client_msg m l = Inr l' \<and> l_sent l' = l_sent l"
    using assms lock_ok_fields(5) [of l] swap_out_eq [of l]
    by (cases "m_type m") (auto simp: client_msg_def on_drop_lock_def hook_update_memory_limit_def)
  then show thesis using that by (auto simp: wrote_def)
qed

lemma grant_is_read:
  assumes "sys_inv y" "y_proc y p = Active par l" "\<not> y_dead y p" "0 < grants_in (y_down y p)"
  shows "\<exists>z l'. sys_step\<^sup>*\<^sup>* y z \<and> y_proc z p = Active par l' \<and> l_own_lock l'
    \<and> y_sched z = y_sched y \<and> (\<forall>q. q \<noteq> p \<longrightarrow> y_proc z q = y_proc y q)"
  using assms
proof (induction "y_down y p" arbitrary: y l)
  case Nil
  then show ?case using lock_traffic_Cons(3) by (metis less_irrefl)
next
  case (Cons m rest)
  note d = Cons.hyps(2) [symmetric] and i = Cons.prems(1) and a = Cons.prems(2)
  have "agree (lib_phase l) (lock_traffic (y_up y p)) (grants_in (y_down y p)) (standing (y_sched y) p)"
    using inv_link [OF i, of p] by (simp add: link_active [OF a])
  then have "lib_phase l = Waiting" using Cons.prems(4) agree_granted by (cases "grants_in (y_down y p)") auto
  then have o: "\<not> l_own_lock l" by (auto simp: lib_phase_def)
  obtain l' where l': "client_msg m l = Inr l'" "wrote l l' []" by (rule msg_waiting [OF o])
  let ?z = "(lib_moves p par l' [] y)\<lparr>y_down := (y_down y)(p := rest)\<rparr>"
  have st: "sys_step y ?z" by (rule message [OF a Cons.prems(3) d l'])
  have z: "y_proc ?z p = Active par l'" "y_dead ?z p = y_dead y p" "y_down ?z p = rest"
    "y_sched ?z = y_sched y" "\<And>q. q \<noteq> p \<Longrightarrow> y_proc ?z q = y_proc y q" by (simp_all add: lib_moves_def)
  show ?case
  proof (cases "m_type m = LOCK_OK")
    case True
    then have "l' = on_lock_ok l" using l'(1) by (simp add: client_msg_def)
    then have "l_own_lock l'" using lock_ok_fields(1) by simp
    then show ?thesis using st z by (intro exI [of _ ?z]) auto
  next
    case False
    have "0 < grants_in (y_down ?z p)" using Cons.prems(4) d z(3) False by simp
    then obtain x l'' where "sys_step\<^sup>*\<^sup>* ?z x" "y_proc x p = Active par l''" "l_own_lock l''"
      "y_sched x = y_sched y" "\<forall>q. q \<noteq> p \<longrightarrow> y_proc x q = y_proc y q"
      using Cons.hyps(1) [OF z(3) [symmetric] sys_step_inv [OF st i] z(1)] Cons.prems(3) z by auto
    then show ?thesis using st converse_rtranclp_into_rtranclp [of sys_step] by blast
  qed
qed


text \<open>A client that runs, and from which no lock message is under way, has the lock or its grant is under way.\<close>

lemma grant_reaches:
  assumes i: "sys_inv y" and a: "y_proc y p = Active par l" "\<not> y_dead y p" and r: "standing (y_sched y) p = Run"
    and u: "lock_traffic (y_up y p) = []"
  shows "\<exists>z l'. sys_step\<^sup>*\<^sup>* y z \<and> y_proc z p = Active par l' \<and> l_own_lock l'
    \<and> y_sched z = y_sched y \<and> (\<forall>q. q \<noteq> p \<longrightarrow> y_proc z q = y_proc y q)"
proof -
  have "agree (lib_phase l) [] (grants_in (y_down y p)) Run"
    using inv_link [OF i, of p] r u by (simp add: link_active [OF a(1)])
  then consider "lib_phase l = Holding" | "0 < grants_in (y_down y p)" by (auto elim: agreeE)
  then show ?thesis
  proof cases
    case 1
    then show ?thesis using a(1) by (auto simp: lib_phase_def split: if_splits)
  qed (rule grant_is_read [OF i a])
qed

end
