(* ===== verification/SchedProps.thy ===== *)
theory SchedProps
  imports SchedSafety
begin

text \<open>
  The properties of the scheduler daemon, stated over the definitions of the theories \<open>SchedState\<close>
  to \<open>SchedSafety\<close>, with a concrete instance of each property that has hypotheses: a scheduler
  with one GPU and three registered clients (one running, one waiting, one with a request).
\<close>

section \<open>A concrete scheduler\<close>

definition demo_world :: world where
  "demo_world = \<lparr>w_clock = (\<lambda>k. 10000 + int k), w_time = (\<lambda>k. 0), w_rand = (\<lambda>k. k), w_write = (\<lambda>k fd. Inr 659),
     w_stale_fd = -1, w_clock_n = 0, w_time_n = 0, w_rand_n = 1, w_write_n = 0, w_sent = []\<rparr>"

definition demo_client :: "int \<Rightarrow> uint64 \<Rightarrow> size_t \<Rightarrow> int \<Rightarrow> bool \<Rightarrow> nvshare_client" where
  "demo_client fd i mem limit running = \<lparr>c_fd = fd, c_id = i, c_pod_name = ''pod'', c_pod_namespace = ''ns'',
     c_context = Some 1, c_memory_allocated = mem, c_peak_allocated = mem, c_is_running = running,
     c_last_scheduled_time = 0, c_memory_limit = 0, c_host_pid = 1, c_core_limit = limit,
     c_run_time_in_window_ms = 0, c_current_run_start_ms = 9000, c_is_throttled = False, c_pending_drop = False,
     c_drop_concurrency = 1, c_last_drop_sent_ms = 0, c_quota_debt_ms = 0\<rparr>"

definition demo_gpu :: "cptr list \<Rightarrow> cptr list \<Rightarrow> cptr list \<Rightarrow> size_t \<Rightarrow> gpu_context" where
  "demo_gpu rs ws run usage = \<lparr>g_uuid = ''GPU-0'', g_requests = rs, g_running_list = run,
     g_lock_held = (run \<noteq> []), g_must_reset_timer = False, g_total_memory = 16000, g_available_memory = 16000,
     g_running_memory_usage = usage, g_peak_memory_usage = usage, g_memory_overloaded = False, g_wait_queue = ws,
     g_window_start_ms = 9500, g_timer_wake = False, g_sched_wake = False\<rparr>"

text \<open>Clients 1 and 2 have half of the GPU each, client 3 is not limited.\<close>

definition demo :: "scheduling_mode \<Rightarrow> cptr list \<Rightarrow> cptr list \<Rightarrow> cptr list \<Rightarrow> size_t \<Rightarrow> sched_state" where
  "demo mode rs ws run usage = \<lparr>s_config = default_config\<lparr>cfg_scheduling_mode := mode\<rparr>, s_on = True, s_tq = 30,
     s_out_msg = zero_message, s_clients = [1, 2, 3],
     s_cmem = (\<lambda>p. if p = 1 then demo_client 11 101 4000 50 (1 \<in> set run)
                   else if p = 2 then demo_client 12 102 6000 50 (2 \<in> set run)
                   else demo_client 13 103 8000 100 (3 \<in> set run)),
     s_contexts = [1], s_gmem = (\<lambda>g. demo_gpu rs ws run usage), s_epoll = [5, 11, 12, 13],
     s_metrics = \<lparr>mt_msg = (\<lambda>_. 0), mt_drop_lock = 0, mt_client_disconnect = 0, mt_wait_for_mem = 0,
       mt_mem_available = 0\<rparr>, s_world = demo_world\<rparr>"

lemma demo_simps [simp]:
  "s_clients (demo mode rs ws run u) = [1, 2, 3]" "s_contexts (demo mode rs ws run u) = [1]"
  "gpu (demo mode rs ws run u) g = demo_gpu rs ws run u" "s_world (demo mode rs ws run u) = demo_world"
  "s_config (demo mode rs ws run u) = default_config\<lparr>cfg_scheduling_mode := mode\<rparr>" "s_on (demo mode rs ws run u)"
  "client (demo mode rs ws run u) p = (if p = 1 then demo_client 11 101 4000 50 (1 \<in> set run)
     else if p = 2 then demo_client 12 102 6000 50 (2 \<in> set run) else demo_client 13 103 8000 100 (3 \<in> set run))"
  "alive (demo mode rs ws run u) p \<longleftrightarrow> p \<in> {1, 2, 3}"
  by (simp_all add: demo_def alive_def)

lemma demo_client_simps [simp]:
  "c_fd (demo_client fd i mem lim r) = fd" "c_id (demo_client fd i mem lim r) = i"
  "c_context (demo_client fd i mem lim r) = Some 1" "c_memory_allocated (demo_client fd i mem lim r) = mem"
  "c_core_limit (demo_client fd i mem lim r) = lim" "c_run_time_in_window_ms (demo_client fd i mem lim r) = 0"
  "c_current_run_start_ms (demo_client fd i mem lim r) = 9000" "c_is_throttled (demo_client fd i mem lim r) = False"
  "c_pending_drop (demo_client fd i mem lim r) = False" "c_is_running (demo_client fd i mem lim r) = r"
  by (simp_all add: demo_client_def)

lemma demo_gpu_simps [simp]:
  "g_requests (demo_gpu rs ws run u) = rs" "g_wait_queue (demo_gpu rs ws run u) = ws"
  "g_running_list (demo_gpu rs ws run u) = run" "g_lock_held (demo_gpu rs ws run u) = (run \<noteq> [])"
  "g_running_memory_usage (demo_gpu rs ws run u) = u" "g_total_memory (demo_gpu rs ws run u) = 16000"
  "g_memory_overloaded (demo_gpu rs ws run u) = False" "g_window_start_ms (demo_gpu rs ws run u) = 9500"
  by (simp_all add: demo_gpu_def)

lemma demo_wf:
  assumes "distinct (rs @ ws @ run)" "set (rs @ ws @ run) \<subseteq> {1, 2, 3}"
  shows "wf_state (demo mode rs ws run u)"
proof -
  have "config_ok (default_config\<lparr>cfg_scheduling_mode := mode\<rparr>)" by (intro config_ok_fields config_ok_default)
  moreover have "gpu_wf (demo mode rs ws run u) 1"
    using assms by (auto simp: gpu_wf_def Let_def list_all_iff)
  moreover have "s_epoll (demo mode rs ws run u) = [5, 11, 12, 13]" by (simp add: demo_def)
  ultimately show ?thesis by (simp add: wf_state_def bills_ok_def inj_on_def demo_world_def)
qed

lemma demo_sends [simp]: "sends_ok (demo mode rs ws run u)"
  by (simp add: sends_ok_def demo_world_def)

lemma demo_config_ok [simp]: "config_ok (default_config\<lparr>cfg_scheduling_mode := mode\<rparr>)"
  by (intro config_ok_fields config_ok_default)

lemma demo_ids: "ids_ok (demo mode rs ws run u)"
  by (simp add: ids_ok_def has_registered_def NVSHARE_UNREGISTERED_ID_def)


section \<open>Safety of runs\<close>





section \<open>The scheduling loop\<close>

text \<open>(C6) \<open>try_schedule\<close> ends, keeps the state well-formed, and what it does to the three queues of the
  context is a sequence of abstract steps (admit or defer the head of the requests, promote a waiting
  client); in the modes that are not serial no request is left.\<close>

theorem try_schedule_refines:
  assumes "wf_state s" "sends_ok s" "g \<in> set (s_contexts s)" "sched_measure g s < n"
  shows "\<exists>s'. try_schedule n g s = Inr s' \<and> wf_state s' \<and> qstep\<^sup>*\<^sup>* (queues g s) (queues g s')
    \<and> mset (all_queued (queues g s')) = mset (all_queued (queues g s))
    \<and> (cfg_scheduling_mode (s_config s) \<noteq> SCHED_MODE_SERIAL \<longrightarrow> g_requests (gpu s' g) = [])"
proof -
  obtain adm s' where t: "try_schedule n g s = Inr s'" "works g s adm s'" "pass_done g s adm s'"
    using try_schedule_correct [OF assms] by blast
  then have q: "qstep\<^sup>*\<^sup>* (queues g s) (queues g s')" by (simp add: works_def)
  show ?thesis using t q qsteps_perm [OF q] works_wf [OF assms(1,3) t(2)] by (auto simp: pass_done_def)
qed

theorem try_schedule_refines_witness:
  "\<exists>s'. try_schedule 10 1 (demo SCHED_MODE_AUTO [2, 3] [] [1] 4000) = Inr s' \<and> wf_state s'
    \<and> qstep\<^sup>*\<^sup>* ([2, 3], [], [1]) (queues 1 s') \<and> g_requests (gpu s' 1) = []"
  using try_schedule_refines [of "demo SCHED_MODE_AUTO [2, 3] [] [1] 4000" 1 10]
    demo_wf [of "[2, 3]" "[]" "[1]" SCHED_MODE_AUTO 4000]
  by (simp add: sched_measure_def) (auto simp: queues_def)

text \<open>(C7) The clients that a pass admits are appended to the running list in the order of admission,
  each of them is sent one \<open>LOCK_OK\<close> and no other client is, their memory is added to the usage of
  the GPU, and other GPUs are not affected.\<close>

theorem try_schedule_grants:
  assumes "wf_state s" "sends_ok s" "g \<in> set (s_contexts s)" "sched_measure g s < n"
  shows "\<exists>adm s'. try_schedule n g s = Inr s' \<and> g_running_list (gpu s' g) = g_running_list (gpu s g) @ adm
    \<and> grants s' = rev (map (\<lambda>p. c_fd (client s p)) adm) @ grants s
    \<and> g_running_memory_usage (gpu s' g)
        = g_running_memory_usage (gpu s g) + sum_list (map (\<lambda>p. c_memory_allocated (client s p)) adm)
    \<and> (\<forall>h. h \<noteq> g \<longrightarrow> gpu s' h = gpu s h)"
  using try_schedule_correct [OF assms] by (fastforce simp: works_def frame_def)

theorem try_schedule_grants_witness:
  "\<exists>adm s'. try_schedule 10 1 (demo SCHED_MODE_AUTO [2, 3] [] [1] 4000) = Inr s'
    \<and> g_running_list (gpu s' 1) = [1] @ adm \<and> grants s' = rev (map (\<lambda>p. c_fd (client (demo SCHED_MODE_AUTO [2, 3] [] [1] 4000) p)) adm)"
  using try_schedule_grants [of "demo SCHED_MODE_AUTO [2, 3] [] [1] 4000" 1 10]
    demo_wf [of "[2, 3]" "[]" "[1]" SCHED_MODE_AUTO 4000]
  by (simp add: sched_measure_def grants_def demo_world_def del: demo_simps(7)) blast

text \<open>In serial mode, and on a GPU whose memory overload has been detected, at most one client
  holds the lock.\<close>

lemma serial_exclusion:
  assumes "wf_state s" "sends_ok s" "g \<in> set (s_contexts s)" "sched_measure g s < n"
    and "cfg_scheduling_mode (s_config s) = SCHED_MODE_SERIAL \<or> g_memory_overloaded (gpu s g)"
    and "length (g_running_list (gpu s g)) \<le> 1"
  shows "\<exists>s'. try_schedule n g s = Inr s' \<and> length (g_running_list (gpu s' g)) \<le> 1"
proof -
  obtain adm s' where t: "try_schedule n g s = Inr s'" "works g s adm s'"
    using try_schedule_correct [OF assms(1-4)] by blast
  have "admits g s (g_running_memory_usage (gpu s g)) (g_lock_held (gpu s g)) adm" using t(2) by (simp add: works_def)
  then have "length adm \<le> (if g_lock_held (gpu s g) then 0 else 1)" by (rule admits_exclusive [OF assms(5)])
  moreover have "g_lock_held (gpu s g) \<longleftrightarrow> g_running_list (gpu s g) \<noteq> []"
    using wf_gpu [OF assms(1,3)] by (simp add: gpu_wf_def Let_def)
  ultimately show ?thesis using t assms(6) by (auto simp: works_def split: if_splits)
qed



section \<open>Removal\<close>





section \<open>Quotas and billing\<close>

text \<open>(C16) The effective quotas of the limited clients of a GPU never add up to more than the compute
  window, however many clients there are and whatever shares they ask for.\<close>

theorem quota_fair:
  assumes "config_ok (s_config s)" "limits_ok g s"
  shows "sum_list (map (\<lambda>p. get_effective_quota_ms g p s) (limited_clients g s)) \<le> cfg_compute_window_ms (s_config s)"
  by (rule quota_sum_le_window [OF assms])

theorem quota_fair_witness:
  "get_effective_quota_ms 1 1 (demo SCHED_MODE_AUTO [] [] [1] 0) + get_effective_quota_ms 1 2 (demo SCHED_MODE_AUTO [] [] [1] 0) \<le> 2000"
  using quota_fair [of "demo SCHED_MODE_AUTO [] [] [1] 0" 1] demo_config_ok [of SCHED_MODE_AUTO]
  by (simp add: limits_ok_def limited_clients_def limited_on_def) (simp add: default_config_def)

text \<open>(C17) Weighted billing never bills more than wall-clock time: what one settlement adds to all
  running clients together is at most the time since the earliest start of an unsettled stretch.\<close>

theorem billing_conservation:
  assumes "accrue_running_usage g now e s = Inr s'" "distinct (g_running_list (gpu s g))"
    "\<forall>p \<in> set (g_running_list (gpu s g)). t0 \<le> c_current_run_start_ms (client s p)" "t0 \<le> now"
  shows "sum_list (map (\<lambda>p. c_run_time_in_window_ms (client s' p) - c_run_time_in_window_ms (client s p))
           (g_running_list (gpu s g))) \<le> now - t0"
  by (rule accrue_conservation [OF assms])

theorem billing_conservation_witness:
  "\<exists>s'. accrue_running_usage 1 10001 None (demo SCHED_MODE_AUTO [] [] [1, 2] 10000) = Inr s'
    \<and> c_run_time_in_window_ms (client s' 1) + c_run_time_in_window_ms (client s' 2) \<le> 1001"
proof -
  let ?s = "demo SCHED_MODE_AUTO [] [] [1, 2] 10000"
  obtain s' where a: "accrue_running_usage 1 10001 None ?s = Inr s'"
    using accrue_total [of ?s 1 10001 None] by simp
  show ?thesis using a billing_conservation [OF a, of 9000] by simp
qed




text \<open>(C19) \<open>init_config\<close> keeps the settings it validates in their ranges for every environment: window,
  sampling interval, carry-over and billing percentages, maximum run time.\<close>

theorem init_config_ranges: "config_ok (init_config getenv default_config)"
  by (rule config_ok_init) simp

section \<open>The timer thread\<close>

text \<open>(C20) The throttling pass of the timer stops exactly the running clients whose billed usage has
  reached their quota: these are marked, billed up to now and sent one \<open>DROP_LOCK\<close> each; every other
  client is left as it is.\<close>

theorem throttle_exact:
  assumes "wf_state s" "sends_ok s" "g \<in> set (s_contexts s)"
  shows "\<exists>s'. throttle_loop g now n (g_running_list (gpu s g)) s = Inr s'
    \<and> (\<forall>p. client s' p = (if p \<in> set (g_running_list (gpu s g)) \<and> over_quota g now n s p
                         then throttled now n s p else client s p))
    \<and> w_sent (s_world s') = rev (map (\<lambda>p. (c_fd (client s p), drop_msg))
          (filter (over_quota g now n s) (g_running_list (gpu s g)))) @ w_sent (s_world s)"
proof -
  have "\<forall>p \<in> set (g_running_list (gpu s g)). alive s p \<and> c_context (client s p) = Some g"
    using wf_queued [OF assms(1,3)] by (auto simp: all_queued_def queues_def)
  then show ?thesis
    using throttle_loop_correct [OF assms(2), of "g_running_list (gpu s g)" g now n]
      wf_simps(1) [OF assms(1)] wf_distinct_queues [OF assms(1,3)] by auto
qed

theorem throttle_exact_witness:
  "\<exists>s'. throttle_loop 1 11000 2 [1, 2] (demo SCHED_MODE_AUTO [] [] [1, 2] 10000) = Inr s'
    \<and> c_is_throttled (client s' 1) \<and> length (w_sent (s_world s')) = 2"
proof -
  let ?s = "demo SCHED_MODE_AUTO [] [] [1, 2] 10000"
  have q: "over_quota 1 11000 2 ?s 1" "over_quota 1 11000 2 ?s 2"
    by (simp_all add: over_quota_def current_usage_def get_effective_quota_ms_def calculate_total_quota_def
        limited_on_def default_config_def)
  obtain s' where s': "throttle_loop 1 11000 2 [1, 2] ?s = Inr s'"
    "client s' 1 = (if 1 \<in> set [1, 2::nat] \<and> over_quota 1 11000 2 ?s 1 then throttled 11000 2 ?s 1 else client ?s 1)"
    "w_sent (s_world s') = rev (map (\<lambda>p. (c_fd (client ?s p), drop_msg)) (filter (over_quota 1 11000 2 ?s) [1, 2])) @ w_sent (s_world ?s)"
    using throttle_exact [of ?s 1 11000 2] demo_wf [of "[]" "[]" "[1, 2]" SCHED_MODE_AUTO 10000] by auto
  have "c_is_throttled (client s' 1)" using s'(2) q(1) by (simp add: throttled_def del: demo_simps)
  moreover have "length (w_sent (s_world s')) = 2" using s'(3) q by (simp add: demo_world_def)
  ultimately show ?thesis using s'(1) by blast
qed

text \<open>(C21) With a compute window shorter than the time quantum the timer never rotates the running
  clients: the wait is cut at the window, so the test for a full quantum never succeeds. This is the
  case for the default settings (window 2 s, quantum at least 10 s).\<close>

theorem quantum_rotation_dead:
  assumes "config_ok (s_config s)" "g_window_start_ms (gpu s g) \<le> now"
    "cfg_compute_window_ms (s_config s) < calculate_switch_time g s * 1000"
  shows "rotate g timed_out (min_sleep_ms g now (calculate_switch_time g s * 1000) s) (calculate_switch_time g s * 1000) t
    = Inr t"
  by (rule rotate_never [OF assms])

theorem quantum_rotation_dead_witness:
  "rotate 1 True (min_sleep_ms 1 10000 (calculate_switch_time 1 (demo SCHED_MODE_AUTO [2] [3] [1] 4000) * 1000) (demo SCHED_MODE_AUTO [2] [3] [1] 4000))
     (calculate_switch_time 1 (demo SCHED_MODE_AUTO [2] [3] [1] 4000) * 1000) (demo SCHED_MODE_AUTO [2] [3] [1] 4000)
   = Inr (demo SCHED_MODE_AUTO [2] [3] [1] 4000)"
proof -
  let ?s = "demo SCHED_MODE_AUTO [2] [3] [1] 4000"
  have "10 \<le> calculate_switch_time 1 ?s" using switch_time_bounds [of ?s 1] by (simp add: default_config_def)
  then have "cfg_compute_window_ms (s_config ?s) < calculate_switch_time 1 ?s * 1000" by (simp add: default_config_def)
  then show ?thesis by (intro quantum_rotation_dead) simp_all
qed

section \<open>Requests that are never served\<close>

text \<open>(C22) When the \<open>LOCK_OK\<close> to the client at the head of an idle GPU cannot be delivered, deleting the
  client schedules the GPU again before the request is dropped: the calls nest without end.\<close>

theorem dead_client_recursion: "dead_head g p s \<Longrightarrow> try_schedule n g s = Inl OutOfFuel"
  by (rule dead_client_diverges)

definition demo_dead :: sched_state where
  "demo_dead = (demo SCHED_MODE_AUTO [3] [] [] 0)\<lparr>s_world := demo_world\<lparr>w_write := (\<lambda>k fd. Inl EPIPE)\<rparr>\<rparr>"

theorem dead_client_recursion_witness: "dead_head 1 3 demo_dead \<and> (\<forall>n. try_schedule n 1 demo_dead = Inl OutOfFuel)"
proof -
  have "dead_head 1 3 demo_dead"
    by (simp add: dead_head_def demo_dead_def demo_def can_run_with_memory_def alive_def default_config_def)
  then show ?thesis using dead_client_recursion by blast
qed

text \<open>(C23) A client that waits for memory and asks for the lock again makes the scheduling loop spin
  forever: its second request is neither admitted nor moved.\<close>

theorem duplicate_request_loop:
  assumes "g_requests (gpu s g) = p # rs" "p \<in> set (g_wait_queue (gpu s g))" "running_live g s" "alive s p"
    "\<not> can_run_with_memory g p s"
  shows "try_schedule n g s = Inl OutOfFuel"
  by (rule duplicate_request_spins [OF assms])

theorem duplicate_request_loop_witness:
  "\<forall>n. try_schedule n 1 (demo SCHED_MODE_CONCURRENT [3] [3] [1, 2] 10000) = Inl OutOfFuel"
  by (intro allI duplicate_request_loop [where p = 3 and rs = "[]"])
    (simp_all add: running_live_def can_run_with_memory_def safe_limit_def default_config_def)

section \<open>Clients\<close>

text \<open>(C28) Registration gives the client an identifier that is not the reserved one and that no other
  client has, assigns it the context of its GPU, and keeps the state well-formed.\<close>

theorem register_client_unique:
  assumes "wf_state s" "ids_ok s" "sends_ok s" "alive s p" "\<not> has_registered (client s p)"
    "fresh_id n s = Inr (i, s1)" "str_fits NVSHARE_GPU_UUID_LEN (m_gpu_uuid m)"
  shows "\<exists>s' g. register_client annot cred oob n p m s = Inr (True, s') \<and> wf_state s' \<and> ids_ok s'
    \<and> c_id (client s' p) = i \<and> i \<noteq> NVSHARE_UNREGISTERED_ID \<and> i \<notin> (\<lambda>q. c_id (client s q)) ` set (s_clients s)
    \<and> c_context (client s' p) = Some g \<and> g \<in> set (s_contexts s')
    \<and> strncmp_eq (g_uuid (gpu s' g)) (m_gpu_uuid m) NVSHARE_GPU_UUID_LEN"
  using register_client_correct [OF assms, of annot cred oob] fresh_id_correct [OF assms(6)] by blast

definition demo_fresh :: sched_state where
  "demo_fresh = accept_client 14 4 (demo_client 0 0 0 100 False) True (demo SCHED_MODE_AUTO [] [] [1] 4000)"

lemma demo_fresh_ok:
  "wf_state demo_fresh" "ids_ok demo_fresh" "sends_ok demo_fresh" "alive demo_fresh 4" "\<not> has_registered (client demo_fresh 4)"
  "c_fd (client demo_fresh 4) = 14"
proof -
  show "wf_state demo_fresh" unfolding demo_fresh_def
    using demo_wf [of "[]" "[]" "[1]" SCHED_MODE_AUTO 4000] by (intro accept_client_wf) (auto simp: demo_def demo_world_def alive_def)
  show "ids_ok demo_fresh" unfolding demo_fresh_def by (rule accept_client_ids [OF demo_ids]) simp
qed (simp_all add: demo_fresh_def accept_client_def sends_ok_def demo_def demo_world_def alive_def has_registered_def)

lemma demo_fresh_id:
  obtains i s1 where "fresh_id 5 demo_fresh = Inr (i, s1)"
proof -
  have gid: "nvshare_generate_id (\<lambda>k. k) 1 = (4611686022722355203, 4)"
    by (simp add: generate_id_eq push_bit_eq_mult)
  have "s_clients demo_fresh = [1, 2, 3, 4]" "s_world demo_fresh = demo_world"
    "c_id (client demo_fresh 1) = 101" "c_id (client demo_fresh 2) = 102" "c_id (client demo_fresh 3) = 103"
    "c_id (client demo_fresh 4) = NVSHARE_UNREGISTERED_ID"
    by (simp_all add: demo_fresh_def accept_client_def)
  then have "\<not> isl (fresh_id (Suc 4) demo_fresh)"
    unfolding fresh_id.simps using gid by (simp add: demo_world_def NVSHARE_UNREGISTERED_ID_def Let_def)
  moreover have "Suc 4 = (5::nat)" by simp
  ultimately have "\<not> isl (fresh_id 5 demo_fresh)" by metis
  then show thesis using that by (cases "fresh_id 5 demo_fresh") auto
qed

abbreviation demo_register :: message where
  "demo_register \<equiv> zero_message\<lparr>m_type := REGISTER, m_gpu_uuid := ''GPU-1''\<rparr>"

lemma demo_register_fits: "str_fits NVSHARE_GPU_UUID_LEN (m_gpu_uuid demo_register)"
  by (simp add: str_fits_def NVSHARE_GPU_UUID_LEN_def)

theorem register_client_unique_witness:
  "\<exists>s' g. register_client (\<lambda>_ _ _. None) None 0 5 4 demo_register demo_fresh
     = Inr (True, s') \<and> wf_state s' \<and> c_context (client s' 4) = Some g"
proof -
  obtain i s1 where i: "fresh_id 5 demo_fresh = Inr (i, s1)" by (rule demo_fresh_id)
  show ?thesis
    using register_client_unique [OF demo_fresh_ok(1-5) i demo_register_fits, of "\<lambda>_ _ _. None" None 0] by blast
qed

end
