(* ===== verification/LibProps.thy ===== *)
theory LibProps
  imports LockProtocol SchedProps SchedLog
begin

text \<open>
  The properties of the interposer library: its invariant, its side of the lock protocol, memory
  limits, symbol interposition, registration and what happens when the lock is dropped while the
  scheduler is off.
\<close>

section \<open>A concrete process\<close>

definition demo_driver :: driver where
  "demo_driver = \<lparr>dr_malloc = (\<lambda>k n. (CUDA_SUCCESS, of_nat k * 4096)), dr_free = (\<lambda>k p. CUDA_SUCCESS),
     dr_info = (\<lambda>k. (CUDA_SUCCESS, 0, 17179869184)), dr_advise = (\<lambda>k p n a. CUDA_SUCCESS),
     dr_set_current = (\<lambda>k. CUDA_SUCCESS), dr_get_current = (\<lambda>k. (CUDA_SUCCESS, Some 1)), dr_sync = (\<lambda>k. CUDA_SUCCESS),
     dr_init = (\<lambda>k. CUDA_SUCCESS), dr_work = (\<lambda>k f. CUDA_SUCCESS), dr_proc = (\<lambda>k f. (CUDA_SUCCESS, Some (Driver f))),
     dr_nvml_init = (\<lambda>k. True), dr_nvml_handle = (\<lambda>k u. True), dr_nvml_util = (\<lambda>k. Some 0),
     dr_mono = (\<lambda>k. \<lparr>tv_sec = int k, tv_nsec = 0\<rparr>), dr_time = (\<lambda>k. int k), dr_write = (\<lambda>k. [WOk 659])\<rparr>"

definition demo_status :: message where
  "demo_status = zero_message\<lparr>m_type := SCHED_ON, m_data := ''00000000000000a7'', m_core_limit := 100\<rparr>"

definition demo_process :: process where
  "demo_process = \<lparr>pr_env = (\<lambda>_. None), pr_oob = 0, pr_linker = \<lparr>ld_open = (\<lambda>_. True), ld_sym = (\<lambda>_ _. True)\<rparr>,
     pr_namespace = None, pr_pid = 42, pr_connect = [(SysOk 5, SysOk 0)], pr_reply = [ROk (encode_message demo_status)]\<rparr>"

definition demo_lib :: lib_state where
  "demo_lib = (case enter_library demo_process False (lib_zero demo_driver) of Inr s \<Rightarrow> s | Inl _ \<Rightarrow> lib_zero demo_driver)"

lemma read_whole_once: "length bs = n \<Longrightarrow> 0 < n \<Longrightarrow> read_whole [ROk bs] n = Some (Inr bs, [])"
  by (subst read_whole.simps) auto

lemma receive_once: "message_ok m \<Longrightarrow> receive_from_scheduler [ROk (encode_message m)] = Inr m"
  by (simp add: receive_from_scheduler_def nvshare_receive_block_def read_whole_once encode_message_length
      decode_encode_message)

lemma demo_status_ok: "message_ok demo_status"
  by (simp add: demo_status_def message_ok_def type_ok_def str_fits_def int32_ok_def zero_message_def field_lens)

lemma demo_scan: "scan_hex ''00000000000000a7'' = Some 0xA7"
  by (simp add: scan_hex_def strip_sign_def strip_base_def has_hex_prefix_def digit_of_def isspace_def digits_val_def Let_def)

lemma demo_driver_sel [simp]:
  "dr_malloc demo_driver k n = (CUDA_SUCCESS, of_nat k * 4096)" "dr_free demo_driver k p = CUDA_SUCCESS"
  "dr_info demo_driver k = (CUDA_SUCCESS, 0, 17179869184)" "dr_get_current demo_driver k = (CUDA_SUCCESS, Some 1)"
  "dr_init demo_driver k = CUDA_SUCCESS" "dr_work demo_driver k f = CUDA_SUCCESS" "dr_nvml_init demo_driver k"
  "dr_nvml_handle demo_driver k u" "dr_write demo_driver k = [WOk 659]"
  by (simp_all add: demo_driver_def)

lemma demo_enter: "\<exists>s. enter_library demo_process False (lib_zero demo_driver) = Inr s \<and> l_scheduler_on s
    \<and> l_drv s = demo_driver \<and> l_client_id s = 0xA7 \<and> l_core_limit s = 100 \<and> l_rsock s = 5 \<and> l_memory_limit s = 0
    \<and> list_all (\<lambda>f. has_real f s) [''cuMemAllocManaged'', ''cuMemGetInfo'', ''cuLaunchKernel'', ''cuMemFree'', ''cuInit'']
    \<and> \<not> l_got_max_mem_size s \<and> \<not> l_single_oversub s \<and> \<not> l_cuda_ctx_ok s"
  by (simp add: enter_library_def initialize_libnvshare_def demo_process_def from_env_def bootstrap_cuda_def load_nvml_def
      nvml_table_def load_nvml_one_def cuda_table_def initialize_client_def client_register_def tick_def lib_zero_def
      nvshare_unix_connect_def Let_def lib_send_def write_whole_one encode_message_length receive_once demo_status_ok
      initial_status_def demo_status_def [THEN arg_cong, of m_type] demo_status_def [THEN arg_cong, of m_data]
      demo_status_def [THEN arg_cong, of m_core_limit] demo_scan release_early_setup_def visible_gpu_def has_real_def)

lemma demo_lib:
  "enter_library demo_process False (lib_zero demo_driver) = Inr demo_lib" "l_scheduler_on demo_lib"
  "l_drv demo_lib = demo_driver" "l_client_id demo_lib = 0xA7" "l_core_limit demo_lib = 100" "l_rsock demo_lib = 5"
  "l_memory_limit demo_lib = 0" "\<not> l_got_max_mem_size demo_lib" "\<not> l_single_oversub demo_lib" "\<not> l_cuda_ctx_ok demo_lib"
  "has_real ''cuMemAllocManaged'' demo_lib" "has_real ''cuMemGetInfo'' demo_lib" "has_real ''cuLaunchKernel'' demo_lib"
  "has_real ''cuMemFree'' demo_lib" "has_real ''cuInit'' demo_lib"
  using demo_enter by (auto simp: demo_lib_def)

lemma lib_demo_start: "lib_start demo_lib" "lock_start demo_lib"
  using demo_lib(1,2) by (auto simp: lib_start_def lock_start_def)


section \<open>Reachable states\<close>



text \<open>(C12) While the scheduler is on and grants the lock only on request, the lock messages of the library
  alternate between requests and releases, starting with a request, however its threads interleave;
  an odd number of them means that the lock is held or awaited.\<close>

theorem client_protocol_alternates:
  assumes "lock_start s" "polite_step\<^sup>*\<^sup>* s t"
  shows "alternates True (lock_log t) \<and> (\<not> l_own_lock t \<and> \<not> l_need_lock t \<longleftrightarrow> even (length (lock_log t)))"
  using lib_client.lock_traffic_alternates [OF assms] by (auto simp: lib_phase_def split: if_splits)

lemma demo_first_wait: "\<exists>t. continue_with_lock [] demo_lib = Inr (False, t) \<and> lock_log t = [REQ_LOCK]"
proof -
  have i: "\<not> l_own_lock demo_lib" "\<not> l_need_lock demo_lib" "m_type (l_req_lock_msg demo_lib) = REQ_LOCK" "lock_log demo_lib = []"
    using lock_start_idle [OF lib_demo_start(2)] lib_start_inv [OF lib_demo_start(1)]
    by (auto simp: lib_phase_def lib_inv_defs split: if_splits)
  show ?thesis using i demo_lib(10)
    by (simp add: continue_with_lock_def get_app_context_def tick_def demo_lib(3) request_lock_def lib_send_ok lib_writes_ok_def)
      (simp add: lock_log_def is_lock_msg_def)
qed

theorem client_protocol_alternates_witness: "\<exists>t. polite_step demo_lib t \<and> alternates True (lock_log t) \<and> lock_log t = [REQ_LOCK]"
proof -
  obtain t where t: "continue_with_lock [] demo_lib = Inr (False, t)" "lock_log t = [REQ_LOCK]" using demo_first_wait by blast
  then have s: "polite_step demo_lib t" by (intro polite_app app_wait)
  from client_protocol_alternates [OF lib_demo_start(2) r_into_rtranclp [of polite_step, OF s]] s t(2) show ?thesis by blast
qed

section \<open>Waiting for the lock\<close>




section \<open>A lock dropped while the scheduler is off\<close>

text \<open>Steps during which the scheduler neither grants the lock nor turns itself on.\<close>

inductive ungranted_step :: "lib_state \<Rightarrow> lib_state \<Rightarrow> bool" where
  ungranted_app: "app_step s t \<Longrightarrow> ungranted_step s t"
| ungranted_msg: "m_type m \<noteq> LOCK_OK \<Longrightarrow> m_type m \<noteq> SCHED_ON \<Longrightarrow> client_msg m s = Inr t \<Longrightarrow> ungranted_step s t"

definition blocked :: "lib_state \<Rightarrow> bool" where
  "blocked s \<longleftrightarrow> \<not> l_own_lock s \<and> \<not> l_scheduler_on s"

lemma blocked_quiet: "quiet s t \<Longrightarrow> blocked t = blocked s"
  by (elim quietE) (simp add: blocked_def)

lemma blocked_continue: "continue_with_lock [] s = Inr (got, t) \<Longrightarrow> blocked s \<Longrightarrow> blocked t \<and> \<not> got"
  by (auto simp: continue_with_lock_def get_app_context_def tick_def request_lock_def bindR_Inr_iff blocked_def
      split: if_splits prod.splits dest!: quiet_send elim!: quietE)

lemma blocked_locked: "locked_call f [] s = Inr (r, t) \<Longrightarrow> blocked s \<Longrightarrow> blocked t \<and> (r = None \<or> r = Some CUDA_ERROR_NOT_INITIALIZED)"
  by (auto simp: locked_call_def bindR_Inr_iff split: if_splits prod.splits dest!: blocked_continue)

lemma blocked_launch:
  assumes "cuLaunchKernel [] s = Inr (r, t)" "blocked s" shows "blocked t"
proof -
  obtain r1 s1 where l: "locked_call ''cuLaunchKernel'' [] s = Inr (r1, s1)"
    and t: "t = s1 \<or> (\<exists>x. t = snd (count_kernel x s1))"
    using assms(1) by (auto simp: cuLaunchKernel_def res_simps split: if_splits option.splits prod.splits) (metis snd_conv)+
  have "l_scheduler_on (snd (count_kernel x s1)) = l_scheduler_on s1" for x
    by (simp add: count_kernel_def tick_def adapt_window_def Let_def)
  then show ?thesis using t blocked_locked [OF l assms(2)] by (auto simp: blocked_def count_same)
qed

lemma blocked_alloc:
  assumes "cuMemAlloc junk d n s = Inr (r, p, t)" "blocked s" shows "blocked t"
  using assms(1)
proof (cases rule: mem_alloc_cases)
  case (failed a g)
  from failed(1) show ?thesis using assms(2) by (elim quietE) (simp add: blocked_def)
next
  case (success a g c)
  from success(2) show ?thesis using assms(2) by (elim quietE) (simp add: blocked_def)
qed (use assms(2) in simp)

lemma blocked_free:
  assumes "cuMemFree d s = Inr (r, t)" "blocked s" "lib_inv s" shows "blocked t"
  using assms(1)
proof (cases rule: mem_free_cases)
  case same
  then show ?thesis using assms(2) blocked_quiet by simp
next
  case freed
  have "alloc_ok (s\<lparr>l_calls := Suc (l_calls s)\<rparr>)" using assms(3) by (simp add: lib_inv_defs)
  from remove_allocation_eq [OF freed(2) this] show ?thesis using assms(2) by (elim quietE) (simp add: blocked_def)
qed

lemma blocked_early: "release_early_wake w s = Inr (b, t) \<Longrightarrow> blocked s \<Longrightarrow> blocked t"
  by (cases w) (auto simp: release_early_wake_def release_early_timeout_def blocked_def)

lemma blocked_app: "app_step s t \<Longrightarrow> lib_inv s \<Longrightarrow> blocked s \<Longrightarrow> blocked t"
  by (induction rule: app_step.induct)
    (auto dest: blocked_continue blocked_locked blocked_launch blocked_alloc blocked_free blocked_early
      dest!: lookup_quiet info_quiet simp: blocked_quiet)

lemma blocked_msg:
  assumes "client_msg m s = Inr t" "m_type m \<noteq> LOCK_OK" "m_type m \<noteq> SCHED_ON" "blocked s" shows "blocked t"
proof (cases "m_type m = PREPARE_SWAP_OUT")
  case True
  then show ?thesis using assms swap_out_eq [of s] by (auto simp: client_msg_def blocked_def)
next
  case False
  then show ?thesis using assms
    by (cases "m_type m") (auto simp: client_msg_def blocked_def on_drop_lock_def hook_update_memory_limit_def split: if_splits)
qed

lemma blocked_run: "ungranted_step\<^sup>*\<^sup>* s t \<Longrightarrow> lib_inv s \<Longrightarrow> blocked s \<Longrightarrow> lib_inv t \<and> blocked t"
proof (induction rule: rtranclp_induct)
  case (step t u)
  from step(2) show ?case
    using step by cases (auto intro: blocked_app blocked_msg app_step_inv lib_inv_msg)
qed simp

text \<open>(C24) When a \<open>DROP_LOCK\<close> reaches a client while the scheduler is off, the application is stuck until the
  scheduler is turned on again: no call that needs the lock returns from the driver, whatever else
  happens, because the scheduler ignores requests and releases while it is off. The timer and the
  overload check of the scheduler do send \<open>DROP_LOCK\<close> while it is off.\<close>

theorem drop_while_off_blocks:
  assumes "lib_inv s" "l_own_lock s" "\<not> l_scheduler_on s" "m_type m = DROP_LOCK" "client_msg m s = Inr t"
    "ungranted_step\<^sup>*\<^sup>* t u" "has_registered (client x p)" "\<not> s_on x"
  shows "(\<forall>got v. continue_with_lock [] u = Inr (got, v) \<longrightarrow> \<not> got)
    \<and> handle_req_lock n p x = Inr x \<and> handle_lock_released n p x = Inr x"
proof -
  have d: "on_drop_lock s = Inr t" using assms(4,5) by (simp add: client_msg_def)
  have "blocked t" using drop_lock_fields [OF d assms(2)] assms(3) by (simp add: blocked_def mem_same_def)
  then have "blocked u" using blocked_run [OF assms(6)] lib_inv_msg [OF assms(5,1)] by blast
  then show ?thesis using blocked_continue assms(7,8) by (auto simp: handle_req_lock_def handle_lock_released_def)
qed

definition demo_off :: lib_state where
  "demo_off = demo_lib\<lparr>l_scheduler_on := False, l_own_lock := True, l_need_lock := False\<rparr>"

lemma demo_off_inv: "lib_inv demo_off"
  using lib_start_inv [OF lib_demo_start(1)] by (simp add: demo_off_def lib_inv_defs)

lemma demo_off_drop: "\<exists>t. client_msg (zero_message\<lparr>m_type := DROP_LOCK\<rparr>) demo_off = Inr t"
proof -
  have "lib_writes_ok (snd (drop_prepare demo_off))"
    by (simp add: drop_prepare_def monotonic_time_ms_def tick_def cuda_sync_context_def Let_def lib_writes_ok_def demo_off_def demo_lib)
  then show ?thesis by (simp add: client_msg_def on_drop_lock_def case_prod_beta lib_send_ok demo_off_def)
qed

abbreviation demo_sched_off :: sched_state where
  "demo_sched_off \<equiv> (demo SCHED_MODE_AUTO [] [] [1] 0)\<lparr>s_on := False\<rparr>"

theorem drop_while_off_blocks_witness:
  "\<exists>t. client_msg (zero_message\<lparr>m_type := DROP_LOCK\<rparr>) demo_off = Inr t \<and> (\<nexists>v. continue_with_lock [] t = Inr (True, v))
    \<and> handle_req_lock 5 1 demo_sched_off = Inr demo_sched_off"
proof -
  obtain t where t: "client_msg (zero_message\<lparr>m_type := DROP_LOCK\<rparr>) demo_off = Inr t" using demo_off_drop by blast
  have "has_registered (client demo_sched_off 1)" by (simp add: demo_def demo_client_def has_registered_def NVSHARE_UNREGISTERED_ID_def)
  from drop_while_off_blocks [OF demo_off_inv _ _ _ t rtranclp.rtrancl_refl this] t show ?thesis
    by (fastforce simp: demo_off_def demo_def)
qed

section \<open>Memory limits\<close>

lemma sum_list_unat:
  "sum_list (map (\<lambda>a. unat (snd a)) (as :: ('a \<times> size_t) list)) < 2 ^ 64 \<Longrightarrow>
    unat (sum_list (map snd as)) = sum_list (map (\<lambda>a. unat (snd a)) as)"
proof (induction as)
  case (Cons a as)
  then have "unat (snd a) + unat (sum_list (map snd as)) < 2 ^ LENGTH(64)" by simp
  then show ?case using Cons by (simp add: unat_add_lem [THEN iffD1])
qed simp

text \<open>(C15) An allocation that succeeds under a memory limit leaves the bytes allocated by the application within
  the limit, as long as they add up to less than \<open>2 ^ 64\<close>.\<close>

theorem alloc_within_limit:
  assumes "cuMemAlloc junk d n s = Inr (CUDA_SUCCESS, p, t)" "lib_inv s" "0 < l_memory_limit s"
    "sum_list (map (\<lambda>a. unat (snd a)) (l_allocations s)) + unat n < 2 ^ 64"
  shows "l_allocations t = l_allocations s @ [(p, n)]
    \<and> sum_list (map (\<lambda>a. unat (snd a)) (l_allocations t)) \<le> unat (l_memory_limit s)"
  using assms(1)
proof (cases rule: mem_alloc_cases)
  case (success a g c)
  have t: "l_allocations t = l_allocations s @ [(p, n)]" "l_sum_allocated t = l_sum_allocated s + n"
    using success(2) by (auto elim!: quietE)
  have "unat (l_sum_allocated t) = sum_list (map (\<lambda>a. unat (snd a)) (l_allocations t))"
    using assms(2,4) sum_list_unat [of "l_allocations t"] by (simp add: t lib_inv_defs add.commute)
  moreover have "unat (l_sum_allocated t) \<le> unat (l_memory_limit s)"
    using success(3) [OF assms(3)] by (simp add: t(2) word_le_nat_alt)
  ultimately show ?thesis using t(1) by simp
qed simp_all

lemma demo_alloc:
  "\<exists>t. cuMemAlloc 0 0 600 (hook_update_memory_limit 1000 demo_lib) = Inr (CUDA_SUCCESS, of_nat (Suc (l_calls demo_lib)) * 4096, t)"
proof -
  have z: "l_sum_allocated demo_lib = 0" using lib_start_ok [OF lib_demo_start(1)] by (simp add: start_ok_def)
  show ?thesis
    using demo_lib by (simp add: cuMemAlloc_def has_real_def cuMemGetInfo_def tick_def hook_update_memory_limit_def z Let_def
        insert_cuda_allocation_def report_ok lib_writes_ok_def)
qed

theorem alloc_within_limit_witness:
  "\<exists>t p. cuMemAlloc 0 0 600 (hook_update_memory_limit 1000 demo_lib) = Inr (CUDA_SUCCESS, p, t)
    \<and> sum_list (map (\<lambda>a. unat (snd a)) (l_allocations t)) \<le> 1000"
proof -
  let ?s = "hook_update_memory_limit 1000 demo_lib"
  obtain t p where t: "cuMemAlloc 0 0 600 ?s = Inr (CUDA_SUCCESS, p, t)" using demo_alloc by blast
  have "lib_inv ?s" using lib_start_inv [OF lib_demo_start(1)] by (simp add: hook_update_memory_limit_def lib_inv_defs)
  moreover have "l_allocations ?s = []" using lib_start_ok [OF lib_demo_start(1)] by (simp add: start_ok_def hook_update_memory_limit_def)
  ultimately show ?thesis using alloc_within_limit [OF t] t by (fastforce simp: hook_update_memory_limit_def)
qed

text \<open>(C25) The amount of memory that the library takes for physical is fixed by the first allocation. When
  that happens under a limit, a later increase of the limit has no effect: allocations beyond the
  first limit are refused, whatever the new limit is.\<close>

theorem raised_limit_ineffective:
  assumes "cuMemAlloc junk d n s = Inr (r, p, t)" "has_real ''cuMemAllocManaged'' s" "has_real ''cuMemGetInfo'' s"
    "\<not> l_got_max_mem_size s" "l_sum_allocated s = 0" "0 < l_memory_limit s" "\<not> l_single_oversub s"
    "l_sum_allocated t + n' > l_memory_limit s"
  shows "\<exists>u. cuMemAlloc junk' d' n' (hook_update_memory_limit new_limit t) = Inr (CUDA_ERROR_OUT_OF_MEMORY, d', u)"
proof -
  have m: "first_max junk s = l_memory_limit s"
    using assms(3,4,5,6) by (simp add: first_max_def cuMemGetInfo_def tick_def Let_def case_prod_beta)
  have "l_got_max_mem_size t \<and> l_mem_allocatable t = l_memory_limit s \<and> \<not> l_single_oversub t \<and> l_real t = l_real s"
    using assms(1)
  proof (cases rule: mem_alloc_cases)
    case not_loaded
    then show ?thesis using assms(2) by simp
  next
    case (failed a g)
    from failed(1) show ?thesis using failed(4,5) m assms(7) by (elim quietE) simp
  next
    case (success a g c)
    from success(2) show ?thesis using success(5,6) m assms(7) by (elim quietE) simp
  qed
  then show ?thesis using assms(2,8)
    by (auto simp: cuMemAlloc_def has_real_def hook_update_memory_limit_def Let_def)
qed

theorem raised_limit_ineffective_witness:
  "\<exists>t u. cuMemAlloc 0 0 600 (hook_update_memory_limit 1000 demo_lib) = Inr (CUDA_SUCCESS, of_nat (Suc (l_calls demo_lib)) * 4096, t)
    \<and> cuMemAlloc 0 0 900 (hook_update_memory_limit 50000 t) = Inr (CUDA_ERROR_OUT_OF_MEMORY, 0, u)"
proof -
  let ?s = "hook_update_memory_limit 1000 demo_lib" and ?p = "of_nat (Suc (l_calls demo_lib)) * 4096"
  obtain t where t: "cuMemAlloc 0 0 600 ?s = Inr (CUDA_SUCCESS, ?p, t)" using demo_alloc by blast
  have z: "l_sum_allocated ?s = 0" using lib_start_ok [OF lib_demo_start(1)] by (simp add: start_ok_def hook_update_memory_limit_def)
  from t have "l_sum_allocated t = 600"
  proof (cases rule: mem_alloc_cases)
    case (success a g c)
    from success(2) show ?thesis using z by (elim quietE) simp
  qed simp_all
  then have "\<exists>u. cuMemAlloc 0 0 900 (hook_update_memory_limit 50000 t) = Inr (CUDA_ERROR_OUT_OF_MEMORY, 0, u)"
    by (intro raised_limit_ineffective [OF t]) (use demo_lib z in \<open>simp_all add: hook_update_memory_limit_def has_real_def\<close>)
  with t show ?thesis by blast
qed

section \<open>Symbols\<close>






section \<open>Bootstrap and registration\<close>







lemma scan_hex16: "scan_hex (hex16 w) = Some w"
proof -
  let ?ds = "fixed_digits 16 16 (unat w)"
  have "unat w < 2 ^ LENGTH(64)" by (rule unsigned_less)
  then have lt: "unat w < 16 ^ 16" by simp
  note d = fixed_digits_val [of 16 "unat w" 16, OF _ _ lt, simplified]
  then have ds: "set ?ds \<subseteq> {c. \<exists>d < 16. c = digit_char d}" "length ?ds = 16" "digits_val 16 ?ds = unat w" by blast+
  then have ne: "?ds \<noteq> []" by auto
  have small: "\<forall>c \<in> set ?ds. digit_of c < 16" using ds(1) by (fastforce simp: digit_of_char)
  have "\<not> has_hex_prefix ?ds"
    using small by (auto simp: has_hex_prefix_def digit_of_def split: list.splits)
  then have sb: "strip_base 16 ?ds = (16, ?ds)" by (simp add: strip_base_def)
  have tw: "takeWhile (\<lambda>c. digit_of c < 16) ?ds = ?ds" using takeWhile_digits(1) [OF ds(1)] by simp
  have sd: "dropWhile isspace ?ds = ?ds" "strip_sign ?ds = (False, ?ds)" using strip_digits [OF ds(1) _ ne] by simp_all
  show ?thesis
    unfolding scan_hex_def hex16_def sd sb prod.case Let_def tw ds(3) using ne lt by simp
qed

text \<open>(C14) The answer to a registration carries the identifier, the compute limit and the status that the scheduler has
  recorded: a client that reads it starts with the same values.\<close>

theorem registration_agrees:
  assumes "register_client annot cred oob n p m s = Inr (True, s')" "sends_ok s" "alive s p" "\<not> has_registered (client s p)"
  shows "\<exists>answer. (c_fd (client s' p), answer) \<in> set (w_sent (s_world s'))
    \<and> (\<forall>l. \<exists>t. initial_status answer l = Inr t \<and> l_client_id t = c_id (client s' p)
        \<and> l_core_limit t = c_core_limit (client s' p) \<and> l_scheduler_on t = s_on s' \<and> l_own_lock t = (\<not> s_on s'))"
proof -
  obtain answer new where a: "w_sent (s_world s') = new @ (c_fd (client s p), answer) # w_sent (s_world s)"
    "m_data answer = hex16 (c_id (client s' p))" "m_type answer = sched_status s'"
    "m_core_limit answer = c_core_limit (client s' p)" "c_fd (client s' p) = c_fd (client s p)"
    using register_answer [OF assms] by metis
  then show ?thesis
    by (intro exI [of _ answer]) (simp add: initial_status_def scan_hex16 sched_status_def)
qed

theorem registration_agrees_witness:
  "\<exists>s' answer. register_client (\<lambda>_ _ _. None) None 0 5 4 demo_register demo_fresh = Inr (True, s')
     \<and> (c_fd (client s' 4), answer) \<in> set (w_sent (s_world s'))
     \<and> (\<exists>t. initial_status answer (lib_zero demo_driver) = Inr t \<and> l_client_id t = c_id (client s' 4))"
proof -
  obtain i s1 where i: "fresh_id 5 demo_fresh = Inr (i, s1)" by (rule demo_fresh_id)
  from register_client_correct [OF demo_fresh_ok(1-5) i demo_register_fits, of "\<lambda>_ _ _. None" None 0]
  obtain s' where s': "register_client (\<lambda>_ _ _. None) None 0 5 4 demo_register demo_fresh = Inr (True, s')" by blast
  from registration_agrees [OF this demo_fresh_ok(3-5)] s' show ?thesis by blast
qed

end
