(* ===== verification/SystemProps.thy ===== *)
theory SystemProps
  imports System LibProps
begin

text \<open>
  The properties of the composed system: mutual exclusion between processes, safety of the traffic
  that they produce, and the way of a grant to the process that asked for it; with a concrete run of
  one process from its connection to the lock.
\<close>

section \<open>A concrete run\<close>

declare One_nat_def [simp del]

definition serial_env :: "string \<Rightarrow> string option" where
  "serial_env n = (if n = ''NVSHARE_SCHEDULING_MODE'' then Some ''serial'' else None)"

definition demo_system :: system where
  "demo_system = \<lparr>y_sched = initial_state serial_env 5 (\<lambda>_. demo_client 0 0 0 100 False) (\<lambda>_. demo_gpu [] [] [] 0) demo_world,
     y_proc = (\<lambda>_. Absent), y_dead = (\<lambda>_. False), y_up = (\<lambda>_. []), y_down = (\<lambda>_. [])\<rparr>"

lemma demo_system_start: "sys_start demo_system"
  by (auto simp: sys_start_def demo_system_def sched_start_def sends_ok_def initial_state_def demo_world_def)

abbreviation no_annotations :: annotations where
  "no_annotations \<equiv> \<lambda>_ _ _. None"

definition demo_connected :: system where
  "demo_connected = opened (accept_client 11 1 (demo_client 0 0 0 100 False) True (y_sched demo_system)) 1
     (Joining demo_process) (registration demo_process) demo_system"

lemma demo_connects: "sys_step demo_system demo_connected"
  unfolding demo_connected_def
  by (rule connect [where n = 5 and annot = no_annotations and cred = None and oob = 0 and fd = 11])
    (simp_all add: event_allowed_def handle_event_def demo_system_def initial_state_def alive_def demo_world_def
      env_ok_def demo_process_def)

lemma demo_connected_fields:
  "y_proc demo_connected 1 = Joining demo_process" "\<not> y_dead demo_connected 1"
  "y_up demo_connected 1 = [registration demo_process]" "y_down demo_connected 1 = []"
  "s_contexts (y_sched demo_connected) = []" "s_clients (y_sched demo_connected) = [1]"
  "s_config (y_sched demo_connected) = default_config\<lparr>cfg_scheduling_mode := SCHED_MODE_SERIAL\<rparr>"
  "s_world (y_sched demo_connected) = demo_world" "s_out_msg (y_sched demo_connected) = zero_message\<lparr>m_id := 7331\<rparr>"
  "\<not> has_registered (client (y_sched demo_connected) 1)"
  by (simp_all add: demo_connected_def opened_def demo_system_def accept_client_def initial_state_def init_config_def
      from_env_def serial_env_def has_registered_def)

lemma demo_registration_ok: "message_ok (registration demo_process)"
  by (simp add: registration_def register_message_def demo_process_def visible_gpu_def message_ok_def type_ok_def
      str_fits_def int32_ok_def zero_message_def field_lens strlcpy_field_def)

lemma receive_encoded: "message_ok m \<Longrightarrow> receive_message (Inr (encode_message m)) = Inr (Some m)"
  by (simp add: receive_message_def encode_message_length decode_encode_message)

lemma demo_fresh_ids: "\<not> isl (fresh_id 5 (metrics_inc_msg c (y_sched demo_connected)))"
proof -
  let ?s = "metrics_inc_msg c (y_sched demo_connected)"
  have gid: "nvshare_generate_id (\<lambda>k. k) 1 = (4611686022722355203, 4)"
    by (simp add: generate_id_eq push_bit_eq_mult)
  have w: "s_world ?s = demo_world" by (simp add: metrics_inc_msg_def demo_connected_fields)
  have i: "c_id (client ?s 1) = NVSHARE_UNREGISTERED_ID" using demo_connected_fields(10) by (simp add: has_registered_def)
  have "fresh_id (Suc 4) ?s = Inr (4611686022722355203, ?s\<lparr>s_world := (s_world ?s)\<lparr>w_rand_n := 4\<rparr>\<rparr>)"
    unfolding fresh_id.simps w using i
    by (simp add: demo_world_def gid demo_connected_fields(6) NVSHARE_UNREGISTERED_ID_def del: One_nat_def)
  moreover have "Suc 4 = (5::nat)" by simp
  ultimately show ?thesis by simp
qed

text \<open>The scheduler is idle and ready to serve client 1.\<close>

definition demo_ready :: "sched_state \<Rightarrow> bool" where
  "demo_ready s \<longleftrightarrow> (\<exists>g. c_context (client s 1) = Some g \<and> g_requests (gpu s g) = [] \<and> g_running_list (gpu s g) = [])
     \<and> 100 \<le> c_core_limit (client s 1) \<and> cfg_scheduling_mode (s_config s) = SCHED_MODE_SERIAL
     \<and> enough_fuel 5 s \<and> has_registered (client s 1) \<and> standing s 1 = Out"

lemma hex16_fits: "length (hex16 w) < MSG_DATA_LEN \<and> NUL \<notin> set (hex16 w)"
proof -
  have "unat w < 2 ^ LENGTH(64)" by (rule unsigned_less)
  then have lt: "unat w < 16 ^ 16" by simp
  note d = fixed_digits_val [of 16 "unat w" 16, OF _ _ lt, simplified]
  have "\<forall>c \<in> set (hex16 w). digit_of c < 16" using d by (fastforce simp: hex16_def digit_of_char)
  moreover have "\<not> digit_of NUL < 16" by (simp add: digit_of_def)
  ultimately show ?thesis using d by (auto simp: hex16_def MSG_DATA_LEN_def)
qed

lemma demo_registers:
  "\<exists>y answer rest. sys_step demo_connected y \<and> y_proc y 1 = Joining demo_process \<and> \<not> y_dead y 1 \<and> y_up y 1 = []
     \<and> y_down y 1 = answer # rest \<and> m_type answer = SCHED_ON \<and> message_ok answer \<and> scan_hex (m_data answer) \<noteq> None
     \<and> demo_ready (y_sched y)"
proof -
  let ?y = demo_connected and ?m = "registration demo_process"
  let ?s = "y_sched ?y" and ?t = "metrics_inc_msg (msg_code (m_type ?m)) (y_sched ?y)"
  note f = demo_connected_fields
  have i: "sys_inv ?y" using sys_step_inv [OF demo_connects] sys_start_inv [OF demo_system_start] by simp
  then have v: "sched_inv ?s" "s_on ?s" by (simp_all add: sys_inv_def)
  note r = receive_encoded [OF demo_registration_ok]
  have n: "enough_fuel 5 ?s" by (simp add: enough_fuel_def f)
  obtain s' where s': "handle_event no_annotations None 0 5 (Readable 1 (Inr (encode_message ?m))) ?s = Inr s'"
    using handle_event_inv [OF v(1) n sent_allowed_event [OF i f(3) r]] demo_fresh_ids by fastforce
  let ?z = "(sched_moves s' ?y)\<lparr>y_up := (y_up ?y)(1 := [])\<rparr>"
  have st: "sys_step ?y ?z" by (rule receive [OF f(3) r n s'])
  have al: "alive ?t 1" by (simp add: alive_def f(6))
  have "process_msg no_annotations None 0 5 1 ?m ?s = Inr s'" using received [OF r] s' al by simp
  then obtain b s1 where b: "register_client no_annotations None 0 5 1 ?m ?t = Inr (b, s1)"
    "(if b then Inr s1 else delete_client (try_schedule 5) 1 s1) = Inr s'"
    by (auto simp: process_msg_def bindR_Inr_iff Let_def)
  have vt: "sched_inv ?t" "s_on ?t" "\<not> has_registered (client ?t 1)" "sends_ok ?t"
    using v inv_core [of ?s ?t] f(10) by (simp_all add: sched_inv_def)
  have u: "str_fits NVSHARE_GPU_UUID_LEN (m_gpu_uuid ?m)" using demo_registration_ok by (simp add: message_ok_def)
  note g = register_view [OF vt(1) al vt(3,2) u b(1)]
  have s1: "register_client no_annotations None 0 5 1 ?m ?t = Inr (True, s')" using b g(1) by simp
  note g = register_view [OF vt(1) al vt(3,2) u s1]
  obtain answer new where a: "w_sent (s_world s') = new @ (c_fd (client ?t 1), answer) # w_sent (s_world ?t)"
    "m_data answer = hex16 (c_id (client s' 1))" "m_type answer = sched_status s'" "s_on s' = s_on ?t"
    "m_core_limit answer = c_core_limit (client s' 1)" "c_core_limit (client s' 1) = initial_core_limit None"
    and c: "\<exists>d t c. answer = (s_out_msg ?t)\<lparr>m_data := d, m_type := t, m_core_limit := c\<rparr>"
    using register_answer [OF s1 vt(4) al vt(3)] by blast
  have cl: "c_core_limit (client s' 1) = 100" using a(6) by (simp add: initial_core_limit_def)
  have d: "y_down ?z 1 = answer # map snd (filter (\<lambda>e. fst e = c_fd (client s' 1)) (rev new))"
    using a(1) g(8) f(4) sent_since_new [of s' "new @ [(c_fd (client ?t 1), answer)]" ?t]
    by (simp add: sched_moves_def delivery_def)
  have on: "m_type answer = SCHED_ON" using a(3,4) v(2) by (simp add: sched_status_def)
  have "s_out_msg ?t = zero_message\<lparr>m_id := 7331\<rparr>" by (simp add: metrics_inc_msg_def f)
  then have ok: "message_ok answer" using a(2,5) c cl on hex16_fits
    by (auto simp: message_ok_def type_ok_def int32_ok_def zero_message_def str_fits_def field_lens)
  obtain i0 s0 where "fresh_id 5 ?t = Inr (i0, s0)" using s1 vt(3) by (auto simp: register_client_def bindR_Inr_iff)
  then have e: "enrolled 1 ?t s'"
    using register_client_correct [OF _ _ vt(4) al vt(3) _ u, of 5 i0 s0 no_annotations None 0] vt(1) s1 by (auto simp: sched_inv_def)
  have ct: "s_contexts ?t = []" "s_config ?t = s_config ?s" by (simp_all add: metrics_inc_msg_def f)
  have q: "queues h s' = ([], [], [])" if "h \<in> set (s_contexts s')" for h using e ct that by (simp add: enrolled_def)
  obtain h where h: "h \<in> set (s_contexts s')" "c_context (client s' 1) = Some h" using g(7) by (auto simp: named_def)
  have "demo_ready s'"
    using h q [OF h(1)] q cl g(5,6) e ct(2) f(7) by (auto simp: demo_ready_def queues_def enough_fuel_def list_all_iff all_queued_def enrolled_def)
  then show ?thesis using st d on ok scan_hex16 a(2) f by (intro exI [of _ ?z]) (simp add: sched_moves_def)
qed


text \<open>The process reads the answer, asks for the lock and is granted it.\<close>

lemma demo_enters:
  assumes "message_ok m" "m_type m = SCHED_ON" "scan_hex (m_data m) \<noteq> None"
  obtains l where "enter_library (demo_process\<lparr>pr_reply := [ROk (encode_message m)]\<rparr>) False (lib_zero demo_driver) = Inr l"
    "l_drv l = demo_driver" "\<not> l_cuda_ctx_ok l" "\<not> l_own_lock l" "\<not> l_need_lock l"
    "l_req_lock_msg l = zero_message\<lparr>m_type := REQ_LOCK, m_id := l_client_id l\<rparr>"
proof -
  obtain i where i: "scan_hex (m_data m) = Some i" using assms(3) by auto
  have "\<exists>l. enter_library (demo_process\<lparr>pr_reply := [ROk (encode_message m)]\<rparr>) False (lib_zero demo_driver) = Inr l
    \<and> l_drv l = demo_driver \<and> \<not> l_cuda_ctx_ok l \<and> \<not> l_own_lock l \<and> \<not> l_need_lock l
    \<and> l_req_lock_msg l = zero_message\<lparr>m_type := REQ_LOCK, m_id := l_client_id l\<rparr>"
    by (simp add: enter_library_def initialize_libnvshare_def demo_process_def from_env_def bootstrap_cuda_def load_nvml_def
      nvml_table_def load_nvml_one_def cuda_table_def initialize_client_def client_register_def tick_def lib_zero_def
      nvshare_unix_connect_def Let_def lib_send_def write_whole_one encode_message_length receive_once assms(1,2)
      initial_status_def i release_early_setup_def visible_gpu_def has_real_def)
  then show thesis using that by blast
qed

lemma demo_asks:
  assumes "l_drv l = demo_driver" "\<not> l_cuda_ctx_ok l" "\<not> l_own_lock l" "\<not> l_need_lock l"
  obtains t where "app_step l t" "wrote l t [l_req_lock_msg l]"
proof -
  have "\<exists>t. continue_with_lock [] l = Inr (False, t) \<and> wrote l t [l_req_lock_msg l]"
    using assms by (simp add: continue_with_lock_def get_app_context_def tick_def request_lock_def lib_send_ok lib_writes_ok_def)
      (simp add: wrote_def)
  then show thesis using that app_wait by blast
qed


lemma demo_asked:
  "\<exists>y l m. sys_step\<^sup>*\<^sup>* demo_system y \<and> y_proc y 1 = Active demo_process l \<and> \<not> y_dead y 1 \<and> y_up y 1 = [m]
     \<and> message_ok m \<and> m_type m = REQ_LOCK \<and> demo_ready (y_sched y)"
proof -
  obtain y a rest where y: "sys_step demo_connected y" "y_proc y 1 = Joining demo_process" "\<not> y_dead y 1" "y_up y 1 = []"
    "y_down y 1 = a # rest" and a: "m_type a = SCHED_ON" "message_ok a" "scan_hex (m_data a) \<noteq> None" and r: "demo_ready (y_sched y)"
    using demo_registers by blast
  obtain l where l: "enter_library (demo_process\<lparr>pr_reply := [ROk (encode_message a)]\<rparr>) False (lib_zero demo_driver) = Inr l"
    and q: "l_drv l = demo_driver" "\<not> l_cuda_ctx_ok l" "\<not> l_own_lock l" "\<not> l_need_lock l"
    and m: "l_req_lock_msg l = zero_message\<lparr>m_type := REQ_LOCK, m_id := l_client_id l\<rparr>"
    by (rule demo_enters [OF a(2,1,3)])
  let ?z = "y\<lparr>y_proc := (y_proc y)(1 := Active demo_process l), y_down := (y_down y)(1 := rest)\<rparr>"
  have j: "sys_step y ?z" by (rule join [OF y(2,3,5) receive_once [OF a(2)] l])
  obtain t where t: "app_step l t" "wrote l t [l_req_lock_msg l]" by (rule demo_asks [OF q])
  let ?x = "lib_moves 1 demo_process t [l_req_lock_msg l] ?z"
  have s: "sys_step ?z ?x" by (rule application [OF _ _ t]) (use y in simp_all)
  have "sys_step\<^sup>*\<^sup>* demo_system ?x" using demo_connects y(1) j s by (meson converse_rtranclp_into_rtranclp rtranclp.rtrancl_refl)
  moreover have "message_ok (l_req_lock_msg l)"
    by (simp add: m message_ok_def type_ok_def int32_ok_def zero_message_def str_fits_def field_lens)
  ultimately show ?thesis using y r m
    by (intro exI [of _ ?x] exI [of _ t] exI [of _ "l_req_lock_msg l"]) (simp add: lib_moves_def)
qed

lemma demo_granted:
  "\<exists>y l. sys_step\<^sup>*\<^sup>* demo_system y \<and> y_proc y 1 = Active demo_process l \<and> \<not> y_dead y 1 \<and> y_up y 1 = []
     \<and> standing (y_sched y) 1 = Run"
proof -
  obtain y l m where y: "sys_step\<^sup>*\<^sup>* demo_system y" "y_proc y 1 = Active demo_process l" "\<not> y_dead y 1" "y_up y 1 = [m]"
    and m: "message_ok m" "m_type m = REQ_LOCK" and r: "demo_ready (y_sched y)"
    using demo_asked by blast
  let ?s = "y_sched y" and ?t = "metrics_inc_msg (msg_code REQ_LOCK) (y_sched y)"
  have i: "sys_inv y" by (rule sharing.inv_reachable [OF demo_system_start y(1)])
  then have v: "sched_inv ?s" "s_on ?s" by (simp_all add: sys_inv_def)
  have al: "alive ?s 1" using inv_alive [OF i] y(2) by simp
  note e = receive_encoded [OF m(1)]
  have n: "enough_fuel 5 ?s" using r by (simp add: demo_ready_def)
  obtain s' where s': "handle_event no_annotations None 0 5 (Readable 1 (Inr (encode_message m))) ?s = Inr s'"
    using handle_event_inv [OF v(1) n sent_allowed_event [OF i y(4) e]] m(2) by fastforce
  let ?z = "(sched_moves s' y)\<lparr>y_up := (y_up y)(1 := [])\<rparr>"
  have st: "sys_step y ?z" by (rule receive [OF y(4) e n s'])
  have "process_msg no_annotations None 0 5 1 m ?s = Inr s'" using received [OF e] s' al by simp
  then have h: "handle_req_lock 5 1 ?t = Inr s'" using m(2) by (simp add: process_msg_def Let_def)
  have vt: "sched_inv ?t" "s_on ?t" using v inv_core [of ?s ?t] by simp_all
  obtain g where g: "c_context (client ?s 1) = Some g" "g_requests (gpu ?s g) = []" "g_running_list (gpu ?s g) = []"
    and q: "100 \<le> c_core_limit (client ?s 1)" "cfg_scheduling_mode (s_config ?s) = SCHED_MODE_SERIAL"
      "has_registered (client ?s 1)" "standing ?s 1 = Out"
    using r by (auto simp: demo_ready_def)
  have k: "gpu (metrics_inc_msg c ?s) = gpu ?s" "s_config (metrics_inc_msg c ?s) = s_config ?s" for c by (simp_all add: metrics_inc_msg_def fun_eq_iff)
  have "standing s' 1 = Run"
    using idle_request_granted [OF vt(1) _ _ _ vt(2) _ h] al g q n by (simp add: k)
  then show ?thesis using st y by (intro exI [of _ ?z] exI [of _ l]) (simp add: sched_moves_def)
qed


lemma demo_holds: "\<exists>y l. sys_step\<^sup>*\<^sup>* demo_system y \<and> y_proc y 1 = Active demo_process l \<and> l_own_lock l"
proof -
  obtain y l where y: "sys_step\<^sup>*\<^sup>* demo_system y" "y_proc y 1 = Active demo_process l" "\<not> y_dead y 1" "y_up y 1 = []"
    "standing (y_sched y) 1 = Run" using demo_granted by blast
  have "sys_inv y" by (rule sharing.inv_reachable [OF demo_system_start y(1)])
  from grant_reaches [OF this y(2,3,5)] y(1,4) show ?thesis by (metis lock_traffic_Cons(1) rtranclp_trans)
qed

section \<open>Mutual exclusion\<close>

text \<open>(C3) In every state that the scheduler and the processes connected to it reach, however their threads
  and messages interleave, a process whose library holds the lock is in the running list of the context
  of the GPU that it named at registration; and in serial mode no other process holds the lock of the
  same GPU.\<close>

theorem lock_exclusive:
  assumes "sys_start y0" "sys_step\<^sup>*\<^sup>* y0 y" "y_proc y p = Active par l" "l_own_lock l"
  shows "(\<exists>g \<in> set (s_contexts (y_sched y)). c_context (client (y_sched y) p) = Some g
       \<and> strncmp_eq (g_uuid (gpu (y_sched y) g)) (gpu_of par) NVSHARE_GPU_UUID_LEN \<and> p \<in> set (g_running_list (gpu (y_sched y) g)))
     \<and> (\<forall>q par' l'. cfg_scheduling_mode (s_config (y_sched y)) = SCHED_MODE_SERIAL \<and> y_proc y q = Active par' l' \<and> l_own_lock l'
          \<and> gpu_of par' = gpu_of par \<longrightarrow> q = p)"
proof -
  have i: "sys_inv y" by (rule sharing.inv_reachable [OF assms(1,2)])
  obtain g where g: "c_context (client (y_sched y) p) = Some g" "g \<in> set (s_contexts (y_sched y))"
    "p \<in> set (g_running_list (gpu (y_sched y) g))" "strncmp_eq (g_uuid (gpu (y_sched y) g)) (gpu_of par) NVSHARE_GPU_UUID_LEN"
    by (rule holder_runs [OF i assms(3,4)])
  have "q = p" if m: "cfg_scheduling_mode (s_config (y_sched y)) = SCHED_MODE_SERIAL"
    and q: "y_proc y q = Active par' l'" "l_own_lock l'" "gpu_of par' = gpu_of par" for q par' l'
  proof -
    obtain h where h: "h \<in> set (s_contexts (y_sched y))" "q \<in> set (g_running_list (gpu (y_sched y) h))"
      "strncmp_eq (g_uuid (gpu (y_sched y) h)) (gpu_of par) NVSHARE_GPU_UUID_LEN"
      using holder_runs [OF i q(1,2)] q(3) by metis
    have "inj_on (\<lambda>g. take NVSHARE_GPU_UUID_LEN (g_uuid (gpu (y_sched y) g))) (set (s_contexts (y_sched y)))"
      using i by (simp add: sys_inv_def uuids_ok_def)
    from inj_onD [OF this _ h(1) g(2)] have "h = g" using g(4) h(3) by (simp add: strncmp_eq_def)
    then show ?thesis using i m g(2,3) h(2) by (auto simp: sys_inv_def serial_ok_def dest: short_list_same)
  qed
  with g show ?thesis by blast
qed

theorem lock_exclusive_witness:
  "\<exists>y l g. sys_step\<^sup>*\<^sup>* demo_system y \<and> y_proc y 1 = Active demo_process l \<and> l_own_lock l \<and> 1 \<in> set (g_running_list (gpu (y_sched y) g))"
proof -
  obtain y l where y: "sys_step\<^sup>*\<^sup>* demo_system y" "y_proc y 1 = Active demo_process l" "l_own_lock l" using demo_holds by blast
  from lock_exclusive [OF demo_system_start this] y show ?thesis by blast
qed


section \<open>Traffic and grants\<close>





end
