(* ===== verification/SchedBatch.thy ===== *)
theory SchedBatch
  imports SchedProps
begin

text \<open>
  The loop of \<open>main\<close> over the events of one \<^verbatim>\<open>epoll_wait\<close> (src/scheduler.c). The events carry pointers to
  clients, so a client that is freed while the batch is handled must not be named by a later event.
  With completing writes an event frees no client but its own and a whole batch is handled safely;
  a failing write breaks this.
\<close>

text \<open>The batch is handled under the mutex; every event comes with what the kernel reports of its peer.\<close>

primrec handle_batch ::
  "annotations \<Rightarrow> size_t \<Rightarrow> nat \<Rightarrow> (int option \<times> event) list \<Rightarrow> sched_state \<Rightarrow> sched_state res" where
  "handle_batch annot oob n [] s = Inr s"
| "handle_batch annot oob n (e # es) s =
     bindR (handle_event annot (fst e) oob n (snd e) s) (handle_batch annot oob n es)"

fun event_client :: "event \<Rightarrow> cptr option" where
  "event_client (NewConnection out q junk ok) = None"
| "event_client (Readable p r) = Some p"
| "event_client (HangUp p) = Some p"




section \<open>An event frees its own client at most\<close>

text \<open>\<open>spares p s s'\<close>: from \<open>s\<close> to \<open>s'\<close> no client other than \<open>p\<close> is freed.\<close>

definition spares :: "cptr \<Rightarrow> sched_state \<Rightarrow> sched_state \<Rightarrow> bool" where
  "spares p s s' \<longleftrightarrow> set (s_clients s) - {p} \<subseteq> set (s_clients s')"

lemma spares_same [simp]: "s_clients s' = s_clients s \<Longrightarrow> spares p s s'"
  by (auto simp: spares_def)

lemma spares_remove1 [simp]: "s_clients s' = remove1 p (s_clients s) \<Longrightarrow> spares p s s'"
  by (simp add: spares_def subset_iff)







lemma sched_off_clients [simp]: "s_clients (sched_off_contexts s) = s_clients s"
proof -
  have "s_clients (fold (\<lambda>g. upd_gpu g (f g)) gs t) = s_clients t" for f gs t
    by (induction gs arbitrary: t) simp_all
  then show ?thesis by (simp add: sched_off_contexts_def)
qed

lemma set_tq_clients [simp]: "s_clients (set_tq data s) = s_clients s"
  using set_tq_ident [of s data] by (simp add: ident_def)



section \<open>Batches\<close>


section \<open>A write that fails\<close>

text \<open>When no client is queued anywhere, deleting a client only frees it, whatever becomes of writes.\<close>

definition quiet :: "sched_state \<Rightarrow> bool" where
  "quiet s \<longleftrightarrow> (\<forall>g \<in> set (s_contexts s). all_queued (queues g s) = [])"

lemma upd_gpu_same: "f (gpu s g) = gpu s g \<Longrightarrow> upd_gpu g f s = s"
  by (simp add: upd_gpu_def fun_upd_idem)

lemma quiet_context:
  assumes "wf_state s" "quiet s" "g \<in> set (s_contexts s)"
  shows "g_requests (gpu s g) = []" "g_wait_queue (gpu s g) = []" "g_running_list (gpu s g) = []" "\<not> g_lock_held (gpu s g)"
  using assms wf_gpu [OF assms(1,3)] by (auto simp: quiet_def queues_def all_queued_def gpu_wf_def Let_def)

lemma remove_quiet:
  assumes w: "wf_state s" "quiet s" and p: "alive s p"
  shows "remove_req (try_schedule (Suc n)) p s = Inr s"
proof (cases "c_context (client s p)")
  case (Some g)
  note q = quiet_context [OF w wf_context [OF w(1) p Some]]
  have 1: "upd_gpu g (\<lambda>x. x\<lparr>g_lock_held := False\<rparr>) s = s" by (rule upd_gpu_same) (simp add: q unlock_idle)
  have 2: "upd_gpu g (\<lambda>x. x\<lparr>g_requests := filter P (g_requests x), g_wait_queue := filter P (g_wait_queue x)\<rparr>) s = s" for P
    by (rule upd_gpu_same) (use q(1,2) in \<open>cases "gpu s g"; simp\<close>)
  show ?thesis using Some by (simp add: remove_req_def q 1 2 check_wait_queue_def sched_turn_def drop_pending_def guard_live_def Let_def)
qed (simp add: remove_req_def)

lemma delete_quiet:
  assumes w: "wf_state s" "quiet s" and p: "alive s p"
  obtains s' where "delete_client (try_schedule (Suc n)) p s = Inr s'" "wf_state s'" "quiet s'"
    "s_clients s' = remove1 p (s_clients s)" "\<And>q. client s' q = client s q" "w_write (s_world s') = w_write (s_world s)"
proof -
  let ?s = "metrics_inc_client_disconnect s"
  have c: "core_eq s ?s" by simp
  note e = core_eq_simps [OF c]
  have w': "wf_state ?s" "quiet ?s" "alive ?s p" using wf_core [OF c w(1)] w(2) p by (simp_all add: quiet_def queues_def e)
  let ?t = "?s\<lparr>s_clients := remove1 p (s_clients ?s), s_epoll := removeAll (c_fd (client ?s p)) (s_epoll ?s)\<rparr>"
  have fl: "free_loop ?s p False (s_clients ?s) = remove1 p (s_clients ?s)"
    using w' by (intro free_loop_correct) (auto simp: wf_state_def alive_def insert_absorb list_all_iff)
  have ep: "c_fd (client ?s p) \<in> set (s_epoll ?s)" using w' by (auto simp: wf_state_def alive_def list_all_iff)
  have "delete_client (try_schedule (Suc n)) p s = Inr ?t"
    using p w'(3) remove_quiet [OF w'] ep by (simp add: delete_client_def guard_live_def fl e(4) [of p, symmetric] Let_def)
  moreover have "wf_state ?t" by (rule free_client_wf [OF w'(1,3)]) (use w'(2) in \<open>auto simp: quiet_def\<close>)
  moreover have "quiet ?t" using w'(2) by (simp add: quiet_def queues_def)
  ultimately show thesis using that [of ?t] e by simp
qed

text \<open>Writes complete or break off; a dead client is a registered one whose writes break off.\<close>

definition writes_break :: "sched_state \<Rightarrow> bool" where
  "writes_break s \<longleftrightarrow> (\<forall>k fd. w_write (s_world s) k fd = Inr 659 \<or> w_write (s_world s) k fd = Inl EPIPE)"

definition dead :: "sched_state \<Rightarrow> cptr \<Rightarrow> bool" where
  "dead s q \<longleftrightarrow> has_registered (client s q) \<and> (\<forall>k. w_write (s_world s) k (c_fd (client s q)) = Inl EPIPE)"

lemma send_breaks:
  assumes "writes_break s" "alive s p"
  obtains sent t where "send_message p m s = Inr (sent, t)" "core_eq s t" "dead s p \<longrightarrow> \<not> sent"
proof -
  let ?w = "w_write (s_world s) (w_write_n (s_world s)) (c_fd (client s p))"
  consider "?w = Inr 659" | "?w = Inl EPIPE" using assms(1) by (auto simp: writes_break_def)
  then show thesis
  proof cases
    case 1
    then have "\<not> dead s p" by (auto simp: dead_def) (metis Inl_Inr_False)
    then show thesis using 1 assms(2) 
      by (intro that [of True "s\<lparr>s_world := (s_world s)\<lparr>w_write_n := Suc (w_write_n (s_world s)),
          w_sent := (c_fd (client s p), m) # w_sent (s_world s)\<rparr>\<rparr>"]) (auto simp: send_message_def core_eq_def Let_def)
  next
    case 2
    then show thesis using assms(2) 
      by (intro that [of False "s\<lparr>s_world := (s_world s)\<lparr>w_write_n := Suc (w_write_n (s_world s))\<rparr>\<rparr>"]) (auto simp: send_message_def core_eq_def Let_def)
  qed
qed

lemma bcast_loop_frees:
  assumes "wf_state s" "quiet s" "writes_break s" "s_clients s = pre @ ps" "length ps \<le> k"
  shows "\<exists>s'. bcast_loop (Suc n) k (case ps of [] \<Rightarrow> None | p # _ \<Rightarrow> Some p) s = Inr s'
    \<and> set (s_clients s') \<subseteq> set (s_clients s) \<and> (\<forall>q \<in> set ps. dead s q \<longrightarrow> \<not> alive s' q)"
  using assms
proof (induction ps arbitrary: pre k s)
  case (Cons p ps)
  obtain k' where k: "k = Suc k'" "length ps \<le> k'" using Cons.prems(5) by (cases k) auto
  have al: "alive s p" and d: "distinct (pre @ p # ps)" using Cons.prems(1,4) by (auto simp: alive_def wf_state_def)
  let ?tmp = "case ps of [] \<Rightarrow> None | p # _ \<Rightarrow> Some p"
  have tmp: "successor p (s_clients s) = ?tmp"
    using successor_mid successor_last d Cons.prems(4) by (auto split: list.split)
  show ?case
  proof (cases "has_registered (client s p)")
    case False
    then have "bcast_loop (Suc n) k (Some p) s = bcast_loop (Suc n) k' ?tmp s" using al by (simp add: k guard_live_def tmp)
    then show ?thesis using Cons.IH [of s "pre @ [p]" k'] Cons.prems k False by (auto simp: dead_def)
  next
    case True
    let ?s1 = "set_out_type (sched_status s) s"
    have c1: "core_eq s ?s1" by (simp add: core_eq_send)
    note e1 = core_eq_simps [OF c1]
    obtain sent t where t: "send_message p (s_out_msg ?s1) ?s1 = Inr (sent, t)" "core_eq ?s1 t" "dead s p \<longrightarrow> \<not> sent"
      using send_breaks [of ?s1 p "s_out_msg ?s1"] Cons.prems(3) al e1 by (auto simp: writes_break_def dead_def)
    have c: "core_eq s t" by (rule core_eq_trans [OF c1 t(2)])
    note e = core_eq_simps [OF c]
    have t': "wf_state t" "quiet t" "writes_break t" "dead t = dead s"
      using wf_core [OF c] Cons.prems(1-3) by (auto simp: quiet_def queues_def e writes_break_def dead_def fun_eq_iff)
    show ?thesis
    proof (cases sent)
      case True
      then have "bcast_loop (Suc n) k (Some p) s = bcast_loop (Suc n) k' ?tmp t"
        using al t(1) \<open>has_registered (client s p)\<close> by (simp add: k guard_live_def tmp Let_def)
      then show ?thesis using Cons.IH [OF t'(1-3), of "pre @ [p]" k'] Cons.prems(4) k True t(3) t'(4) e(3) by auto
    next
      case False
      obtain u where u: "delete_client (try_schedule (Suc n)) p t = Inr u" "wf_state u" "quiet u"
        "s_clients u = remove1 p (s_clients t)" "\<And>q. client u q = client t q" "w_write (s_world u) = w_write (s_world t)"
        using delete_quiet [OF t'(1,2)] al e by metis
      have u': "s_clients u = pre @ ps" "writes_break u" "dead u = dead s"
        using u d Cons.prems(4) e(3) t'(3,4) by (auto simp: remove1_append writes_break_def dead_def fun_eq_iff)
      have "bcast_loop (Suc n) k (Some p) s = bcast_loop (Suc n) k' ?tmp u"
        using al t(1) u(1) False True by (simp add: k guard_live_def tmp Let_def)
      then show ?thesis using Cons.IH [OF u(2,3) u'(2,1) k(2)] u'(1,3) Cons.prems(4) d by (auto simp: alive_def)
    qed
  qed
qed simp

text \<open>Turning the scheduler on tells every registered client; one whose connection is gone is freed on the
  spot. If the same batch also reports the end of that connection, its event refers to freed memory.\<close>

theorem stale_event_read:
  assumes s: "wf_state s" "quiet s" "writes_break s" "\<not> s_on s" and p: "alive s p" and q: "alive s q" "dead s q"
    and r: "receive_message r = Inr (Some m)" "m_type m = SCHED_ON" and e: "event_client ev = Some q"
  shows "handle_batch annot oob (Suc n) ((c1, Readable p r) # (c2, ev) # es) s = Inl UseAfterFree"
proof -
  let ?s = "(metrics_inc_msg (msg_code SCHED_ON) s)\<lparr>s_on := True\<rparr>"
  have c: "core_eq s (metrics_inc_msg (msg_code SCHED_ON) s)" by simp
  note k = core_eq_simps [OF core_eq_metrics(5) [of s]]
  have "ident (metrics_inc_msg (msg_code SCHED_ON) s) ?s" by (simp add: ident_def queues_def bills_ok_def grants_def)
  then have w: "wf_state ?s" using wf_core [OF c s(1)] by (rule wf_ident [rotated])
  moreover have "quiet ?s" "writes_break ?s" "dead ?s q" using s q by (simp_all add: quiet_def queues_def writes_break_def dead_def k)
  ultimately obtain t where t: "bcast_status (Suc n) ?s = Inr t" "\<not> alive t q"
    using bcast_loop_frees [of ?s "[]" "s_clients ?s" "length (s_clients ?s)" n] q(1) k
    by (auto simp: bcast_status_def alive_def)
  have "handle_event annot c1 oob (Suc n) (Readable p r) s = Inr t"
    using p r s(4) t(1) k(2) by (simp add: handle_event_def guard_live_def process_msg_def Let_def)
  moreover have "handle_event annot c2 oob (Suc n) ev t = Inl UseAfterFree"
    using e t(2) by (cases ev) (simp_all add: handle_event_def guard_live_def)
  ultimately show ?thesis by simp
qed

text \<open>It can happen: the scheduler is off, client 3 has died, and client 1 sends \<open>SCHED_ON\<close>.\<close>

definition demo_broken :: sched_state where
  "demo_broken = (demo SCHED_MODE_AUTO [] [] [] 0)\<lparr>s_on := False,
     s_world := demo_world\<lparr>w_write := (\<lambda>k fd. if fd = 13 then Inl EPIPE else Inr 659)\<rparr>\<rparr>"

lemma stale_event_happens:
  "handle_batch annot oob (Suc n) [(None, Readable 1 (Inr (encode_message (zero_message\<lparr>m_type := SCHED_ON\<rparr>)))), (None, HangUp 3)]
     demo_broken = Inl UseAfterFree"
proof (rule stale_event_read)
  let ?m = "zero_message\<lparr>m_type := SCHED_ON\<rparr>"
  have "message_ok ?m"
    by (simp add: message_ok_def zero_message_def type_ok_def str_fits_def int32_ok_def POD_NAME_LEN_MAX_def
      POD_NAMESPACE_LEN_MAX_def NVSHARE_GPU_UUID_LEN_def MSG_DATA_LEN_def)
  then show "receive_message (Inr (encode_message ?m)) = Inr (Some ?m)"
    by (simp add: receive_message_def encode_message_length decode_encode_message)
  have "gpu_wf demo_broken 1" by (simp add: demo_broken_def demo_def gpu_wf_def Let_def)
  then show "wf_state demo_broken" using demo_wf [of "[]" "[]" "[]" SCHED_MODE_AUTO 0]
    by (simp add: wf_state_def demo_broken_def demo_world_def bills_ok_def)
qed (simp_all add: demo_broken_def quiet_def queues_def all_queued_def writes_break_def dead_def alive_def has_registered_def
  demo_def NVSHARE_UNREGISTERED_ID_def)





end
