(* ===== verification/BaseProps.thy ===== *)
theory BaseProps
  imports Comm K8sApi
begin

text \<open>
  The properties of the shared layers: the wire format (src/comm.h, src/comm.c) and the sizes in
  annotations (src/k8s_api.c).
\<close>

section \<open>Messages\<close>



section \<open>Annotations\<close>



end
