(* ===== verification/Utlist.thy ===== *)
theory Utlist
  imports Prelude
begin

text \<open>
  The singly linked lists of src/utlist.h, on a heap of nodes: the macros the program uses, with the
  pointer walks they expand to. A walk over a cyclic list never ends, which is the value \<open>None\<close>; a
  read through a pointer to freed memory, or through a null pointer, is \<open>UseAfterFree\<close>. The theory
  shows that on a proper list the macros are the list functions that the model of the scheduler and
  of the interposer uses for its queues.
\<close>

section \<open>The macros\<close>

text \<open>A heap gives the \<open>next\<close> field of every allocated node; a list is a heap with a head pointer.\<close>

type_synonym node = nat
type_synonym node_heap = "node \<Rightarrow> node option option"
type_synonym llist = "node_heap \<times> node option"
type_synonym 'a run = "'a res option"

abbreviation ret :: "'a \<Rightarrow> 'a run" where "ret x \<equiv> Some (Inr x)"
abbreviation crash :: "'a run" where "crash \<equiv> Some (Inl UseAfterFree)"

definition bindL :: "'a run \<Rightarrow> ('a \<Rightarrow> 'b run) \<Rightarrow> 'b run" where
  "bindL m f = (case m of None \<Rightarrow> None | Some (Inl e) \<Rightarrow> Some (Inl e) | Some (Inr x) \<Rightarrow> f x)"

lemma bindL_ret [simp]: "bindL (ret x) f = f x"
  by (simp add: bindL_def)

definition LL_PREPEND :: "node \<Rightarrow> llist \<Rightarrow> llist run" where
  "LL_PREPEND add l = (let (h, head) = l in if h add = None then crash else ret (h(add \<mapsto> head), Some add))"

partial_function (option) ll_last :: "node_heap \<Rightarrow> node \<Rightarrow> node run" where
  "ll_last h tmp = (case h tmp of None \<Rightarrow> crash | Some None \<Rightarrow> ret tmp | Some (Some n) \<Rightarrow> ll_last h n)"

definition LL_APPEND :: "node \<Rightarrow> llist \<Rightarrow> llist run" where
  "LL_APPEND add l =
     (let (h, head) = l; h1 = h(add \<mapsto> None) in
      if h add = None then crash
      else case head of
             None \<Rightarrow> ret (h1, Some add)
           | Some p \<Rightarrow> bindL (ll_last h1 p) (\<lambda>tmp. ret (h1(tmp \<mapsto> Some add), head)))"

partial_function (option) ll_before :: "node \<Rightarrow> node_heap \<Rightarrow> node \<Rightarrow> node run" where
  "ll_before del h tmp =
     (case h tmp of
        None \<Rightarrow> crash
      | Some None \<Rightarrow> ret tmp
      | Some (Some n) \<Rightarrow> if n = del then ret tmp else ll_before del h n)"

definition LL_DELETE :: "node \<Rightarrow> llist \<Rightarrow> llist run" where
  "LL_DELETE del l =
     (let (h, head) = l in
      case head of
        None \<Rightarrow> crash
      | Some p \<Rightarrow>
          if p = del then (case h p of None \<Rightarrow> crash | Some n \<Rightarrow> ret (h, n))
          else bindL (ll_before del h p) (\<lambda>tmp.
                 case h tmp of
                   None \<Rightarrow> crash
                 | Some None \<Rightarrow> ret (h, head)
                 | Some (Some _) \<Rightarrow> (case h del of None \<Rightarrow> crash | Some n \<Rightarrow> ret (h(tmp \<mapsto> n), head))))"

text \<open>The loops: \<open>f\<close> is the body, which may change the list. \<open>LL_FOREACH\<close> reads the \<open>next\<close> field after the
  body, \<open>LL_FOREACH_SAFE\<close> before it.\<close>

partial_function (option) LL_FOREACH ::
  "(node \<Rightarrow> llist \<times> 'a \<Rightarrow> (llist \<times> 'a) run) \<Rightarrow> node option \<Rightarrow> llist \<times> 'a \<Rightarrow> (llist \<times> 'a) run" where
  "LL_FOREACH f el s =
     (case el of
        None \<Rightarrow> ret s
      | Some p \<Rightarrow>
          (case f p s of
             None \<Rightarrow> None
           | Some (Inl e) \<Rightarrow> Some (Inl e)
           | Some (Inr s1) \<Rightarrow> (case fst (fst s1) p of None \<Rightarrow> crash | Some n \<Rightarrow> LL_FOREACH f n s1)))"

partial_function (option) LL_FOREACH_SAFE ::
  "(node \<Rightarrow> llist \<Rightarrow> llist run) \<Rightarrow> node option \<Rightarrow> llist \<Rightarrow> llist run" where
  "LL_FOREACH_SAFE f el s =
     (case el of
        None \<Rightarrow> ret s
      | Some p \<Rightarrow>
          (case fst s p of
             None \<Rightarrow> crash
           | Some tmp \<Rightarrow>
               (case f p s of
                  None \<Rightarrow> None
                | Some (Inl e) \<Rightarrow> Some (Inl e)
                | Some (Inr s1) \<Rightarrow> LL_FOREACH_SAFE f tmp s1)))"

definition free_node :: "node \<Rightarrow> llist \<Rightarrow> llist run" where
  "free_node p l = (let (h, head) = l in if h p = None then crash else ret (h(p := None), head))"

text \<open>The loop by which the scheduler empties its queues of one client: every node that satisfies the
  condition is taken out and freed.\<close>

definition remove_if :: "(node \<Rightarrow> bool) \<Rightarrow> llist \<Rightarrow> llist run" where
  "remove_if c l =
     LL_FOREACH_SAFE (\<lambda>p l. if c p then bindL (LL_DELETE p l) (free_node p) else ret l) (snd l) l"

text \<open>The nodes in the order in which \<open>LL_FOREACH\<close> visits them.\<close>

definition visited :: "llist \<Rightarrow> node list run" where
  "visited l = bindL (LL_FOREACH (\<lambda>p (l, acc). ret (l, acc @ [p])) (snd l) (l, [])) (\<lambda>r. ret (snd r))"

section \<open>What a list is\<close>

fun path :: "node_heap \<Rightarrow> node option \<Rightarrow> node list \<Rightarrow> bool" where
  "path h p [] \<longleftrightarrow> p = None"
| "path h p (x # xs) \<longleftrightarrow> p = Some x \<and> (\<exists>n. h x = Some n \<and> path h n xs)"

abbreviation rep :: "llist \<Rightarrow> node list \<Rightarrow> bool" where
  "rep l xs \<equiv> path (fst l) (snd l) xs"

abbreviation allocated_nodes :: "llist \<Rightarrow> node set" where
  "allocated_nodes l \<equiv> dom (fst l)"

lemma path_unique: "path h p xs \<Longrightarrow> path h p ys \<Longrightarrow> xs = ys"
proof (induction xs arbitrary: p ys)
  case Nil
  then show ?case by (cases ys) auto
next
  case (Cons x xs)
  then show ?case by (cases ys) auto
qed

lemma path_append: "path h p (xs @ y # ys) \<Longrightarrow> \<exists>n. h y = Some n \<and> path h (Some y) (y # ys)"
  by (induction xs arbitrary: p) auto

lemma path_distinct: "path h p xs \<Longrightarrow> distinct xs"
proof (induction xs arbitrary: p)
  case (Cons x xs)
  then obtain n where n: "h x = Some n" "path h n xs" by auto
  have "x \<notin> set xs"
  proof
    assume "x \<in> set xs"
    then obtain ys zs where xs: "xs = ys @ x # zs" by (meson split_list)
    with n(2) have "path h (Some x) (x # zs)" using path_append by blast
    then have "path h n zs" using n(1) by simp
    then have "xs = zs" using path_unique n(2) by blast
    then show False using xs by (metis append_Cons length_append length_Cons less_irrefl less_add_Suc2)
  qed
  then show ?case using Cons.IH [OF n(2)] by simp
qed simp

lemma path_alloc: "path h p xs \<Longrightarrow> set xs \<subseteq> dom h"
  by (induction xs arbitrary: p) auto

lemma path_upd [simp]: "x \<notin> set xs \<Longrightarrow> path (h(x := v)) p xs = path h p xs"
  by (induction xs arbitrary: p) auto

section \<open>The macros on a list\<close>

lemma ll_last_path: "path h (Some p) xs \<Longrightarrow> ll_last h p = ret (last xs)"
proof (induction xs arbitrary: p)
  case (Cons x xs)
  then show ?case by (cases xs) (subst ll_last.simps, auto)+
qed simp

text \<open>Changing the \<open>next\<close> field of a node replaces the rest of the list.\<close>

lemma path_relink:
  "path h p (as @ t # bs) \<Longrightarrow> path (h(t \<mapsto> q)) q cs \<Longrightarrow> t \<notin> set as \<Longrightarrow> path (h(t \<mapsto> q)) p (as @ t # cs)"
  by (induction as arbitrary: p) auto

lemma ll_before_path:
  "path h (Some p) (as @ t # del # bs) \<Longrightarrow> del \<notin> set as \<Longrightarrow> del \<noteq> t \<Longrightarrow> ll_before del h p = ret t"
proof (induction as arbitrary: p)
  case Nil
  then show ?case by (subst ll_before.simps) auto
next
  case (Cons a as)
  then obtain q where q: "h a = Some (Some q)" "path h (Some q) (as @ t # del # bs)" "p = a"
    by (cases as) auto
  moreover have "q \<noteq> del" using q(2) Cons.prems by (cases as) auto
  ultimately show ?case using Cons.IH [OF q(2)] Cons.prems by (subst ll_before.simps) simp
qed

lemma prepend_rep:
  assumes "rep l xs" "x \<in> allocated_nodes l" "x \<notin> set xs"
  shows "\<exists>l'. LL_PREPEND x l = ret l' \<and> rep l' (x # xs) \<and> allocated_nodes l' = allocated_nodes l"
  using assms by (cases l) (auto simp: LL_PREPEND_def)

lemma append_rep:
  assumes "rep l xs" "x \<in> allocated_nodes l" "x \<notin> set xs"
  shows "\<exists>l'. LL_APPEND x l = ret l' \<and> rep l' (xs @ [x]) \<and> allocated_nodes l' = allocated_nodes l"
proof (cases xs rule: rev_cases)
  case Nil
  then show ?thesis using assms by (cases l) (auto simp: LL_APPEND_def)
next
  case (snoc ys y)
  obtain h p where l: "l = (h, Some p)" using assms(1) snoc by (cases l; cases ys) auto
  let ?h = "h(x \<mapsto> None)"
  have pa: "path ?h (Some p) (ys @ y # [])" using assms(1,3) l snoc by simp
  have "y \<notin> set ys" using path_distinct [OF pa] by simp
  then have "path (?h(y \<mapsto> Some x)) (Some p) (ys @ y # [x])"
    using path_relink [OF pa, of "Some x" "[x]"] assms(3) snoc by simp
  moreover have "ll_last ?h p = ret y" using ll_last_path [OF pa] by simp
  moreover have "y \<in> dom h" using path_alloc [OF assms(1)] l snoc by simp
  ultimately show ?thesis using assms(2) l snoc by (auto simp: LL_APPEND_def)
qed

lemma delete_rep:
  assumes "rep l (as @ x # bs)"
  shows "\<exists>l'. LL_DELETE x l = ret l' \<and> rep l' (as @ bs) \<and> allocated_nodes l' = allocated_nodes l
    \<and> fst l' x = fst l x"
proof (cases as rule: rev_cases)
  case Nil
  then show ?thesis using assms by (cases l) (auto simp: LL_DELETE_def)
next
  case (snoc ys t)
  obtain h p where l: "l = (h, Some p)" using assms snoc by (cases l; cases ys) auto
  have pa: "path h (Some p) (ys @ t # x # bs)" using assms l snoc by simp
  have d: "distinct (ys @ t # x # bs)" using path_distinct [OF pa] .
  obtain n where n: "h x = Some n" "path h n bs" using path_append [of h "Some p" "ys @ [t]" x bs] pa by auto
  have t: "h t = Some (Some x)" using path_append [OF pa] by auto
  have "p \<noteq> x" using pa d by (cases ys) auto
  moreover have "ll_before x h p = ret t" using ll_before_path [OF pa] d by auto
  moreover have "path (h(t \<mapsto> n)) (Some p) (ys @ t # bs)" using path_relink [OF pa] n(2) d by simp
  ultimately show ?thesis using l snoc n t d by (auto simp: LL_DELETE_def)
qed

lemma remove_loop:
  assumes "rep l (as @ bs)" "bs = [] \<Longrightarrow> el = None" "bs \<noteq> [] \<Longrightarrow> el = Some (hd bs)"
  shows "\<exists>l'. LL_FOREACH_SAFE (\<lambda>p l. if c p then bindL (LL_DELETE p l) (free_node p) else ret l) el l = ret l'
    \<and> rep l' (as @ filter (\<lambda>x. \<not> c x) bs) \<and> allocated_nodes l' = allocated_nodes l - {x \<in> set bs. c x}"
  using assms
proof (induction bs arbitrary: as l el)
  case Nil
  then show ?case by (subst LL_FOREACH_SAFE.simps) simp
next
  case (Cons x bs)
  obtain h p where l: "l = (h, p)" by (cases l)
  from path_append [of h p as x bs] Cons.prems(1) l obtain n where n: "h x = Some n" "path h n bs" by auto
  have d: "distinct (as @ x # bs)" using path_distinct [OF Cons.prems(1)] .
  have el: "el = Some x" using Cons.prems(3) by simp
  have nx: "bs = [] \<Longrightarrow> n = None" "bs \<noteq> [] \<Longrightarrow> n = Some (hd bs)" using n(2) by (cases bs; simp)+
  let ?f = "\<lambda>p l. if c p then bindL (LL_DELETE p l) (free_node p) else ret l"
  have "\<exists>m. ?f x l = ret m \<and> rep m ((if c x then as else as @ [x]) @ bs)
      \<and> allocated_nodes m = allocated_nodes l - (if c x then {x} else {})"
  proof (cases "c x")
    case True
    obtain m where m: "LL_DELETE x l = ret m" "rep m (as @ bs)" "allocated_nodes m = allocated_nodes l" "fst m x = fst l x"
      using delete_rep [OF Cons.prems(1)] by blast
    have "free_node x m = ret ((fst m)(x := None), snd m)" using m(4) l n by (cases m) (simp add: free_node_def)
    moreover have "path ((fst m)(x := None)) (snd m) (as @ bs)" using m(2) d by simp
    ultimately show ?thesis using True m(1,3) by auto
  next
    case False
    then show ?thesis using Cons.prems(1) by auto
  qed
  then obtain m where m: "?f x l = ret m" "rep m ((if c x then as else as @ [x]) @ bs)"
    "allocated_nodes m = allocated_nodes l - (if c x then {x} else {})" by blast
  have "LL_FOREACH_SAFE ?f el l = LL_FOREACH_SAFE ?f n m"
    using m(1) n(1) l el by (subst LL_FOREACH_SAFE.simps) simp
  with Cons.IH [OF m(2) nx] m(3) show ?case by auto
qed

lemma remove_if_rep:
  assumes "rep l xs"
  shows "\<exists>l'. remove_if c l = ret l' \<and> rep l' (filter (\<lambda>x. \<not> c x) xs) \<and> allocated_nodes l' = allocated_nodes l - {x \<in> set xs. c x}"
proof -
  have "snd l = (if xs = [] then None else Some (hd xs))" using assms by (cases xs) auto
  then show ?thesis using remove_loop [of l "[]" xs "snd l" c] assms by (simp add: remove_if_def)
qed

lemma visited_rep:
  assumes "rep l xs"
  shows "visited l = ret xs"
proof -
  have "path (fst l) el bs \<Longrightarrow> LL_FOREACH (\<lambda>p (l, acc). ret (l, acc @ [p])) el (l, acc) = ret (l, acc @ bs)" for el bs acc
    by (induction bs arbitrary: el acc) (subst LL_FOREACH.simps, auto)+
  from this [OF assms, of "[]"] show ?thesis by (simp add: visited_def)
qed

section \<open>The interface\<close>

text \<open>What the clients of the lists rely on: each operation ends, does not touch freed memory, and is a
  function on the sequence of elements. Inside the locale, the operations are composed: any program
  over them computes what the same program over sequences computes.\<close>

datatype list_op = Append node | Prepend node | Delete node | RemoveIf "node \<Rightarrow> bool"

fun seq_op :: "list_op \<Rightarrow> node list \<Rightarrow> node list" where
  "seq_op (Append x) xs = xs @ [x]"
| "seq_op (Prepend x) xs = x # xs"
| "seq_op (Delete x) xs = remove1 x xs"
| "seq_op (RemoveIf c) xs = filter (\<lambda>x. \<not> c x) xs"

text \<open>The obligations of a client: it adds allocated nodes that are not in the list, and takes out nodes
  that are. \<open>A\<close> is the set of allocated nodes.\<close>

fun op_legal :: "node set \<Rightarrow> node list \<Rightarrow> list_op \<Rightarrow> bool" where
  "op_legal A xs (Append x) \<longleftrightarrow> x \<in> A \<and> x \<notin> set xs"
| "op_legal A xs (Prepend x) \<longleftrightarrow> x \<in> A \<and> x \<notin> set xs"
| "op_legal A xs (Delete x) \<longleftrightarrow> x \<in> set xs"
| "op_legal A xs (RemoveIf c) \<longleftrightarrow> True"

fun op_alloc :: "list_op \<Rightarrow> node list \<Rightarrow> node set \<Rightarrow> node set" where
  "op_alloc (RemoveIf c) xs A = A - {x \<in> set xs. c x}"
| "op_alloc _ xs A = A"

fun legal :: "node set \<Rightarrow> node list \<Rightarrow> list_op list \<Rightarrow> bool" where
  "legal A xs [] \<longleftrightarrow> True"
| "legal A xs (p # ps) \<longleftrightarrow> op_legal A xs p \<and> legal (op_alloc p xs A) (seq_op p xs) ps"

fun run_ops :: "(list_op \<Rightarrow> 's \<Rightarrow> 's run) \<Rightarrow> list_op list \<Rightarrow> 's \<Rightarrow> 's run" where
  "run_ops ex [] s = ret s"
| "run_ops ex (p # ps) s = bindL (ex p s) (run_ops ex ps)"

locale sequence_store =
  fixes seq :: "'s \<Rightarrow> node list \<Rightarrow> bool"
    and alloc :: "'s \<Rightarrow> node set"
    and ex :: "list_op \<Rightarrow> 's \<Rightarrow> 's run"
    and elements :: "'s \<Rightarrow> node list run"
  assumes op_ok: "seq s xs \<Longrightarrow> op_legal (alloc s) xs p
      \<Longrightarrow> \<exists>t. ex p s = ret t \<and> seq t (seq_op p xs) \<and> alloc t = op_alloc p xs (alloc s)"
    and elements_ok: "seq s xs \<Longrightarrow> elements s = ret xs"
begin

lemma run_ok:
  "seq s xs \<Longrightarrow> legal (alloc s) xs ps \<Longrightarrow> \<exists>t. run_ops ex ps s = ret t \<and> seq t (fold seq_op ps xs)"
proof (induction ps arbitrary: s xs)
  case (Cons p ps)
  then obtain t where t: "ex p s = ret t" "seq t (seq_op p xs)" "alloc t = op_alloc p xs (alloc s)"
    using op_ok [of s xs p] by auto
  with Cons show ?case by simp
qed auto

lemma run_elements:
  "seq s xs \<Longrightarrow> legal (alloc s) xs ps \<Longrightarrow> bindL (run_ops ex ps s) elements = ret (fold seq_op ps xs)"
  using run_ok [of s xs ps] elements_ok by auto

end

fun utlist_op :: "list_op \<Rightarrow> llist \<Rightarrow> llist run" where
  "utlist_op (Append x) l = LL_APPEND x l"
| "utlist_op (Prepend x) l = LL_PREPEND x l"
| "utlist_op (Delete x) l = LL_DELETE x l"
| "utlist_op (RemoveIf c) l = remove_if c l"

lemma utlist_op_ok:
  assumes "rep l xs" "op_legal (allocated_nodes l) xs p"
  shows "\<exists>l'. utlist_op p l = ret l' \<and> rep l' (seq_op p xs) \<and> allocated_nodes l' = op_alloc p xs (allocated_nodes l)"
proof (cases p)
  case (Delete x)
  then obtain as bs where xs: "xs = as @ x # bs" "x \<notin> set as" using assms(2) split_list_first by fastforce
  then have "remove1 x xs = as @ bs" by (simp add: remove1_append)
  then show ?thesis using delete_rep [of l as x bs] assms(1) xs(1) Delete by auto
qed (use assms append_rep prepend_rep remove_if_rep in auto)

interpretation utlist: sequence_store rep allocated_nodes utlist_op visited
  by unfold_locales (use utlist_op_ok visited_rep in auto)

section \<open>Properties\<close>

text \<open>(C31) The linked lists of utlist.h are sequences: any program of insertions at either end, deletions and
  loops that take out and free the nodes meeting a condition ends without touching freed memory, and
  a traversal afterwards visits exactly the elements that the same program over sequences yields. The
  queues of the scheduler and the allocation list of the interposer are modelled by such sequences.\<close>

theorem linked_list_refines:
  assumes "rep l xs" "legal (allocated_nodes l) xs ps"
  shows "bindL (run_ops utlist_op ps l) visited = ret (fold seq_op ps xs)"
  using utlist.run_elements [OF assms] .

theorem linked_list_refines_witness:
  "bindL (run_ops utlist_op [Append 2, Append 5, Prepend 7, Append 4, RemoveIf even, Delete 7] (\<lambda>_. Some None, None)) visited
     = ret [5]"
  by (subst linked_list_refines [where xs = "[]"]) simp_all

end
