(* ===== verification/NvmlSampler.thy ===== *)
theory NvmlSampler
  imports Comm Strtod
begin

text \<open>
  The NVML sampler of the scheduler's metrics (src/nvml_sampler.c): loading the library, the device
  table, and the loop that refreshes the snapshot read by the exporter. NVML itself is a parameter:
  the record \<open>nvml_api\<close> gives the answer to each query in each round of the loop.
\<close>

section \<open>Single precision\<close>

text \<open>Rounding \<open>a / b\<close> to a mantissa of \<open>p\<close> bits, ties to even; \<open>to_double\<close> is the case of 53 bits. The exponent
  is unbounded, which makes no difference for the ratios computed here.\<close>

definition round_to :: "nat \<Rightarrow> bool \<Rightarrow> nat \<Rightarrow> nat \<Rightarrow> double" where
  "round_to p neg a b =
     (if a = 0 then Fin neg 0 0
      else (let e0 = int (bitlen a) - int (bitlen b) - int p;
                e = (case scaled a b e0 of (x, y) \<Rightarrow> if x div y \<ge> 2 ^ p then e0 + 1 else e0)
            in case scaled a b e of (x, y) \<Rightarrow> Fin neg (round_div_even x y) e))"

definition float_of :: "int \<Rightarrow> double" where
  "float_of i = round_to 24 (i < 0) (nat \<bar>i\<bar>) 1"

fun float_div :: "double \<Rightarrow> double \<Rightarrow> double" where
  "float_div (Fin n1 m1 e1) (Fin n2 m2 e2) =
     (if m2 = 0 then (if m1 = 0 then NaN else Inf (n1 \<noteq> n2))
      else round_to 24 (n1 \<noteq> n2) (m1 * 2 ^ nat (e1 - e2)) (m2 * 2 ^ nat (e2 - e1)))"
| "float_div x y = NaN"

section \<open>Data\<close>

definition NVML_MAX_GPUS :: nat where "NVML_MAX_GPUS = 16"
definition NVML_MAX_PROCESSES_PER_GPU :: nat where "NVML_MAX_PROCESSES_PER_GPU = 64"

record nvml_process_info =
  p_pid :: int
  p_used_memory :: size_t

text \<open>\<^verbatim>\<open>process_count\<close> is the length of \<open>n_processes\<close>: the entries beyond it are never read.\<close>

record nvml_gpu_snapshot =
  n_uuid :: string
  n_gpu_index :: int
  n_gpu_name :: string
  n_memory_total :: size_t
  n_memory_used :: size_t
  n_memory_free :: size_t
  n_gpu_util :: double
  n_mem_util :: double
  n_processes :: "nvml_process_info list"
  n_valid :: bool

definition zero_gpu :: nvml_gpu_snapshot where
  "zero_gpu = \<lparr>n_uuid = [], n_gpu_index = 0, n_gpu_name = [], n_memory_total = 0, n_memory_used = 0, n_memory_free = 0,
     n_gpu_util = Fin False 0 0, n_mem_util = Fin False 0 0, n_processes = [], n_valid = False\<rparr>"

text \<open>The answers of the dynamic linker and of NVML; \<open>None\<close> is a return code other than success.
  \<open>api_processes\<close> yields the number of processes and the entries of the output array.\<close>

record nvml_api =
  api_open :: "string \<Rightarrow> bool"
  api_sym :: "string \<Rightarrow> bool"
  api_init :: bool
  api_count :: "nat option"
  api_handle :: "nat \<Rightarrow> nat option"
  api_uuid :: "nat \<Rightarrow> nat \<Rightarrow> string option"
  api_name :: "nat \<Rightarrow> nat \<Rightarrow> string option"
  api_memory :: "nat \<Rightarrow> nat \<Rightarrow> (size_t \<times> size_t \<times> size_t) option"
  api_util :: "nat \<Rightarrow> nat \<Rightarrow> (nat \<times> nat) option"
  api_processes :: "nat \<Rightarrow> nat \<Rightarrow> (nat \<times> (nat \<Rightarrow> nat \<times> size_t)) option"

text \<open>The globals: resolved functions, sampling interval, device table, snapshot; \<open>v_round\<close> counts the
  rounds of the loop.\<close>

record nvml_state =
  v_syms :: "string list"
  v_interval_ms :: int
  v_devices :: "nat option list"
  v_available :: bool
  v_gpu_count :: nat
  v_gpus :: "nvml_gpu_snapshot list"
  v_round :: nat

definition nvml_zero :: nvml_state where
  "nvml_zero = \<lparr>v_syms = [], v_interval_ms = 1000, v_devices = [], v_available = False, v_gpu_count = 0,
     v_gpus = replicate NVML_MAX_GPUS zero_gpu, v_round = 0\<rparr>"

section \<open>Initialisation\<close>

definition nvml_sampler_set_interval_ms :: "int \<Rightarrow> nvml_state \<Rightarrow> nvml_state" where
  "nvml_sampler_set_interval_ms interval v =
     (if interval \<ge> 100 \<and> interval \<le> 30000 then v\<lparr>v_interval_ms := interval\<rparr> else v)"

text \<open>Each function with the names it is looked up by, in order of preference.\<close>

definition sampler_symbols :: "(string \<times> string list) list" where
  "sampler_symbols = [(''nvmlInit'', [''nvmlInit_v2'', ''nvmlInit'']), (''nvmlShutdown'', [''nvmlShutdown'']),
     (''nvmlDeviceGetCount'', [''nvmlDeviceGetCount_v2'', ''nvmlDeviceGetCount'']),
     (''nvmlDeviceGetHandleByIndex'', [''nvmlDeviceGetHandleByIndex_v2'', ''nvmlDeviceGetHandleByIndex'']),
     (''nvmlDeviceGetUUID'', [''nvmlDeviceGetUUID'']), (''nvmlDeviceGetName'', [''nvmlDeviceGetName'']),
     (''nvmlDeviceGetMemoryInfo'', [''nvmlDeviceGetMemoryInfo'']),
     (''nvmlDeviceGetUtilizationRates'', [''nvmlDeviceGetUtilizationRates'']),
     (''nvmlDeviceGetComputeRunningProcesses'',
        [''nvmlDeviceGetComputeRunningProcesses_v3'', ''nvmlDeviceGetComputeRunningProcesses''])]"

definition load_symbols :: "nvml_api \<Rightarrow> string list" where
  "load_symbols api = map fst (filter (\<lambda>(f, names). list_ex (api_sym api) names) sampler_symbols)"

definition critical_symbols :: "string list" where
  "critical_symbols = [''nvmlInit'', ''nvmlDeviceGetCount'', ''nvmlDeviceGetHandleByIndex'', ''nvmlDeviceGetMemoryInfo'']"

text \<open>The result is the return value of the function; there is none when it calls through a null
  pointer, which happens when the device count fails and \<^verbatim>\<open>nvmlShutdown\<close> was not found.\<close>

definition nvml_sampler_init :: "nvml_api \<Rightarrow> nvml_state \<Rightarrow> (int \<times> nvml_state) option" where
  "nvml_sampler_init api v =
     (let v1 = v\<lparr>v_gpu_count := 0, v_available := False\<rparr> in
      if \<not> api_open api ''libnvidia-ml.so.1'' \<and> \<not> api_open api ''libnvidia-ml.so'' then Some (-1, v1)
      else (let v2 = v1\<lparr>v_syms := load_symbols api\<rparr> in
        if \<not> list_all (\<lambda>f. f \<in> set (v_syms v2)) critical_symbols then Some (-1, v2)
        else if \<not> api_init api then Some (-1, v2)
        else case api_count api of
               None \<Rightarrow> if ''nvmlShutdown'' \<in> set (v_syms v2) then Some (-1, v2) else None
             | Some n \<Rightarrow>
                 (let device_count = min n NVML_MAX_GPUS in
                  Some (0, v2\<lparr>v_devices := map (api_handle api) [0..<device_count], v_available := True,
                              v_gpu_count := device_count\<rparr>))))"

section \<open>Sampling\<close>

definition default_uuid :: "nat \<Rightarrow> string" where
  "default_uuid i = ''GPU-'' @ show_nat i"

definition sample_processes :: "nat \<times> (nat \<Rightarrow> nat \<times> size_t) \<Rightarrow> nvml_process_info list" where
  "sample_processes r =
     map (\<lambda>j. \<lparr>p_pid = to_int32 (int (fst (snd r j))), p_used_memory = snd (snd r j)\<rparr>)
       [0..<min (fst r) NVML_MAX_PROCESSES_PER_GPU]"

definition sample_gpu :: "nvml_api \<Rightarrow> nvml_state \<Rightarrow> nat \<Rightarrow> nvml_gpu_snapshot \<Rightarrow> nvml_gpu_snapshot" where
  "sample_gpu api v i snap =
     (let k = v_round v; has = (\<lambda>f. f \<in> set (v_syms v));
          s0 = snap\<lparr>n_gpu_index := int i, n_valid := False\<rparr>
      in case v_devices v ! i of
           None \<Rightarrow> s0
         | Some dev \<Rightarrow>
             (let s1 = s0\<lparr>n_uuid := (case if has ''nvmlDeviceGetUUID'' then api_uuid api k dev else None of
                            Some u \<Rightarrow> strlcpy_field 96 u | None \<Rightarrow> default_uuid i)\<rparr>;
                  s2 = (if n_gpu_name s1 = [] \<and> has ''nvmlDeviceGetName''
                        then s1\<lparr>n_gpu_name := (case api_name api k dev of Some u \<Rightarrow> strlcpy_field 96 u | None \<Rightarrow> ''Unknown'')\<rparr>
                        else s1);
                  s3 = (case api_memory api k dev of
                          Some (mtotal, mfree, mused) \<Rightarrow> s2\<lparr>n_memory_total := mtotal, n_memory_used := mused, n_memory_free := mfree\<rparr>
                        | None \<Rightarrow> s2\<lparr>n_memory_total := 0, n_memory_used := 0, n_memory_free := 0\<rparr>);
                  s4 = (if has ''nvmlDeviceGetUtilizationRates''
                        then (case api_util api k dev of
                                Some (g, m) \<Rightarrow> s3\<lparr>n_gpu_util := float_div (float_of (int g)) (float_of 100),
                                                 n_mem_util := float_div (float_of (int m)) (float_of 100)\<rparr>
                              | None \<Rightarrow> s3\<lparr>n_gpu_util := Fin False 0 0, n_mem_util := Fin False 0 0\<rparr>)
                        else s3);
                  s5 = s4\<lparr>n_processes := (if has ''nvmlDeviceGetComputeRunningProcesses''
                                         then (case api_processes api k dev of Some r \<Rightarrow> sample_processes r | None \<Rightarrow> [])
                                         else [])\<rparr>
              in s5\<lparr>n_valid := True\<rparr>))"

text \<open>One round of \<open>nvml_sampler_thread_fn\<close>: sampling into a zeroed buffer that keeps the names, which then
  replaces the snapshot as a whole; the state and the time until the next round.\<close>

definition local_snaps :: "nvml_state \<Rightarrow> nvml_gpu_snapshot list" where
  "local_snaps v = map (\<lambda>i. if i < length (v_devices v) then zero_gpu\<lparr>n_gpu_name := n_gpu_name (v_gpus v ! i)\<rparr> else zero_gpu)
     [0..<NVML_MAX_GPUS]"

definition sampler_round :: "nvml_api \<Rightarrow> nvml_state \<Rightarrow> nvml_state" where
  "sampler_round api v =
     v\<lparr>v_gpus := map (\<lambda>i. if i < length (v_devices v) then sample_gpu api v i (local_snaps v ! i) else local_snaps v ! i)
                   [0..<NVML_MAX_GPUS],
       v_round := Suc (v_round v)\<rparr>"


section \<open>What the snapshot holds\<close>

definition memory_of :: "nvml_gpu_snapshot \<Rightarrow> size_t \<times> size_t \<times> size_t" where
  "memory_of g = (n_memory_total g, n_memory_free g, n_memory_used g)"

lemma show_nat_length: "0 < k \<Longrightarrow> n < 10 ^ k \<Longrightarrow> length (show_nat n) \<le> k"
  unfolding show_nat_def
proof (induction k arbitrary: n)
  case (Suc k)
  show ?case
  proof (cases "n < 10")
    case True
    then show ?thesis by (simp add: show_base.simps [of 10 n])
  next
    case False
    then have "0 < k" using Suc.prems(2) by (cases k) auto
    moreover have "n div 10 < 10 ^ k" using Suc.prems(2) by (simp add: div_less_iff_less_mult mult.commute)
    ultimately show ?thesis using Suc.IH [of "n div 10"] False by (simp add: show_base.simps [of 10 n])
  qed
qed simp

lemma sample_gpu_valid [simp]: "n_valid (sample_gpu api v i g) \<longleftrightarrow> v_devices v ! i \<noteq> None"
  by (simp add: sample_gpu_def Let_def split: option.split)

lemma sample_gpu_name: "n_gpu_name g \<noteq> [] \<Longrightarrow> n_gpu_name (sample_gpu api v i g) = n_gpu_name g"
  by (simp add: sample_gpu_def Let_def split: option.split)

lemma sample_gpu_device:
  assumes "v_devices v ! i = Some dev"
  shows "memory_of (sample_gpu api v i g) = (case api_memory api (v_round v) dev of Some m \<Rightarrow> m | None \<Rightarrow> (0, 0, 0))"
    "n_gpu_index (sample_gpu api v i g) = int i" "length (n_processes (sample_gpu api v i g)) \<le> NVML_MAX_PROCESSES_PER_GPU"
    "i < 100 \<Longrightarrow> length (n_uuid (sample_gpu api v i g)) < 96"
    "length (n_gpu_name g) < 96 \<Longrightarrow> length (n_gpu_name (sample_gpu api v i g)) < 96"
  using assms show_nat_length [of 2 i]
  by (auto simp: sample_gpu_def Let_def memory_of_def sample_processes_def default_uuid_def strlcpy_field_def split: option.split)

text \<open>The invariant: the device table, the size of the snapshot, and per entry what the exporter relies on.\<close>

definition gpu_ok :: "nvml_api \<Rightarrow> nvml_state \<Rightarrow> nat \<Rightarrow> bool" where
  "gpu_ok api v i \<longleftrightarrow> (let g = v_gpus v ! i in
     length (n_gpu_name g) < 96
     \<and> (n_valid g \<longleftrightarrow> i < v_gpu_count v \<and> api_handle api i \<noteq> None \<and> 0 < v_round v)
     \<and> (n_valid g \<longrightarrow> n_gpu_index g = int i \<and> length (n_uuid g) < 96 \<and> length (n_processes g) \<le> NVML_MAX_PROCESSES_PER_GPU
          \<and> memory_of g = (case api_memory api (v_round v - 1) (the (api_handle api i)) of Some m \<Rightarrow> m | None \<Rightarrow> (0, 0, 0))))"

definition nvml_inv :: "nvml_api \<Rightarrow> nvml_state \<Rightarrow> bool" where
  "nvml_inv api v \<longleftrightarrow> v_available v \<and> api_count api \<noteq> None \<and> v_gpu_count v = min (the (api_count api)) NVML_MAX_GPUS
     \<and> v_devices v = map (api_handle api) [0..<v_gpu_count v] \<and> length (v_gpus v) = NVML_MAX_GPUS
     \<and> 100 \<le> v_interval_ms v \<and> v_interval_ms v \<le> 30000 \<and> (\<forall>i < NVML_MAX_GPUS. gpu_ok api v i)"

definition nvml_start :: "nvml_api \<Rightarrow> nvml_state \<Rightarrow> bool" where
  "nvml_start api v \<longleftrightarrow> (\<exists>t. nvml_sampler_init api (nvml_sampler_set_interval_ms t nvml_zero) = Some (0, v))"

definition nvml_step :: "nvml_api \<Rightarrow> nvml_state \<Rightarrow> nvml_state \<Rightarrow> bool" where
  "nvml_step api v w \<longleftrightarrow> w = sampler_round api v"

lemma nvml_start_inv: "nvml_start api v \<Longrightarrow> nvml_inv api v"
  by (auto simp: nvml_start_def nvml_sampler_init_def Let_def nvml_inv_def gpu_ok_def nvml_zero_def zero_gpu_def
      nvml_sampler_set_interval_ms_def split: if_splits option.splits)

lemma local_snap_name:
  assumes "nvml_inv api v" "i < NVML_MAX_GPUS"
  shows "length (n_gpu_name (local_snaps v ! i)) < 96" "\<not> n_valid (local_snaps v ! i)"
    "i < v_gpu_count v \<Longrightarrow> n_gpu_name (local_snaps v ! i) = n_gpu_name (v_gpus v ! i)"
  using assms by (auto simp: local_snaps_def nvml_inv_def gpu_ok_def zero_gpu_def Let_def)

lemma round_gpu:
  assumes "nvml_inv api v" "i < NVML_MAX_GPUS"
  shows "v_gpus (sampler_round api v) ! i = (if i < v_gpu_count v then sample_gpu api v i (local_snaps v ! i) else local_snaps v ! i)"
  using assms by (simp add: sampler_round_def nvml_inv_def)

lemma nvml_step_inv:
  assumes inv: "nvml_inv api v" and st: "nvml_step api v w"
  shows "nvml_inv api w"
proof -
  have "gpu_ok api w i" if i: "i < NVML_MAX_GPUS" for i
  proof (cases "i < v_gpu_count v")
    case True
    then have d: "v_devices v ! i = api_handle api i" using inv by (simp add: nvml_inv_def)
    have "i < 100" using i by (simp add: NVML_MAX_GPUS_def)
    then show ?thesis
      using st True d local_snap_name [OF inv i] sample_gpu_device [where v = v and i = i and api = api and g = "local_snaps v ! i"]
      by (cases "api_handle api i") (simp_all add: gpu_ok_def nvml_step_def round_gpu [OF inv i] Let_def,
          simp_all add: sample_gpu_def sampler_round_def)
  next
    case False
    then show ?thesis
      using st local_snap_name [OF inv i] by (simp add: gpu_ok_def nvml_step_def round_gpu [OF inv i] Let_def) (simp add: sampler_round_def)
  qed
  then show ?thesis using inv st by (simp add: nvml_inv_def nvml_step_def sampler_round_def)
qed


lemma round_name:
  assumes "nvml_inv api v" "i < v_gpu_count v" "n_gpu_name (v_gpus v ! i) \<noteq> []"
  shows "n_gpu_name (v_gpus (sampler_round api v) ! i) = n_gpu_name (v_gpus v ! i)"
proof -
  have i: "i < NVML_MAX_GPUS" using assms(1,2) by (simp add: nvml_inv_def)
  show ?thesis using assms local_snap_name(3) [OF assms(1) i] by (simp add: round_gpu [OF assms(1) i] sample_gpu_name)
qed

text \<open>A name is asked for only while the entry has none, and a failed query stores \<open>Unknown\<close>: the name of the
  device is then never asked for again.\<close>

lemma unknown_name_kept:
  assumes start: "nvml_start api v" and "(nvml_step api)\<^sup>*\<^sup>* (sampler_round api v) w"
    and i: "i < v_gpu_count v" "api_handle api i = Some dev" "''nvmlDeviceGetName'' \<in> set (v_syms v)" "api_name api 0 dev = None"
  shows "n_gpu_name (v_gpus w ! i) = ''Unknown''"
proof -
  have inv: "nvml_inv api v" using start by (rule nvml_start_inv)
  have i16: "i < NVML_MAX_GPUS" using inv i(1) by (simp add: nvml_inv_def)
  have z: "n_gpu_name (v_gpus v ! i) = []" "v_round v = 0"
    using start i16 by (auto simp: nvml_start_def nvml_sampler_init_def Let_def nvml_zero_def zero_gpu_def
        nvml_sampler_set_interval_ms_def split: if_splits option.splits)
  have d: "v_devices v ! i = Some dev" using inv i by (simp add: nvml_inv_def)
  have "n_gpu_name (local_snaps v ! i) = []" using local_snap_name(3) [OF inv i16 i(1)] z by simp
  then have base: "n_gpu_name (v_gpus (sampler_round api v) ! i) = ''Unknown''"
    using d i z by (simp add: round_gpu [OF inv i16] sample_gpu_def Let_def split: option.split)
  have "nvml_inv api w \<and> i < v_gpu_count w \<and> n_gpu_name (v_gpus w ! i) = ''Unknown''"
    using assms(2)
  proof (induction rule: rtranclp_induct)
    case base
    have "nvml_inv api (sampler_round api v)" using inv by (rule nvml_step_inv) (simp add: nvml_step_def)
    then show ?case using \<open>n_gpu_name (v_gpus (sampler_round api v) ! i) = ''Unknown''\<close> i(1) by (simp add: sampler_round_def)
  next
    case (step u w)
    then have "nvml_inv api w" using nvml_step_inv by blast
    then show ?case using step round_name [of api u i] by (simp add: nvml_step_def) (simp add: sampler_round_def)
  qed
  then show ?thesis by simp
qed

section \<open>Properties\<close>






end
