(* ===== verification/Metrics.thy ===== *)
theory Metrics
  imports SchedQuota NvmlSampler
begin

text \<open>
  The Prometheus exporter of the scheduler (src/metrics_exporter.c) and the snapshot of the scheduler
  state it reads (\<open>metrics_fill_scheduler_snapshot\<close> of src/scheduler.c): configuration, the bounded
  output buffer, the text of every metric, and the HTTP answers.
\<close>

section \<open>Snapshot of the scheduler\<close>

definition MAX_SNAPSHOT_CLIENTS :: nat where "MAX_SNAPSHOT_CLIENTS = 256"
definition MAX_SNAPSHOT_CONTEXTS :: nat where "MAX_SNAPSHOT_CONTEXTS = 16"

record client_snapshot =
  cs_id :: uint64
  cs_pod_name :: string
  cs_pod_namespace :: string
  cs_gpu_uuid :: string
  cs_gpu_index :: int
  cs_host_pid :: int
  cs_memory_allocated :: size_t
  cs_peak_allocated :: size_t
  cs_memory_limit :: size_t
  cs_core_limit :: int
  cs_is_running :: bool
  cs_is_throttled :: bool
  cs_pending_drop :: bool
  cs_run_time_in_window_ms :: int
  cs_quota_debt_ms :: int
  cs_effective_quota_ms :: int
  cs_window_limit_ms :: int

record context_snapshot =
  xs_uuid :: string
  xs_gpu_index :: int
  xs_running_count :: nat
  xs_request_count :: nat
  xs_wait_count :: nat
  xs_running_memory :: size_t
  xs_peak_memory :: size_t
  xs_total_memory :: size_t
  xs_memory_reserve_percent :: int
  xs_memory_overloaded :: bool

text \<open>The counts of both arrays are the lengths of the lists.\<close>

record scheduler_snapshot =
  sn_clients :: "client_snapshot list"
  sn_contexts :: "context_snapshot list"
  sn_counters :: metrics_counters

definition snapshot_client :: "sched_state \<Rightarrow> cptr \<Rightarrow> client_snapshot" where
  "snapshot_client s p =
     (let c = client s p in
      \<lparr>cs_id = c_id c, cs_pod_name = strlcpy_field POD_NAME_LEN_MAX (c_pod_name c),
       cs_pod_namespace = strlcpy_field POD_NAMESPACE_LEN_MAX (c_pod_namespace c),
       cs_gpu_uuid = (case c_context c of None \<Rightarrow> [] | Some g \<Rightarrow> strlcpy_field NVSHARE_GPU_UUID_LEN (g_uuid (gpu s g))),
       cs_gpu_index = -1, cs_host_pid = c_host_pid c, cs_memory_allocated = c_memory_allocated c,
       cs_peak_allocated = c_peak_allocated c, cs_memory_limit = c_memory_limit c, cs_core_limit = c_core_limit c,
       cs_is_running = c_is_running c, cs_is_throttled = c_is_throttled c, cs_pending_drop = c_pending_drop c,
       cs_run_time_in_window_ms = c_run_time_in_window_ms c, cs_quota_debt_ms = c_quota_debt_ms c,
       cs_effective_quota_ms = (case c_context c of
          Some g \<Rightarrow> if c_core_limit c < 100 then get_effective_quota_ms g p s else cfg_compute_window_ms (s_config s)
        | None \<Rightarrow> cfg_compute_window_ms (s_config s)),
       cs_window_limit_ms = cfg_compute_window_ms (s_config s)\<rparr>)"

text \<open>The loop over the clients with its two exits; \<open>room\<close> is what is left of the array.\<close>

fun snapshot_clients :: "sched_state \<Rightarrow> nat \<Rightarrow> cptr list \<Rightarrow> client_snapshot list" where
  "snapshot_clients s room [] = []"
| "snapshot_clients s 0 (p # ps) = []"
| "snapshot_clients s (Suc room) (p # ps) =
     (if c_id (client s p) = NVSHARE_UNREGISTERED_ID then snapshot_clients s (Suc room) ps
      else snapshot_client s p # snapshot_clients s room ps)"

fun snapshot_contexts :: "sched_state \<Rightarrow> nat \<Rightarrow> gptr list \<Rightarrow> context_snapshot list" where
  "snapshot_contexts s gi [] = []"
| "snapshot_contexts s gi (g # gs) =
     (if gi \<ge> MAX_SNAPSHOT_CONTEXTS then []
      else (let x = gpu s g in
            \<lparr>xs_uuid = strlcpy_field NVSHARE_GPU_UUID_LEN (g_uuid x), xs_gpu_index = int gi,
             xs_running_count = length (g_running_list x), xs_request_count = length (g_requests x),
             xs_wait_count = length (g_wait_queue x), xs_running_memory = g_running_memory_usage x,
             xs_peak_memory = g_peak_memory_usage x, xs_total_memory = g_total_memory x,
             xs_memory_reserve_percent = cfg_memory_reserve_percent (s_config s),
             xs_memory_overloaded = g_memory_overloaded x\<rparr>) # snapshot_contexts s (Suc gi) gs)"

definition metrics_fill_scheduler_snapshot :: "sched_state \<Rightarrow> scheduler_snapshot" where
  "metrics_fill_scheduler_snapshot s =
     \<lparr>sn_clients = snapshot_clients s MAX_SNAPSHOT_CLIENTS (s_clients s),
      sn_contexts = snapshot_contexts s 0 (s_contexts s), sn_counters = s_metrics s\<rparr>"

section \<open>Configuration\<close>

record metrics_config =
  mc_enabled :: bool
  mc_bind_addr :: string
  mc_port :: int
  mc_debug_labels :: bool
  mc_stale_ttl_sec :: int

definition default_metrics_config :: metrics_config where
  "default_metrics_config = \<lparr>mc_enabled = False, mc_bind_addr = ''0.0.0.0'', mc_port = 9402, mc_debug_labels = False,
     mc_stale_ttl_sec = 300\<rparr>"

text \<open>\<^verbatim>\<open>strrchr\<close>: what is before and after the last occurrence.\<close>

definition split_last :: "char \<Rightarrow> string \<Rightarrow> (string \<times> string) option" where
  "split_last c s =
     (if c \<in> set s
      then (let after = rev (takeWhile (\<lambda>x. x \<noteq> c) (rev s)) in Some (take (length s - length after - 1) s, after))
      else None)"

definition metrics_exporter_init_config :: "(string \<Rightarrow> string option) \<Rightarrow> metrics_config \<Rightarrow> metrics_config" where
  "metrics_exporter_init_config getenv c0 =
     (let c1 = from_env getenv ''NVSHARE_METRICS_ENABLE''
                 (\<lambda>v c. if v = ''1'' \<or> v = ''true'' then c\<lparr>mc_enabled := True\<rparr> else c) c0;
          c2 = from_env getenv ''NVSHARE_METRICS_ADDR''
                 (\<lambda>v c. case split_last (CHR '':'') v of
                          Some (host, p) \<Rightarrow>
                            (if length host > 0 \<and> length host < 64 then c\<lparr>mc_bind_addr := host\<rparr> else c)\<lparr>mc_port := atoi p\<rparr>
                        | None \<Rightarrow> c\<lparr>mc_port := atoi v\<rparr>) c1;
          c3 = from_env getenv ''NVSHARE_METRICS_DEBUG_LABELS''
                 (\<lambda>v c. if v = ''1'' then c\<lparr>mc_debug_labels := True\<rparr> else c) c2
      in from_env getenv ''NVSHARE_METRICS_STALE_TTL_SEC'' (\<lambda>v c. c\<lparr>mc_stale_ttl_sec := atoi v\<rparr>) c3)"

text \<open>The start of the exporter by \<open>main\<close>: whether the sampler thread and the server thread run. There is no
  result when the initialisation of NVML calls through a null pointer.\<close>

definition start_metrics ::
  "(string \<Rightarrow> string option) \<Rightarrow> nvml_api \<Rightarrow> metrics_config \<times> nvml_state \<Rightarrow> ((bool \<times> bool) \<times> metrics_config \<times> nvml_state) option" where
  "start_metrics getenv api st =
     (let cfg = metrics_exporter_init_config getenv (fst st) in
      if \<not> mc_enabled cfg then Some ((False, False), cfg, snd st)
      else (case nvml_sampler_init api
                   (from_env getenv ''NVSHARE_METRICS_NVML_INTERVAL_MS'' (\<lambda>t. nvml_sampler_set_interval_ms (atoi t)) (snd st)) of
              None \<Rightarrow> None
            | Some (r, v) \<Rightarrow> Some ((r = 0, True), cfg, v)))"

section \<open>The output buffer\<close>

definition NVSHARE_METRICS_BUFFER_SIZE :: nat where "NVSHARE_METRICS_BUFFER_SIZE = 256 * 1024"

text \<open>\<open>b_data\<close> holds the characters before the terminator, unless \<^verbatim>\<open>malloc\<close> failed; \<open>b_len\<close> is the field the code
  keeps.\<close>

record metrics_buf =
  b_data :: "string option"
  b_len :: nat
  b_cap :: nat

definition buf_init :: "bool \<Rightarrow> nat \<Rightarrow> metrics_buf" where
  "buf_init ok cap = \<lparr>b_data = (if ok then Some [] else None), b_len = 0, b_cap = cap\<rparr>"

text \<open>\<open>text\<close> is the formatted text; \<^verbatim>\<open>vsnprintf\<close> writes what fits and returns its whole length.\<close>

definition buf_append :: "string \<Rightarrow> metrics_buf \<Rightarrow> metrics_buf" where
  "buf_append txt b =
     (case b_data b of
        None \<Rightarrow> b
      | Some d \<Rightarrow>
          if b_len b \<ge> b_cap b - 1 then b
          else (let d' = take (b_len b) d @ take (b_cap b - b_len b - 1) txt; n = length txt in
                if n > 0
                then b\<lparr>b_data := Some d', b_len := (if b_len b + n \<ge> b_cap b then b_cap b - 1 else b_len b + n)\<rparr>
                else b\<lparr>b_data := Some d'\<rparr>))"

section \<open>Prometheus text\<close>

definition newline :: string where "newline = [CHR 0x0A]"

definition labelled :: "string \<times> string \<Rightarrow> string" where
  "labelled l = fst l @ ''='' @ [CHR 0x22] @ snd l @ [CHR 0x22]"

fun comma_list :: "string list \<Rightarrow> string" where
  "comma_list [] = []"
| "comma_list [x] = x"
| "comma_list (x # y # ys) = x @ '','' @ comma_list (y # ys)"

definition head :: "string \<Rightarrow> string \<Rightarrow> string \<Rightarrow> string" where
  "head name help kind = ''# HELP '' @ name @ '' '' @ help @ newline @ ''# TYPE '' @ name @ '' '' @ kind @ newline"

definition sample :: "string \<Rightarrow> (string \<times> string) list \<Rightarrow> string \<Rightarrow> string" where
  "sample name labels val = name @ ''{'' @ comma_list (map labelled labels) @ ''} '' @ val @ newline"

text \<open>A block of the exposition: its head and a line per element, each one call of \<open>buf_append\<close>.\<close>

definition gauge :: "string \<Rightarrow> string \<Rightarrow> ('a \<Rightarrow> (string \<times> string) list) \<Rightarrow> ('a \<Rightarrow> string) \<Rightarrow> 'a list \<Rightarrow> string list" where
  "gauge name help labels val xs = head name help ''gauge'' # map (\<lambda>x. sample name (labels x) (val x)) xs"

definition show_size :: "64 word \<Rightarrow> string" where
  "show_size w = show_nat (unat w)"

definition show_flag :: "bool \<Rightarrow> string" where
  "show_flag b = (if b then ''1'' else ''0'')"

text \<open>\<^verbatim>\<open>%.4f\<close>: the value rounded to four decimals, ties to even on the exact value.\<close>

fun show_fixed4 :: "double \<Rightarrow> string" where
  "show_fixed4 NaN = ''nan''"
| "show_fixed4 (Inf neg) = (if neg then ''-inf'' else ''inf'')"
| "show_fixed4 (Fin neg m e) =
     (let q = (if e \<ge> 0 then m * 2 ^ nat e * 10000 else round_div_even (m * 10000) (2 ^ nat (- e))) in
      (if neg then ''-'' else []) @ show_nat (q div 10000) @ ''.'' @ fixed_digits 10 4 (q mod 10000))"

subsection \<open>GPUs\<close>

definition gpu_labels :: "nvml_gpu_snapshot \<Rightarrow> (string \<times> string) list" where
  "gpu_labels g = [(''gpu_uuid'', n_uuid g), (''gpu_index'', show_int (n_gpu_index g))]"

definition format_gpu_metrics :: "nvml_state \<Rightarrow> string list" where
  "format_gpu_metrics v =
     (let up = head ''nvshare_nvml_up'' ''Whether NVML is available (1=yes, 0=no)'' ''gauge'';
          gs = filter n_valid (take (v_gpu_count v) (v_gpus v))
      in if \<not> v_available v then [up @ ''nvshare_nvml_up 0'' @ newline]
         else [up @ ''nvshare_nvml_up 1'' @ newline]
           @ gauge ''nvshare_gpu_info'' ''GPU device information'' (\<lambda>g. gpu_labels g @ [(''gpu_name'', n_gpu_name g)]) (\<lambda>g. ''1'') gs
           @ gauge ''nvshare_gpu_memory_total_bytes'' ''Total GPU memory in bytes'' gpu_labels (\<lambda>g. show_size (n_memory_total g)) gs
           @ gauge ''nvshare_gpu_memory_used_bytes'' ''Used GPU memory in bytes'' gpu_labels (\<lambda>g. show_size (n_memory_used g)) gs
           @ gauge ''nvshare_gpu_memory_free_bytes'' ''Free GPU memory in bytes'' gpu_labels (\<lambda>g. show_size (n_memory_free g)) gs
           @ gauge ''nvshare_gpu_utilization_ratio'' ''GPU utilization (0~1)'' gpu_labels (\<lambda>g. show_fixed4 (n_gpu_util g)) gs
           @ gauge ''nvshare_gpu_memory_utilization_ratio'' ''Memory controller utilization (0~1)'' gpu_labels
               (\<lambda>g. show_fixed4 (n_mem_util g)) gs
           @ gauge ''nvshare_gpu_process_count'' ''Number of compute processes on GPU'' gpu_labels
               (\<lambda>g. show_nat (length (n_processes g))) gs)"

subsection \<open>Clients\<close>

definition client_labels :: "client_snapshot \<Rightarrow> (string \<times> string) list" where
  "client_labels c = [(''namespace'', cs_pod_namespace c), (''pod'', cs_pod_name c), (''client_id'', hex16 (cs_id c)),
     (''gpu_uuid'', cs_gpu_uuid c)]"

text \<open>The memory NVML reports for the client's process: the last GPU that matches by a common prefix of the
  identifiers and lists the process decides.\<close>

definition nvml_used :: "nvml_state \<Rightarrow> client_snapshot \<Rightarrow> size_t" where
  "nvml_used v c =
     fold (\<lambda>gs used.
         if \<not> n_valid gs \<or> \<not> strncmp_eq (n_uuid gs) (cs_gpu_uuid c) (length (cs_gpu_uuid c))
              \<and> \<not> strncmp_eq (cs_gpu_uuid c) (n_uuid gs) (length (n_uuid gs)) then used
         else (case find (\<lambda>p. p_pid p = cs_host_pid c) (n_processes gs) of Some p \<Rightarrow> p_used_memory p | None \<Rightarrow> used))
       (take (v_gpu_count v) (v_gpus v)) 0"

definition format_client_metrics :: "nvml_state \<Rightarrow> scheduler_snapshot \<Rightarrow> string list" where
  "format_client_metrics v snap =
     (let cs = sn_clients snap in
      gauge ''nvshare_client_info'' ''Client metadata (value=1)''
        (\<lambda>c. client_labels c @ [(''gpu_index'', show_int (cs_gpu_index c)), (''host_pid'', show_int (cs_host_pid c))]) (\<lambda>c. ''1'') cs
      @ gauge ''nvshare_client_managed_allocated_bytes'' ''Current managed allocation'' client_labels
          (\<lambda>c. show_size (cs_memory_allocated c)) cs
      @ gauge ''nvshare_client_managed_allocated_peak_bytes'' ''Lifetime peak managed allocation'' client_labels
          (\<lambda>c. show_size (cs_peak_allocated c)) cs
      @ gauge ''nvshare_client_nvml_used_bytes'' ''NVML per-process GPU memory''
          (\<lambda>c. client_labels c @ [(''host_pid'', show_int (cs_host_pid c))]) (\<lambda>c. show_size (nvml_used v c))
          (filter (\<lambda>c. cs_host_pid c > 0) cs)
      @ gauge ''nvshare_client_memory_quota_bytes'' ''Configured memory quota (0=unlimited)'' client_labels
          (\<lambda>c. show_size (cs_memory_limit c)) cs
      @ gauge ''nvshare_client_memory_quota_exceeded'' ''Whether allocation exceeds quota (0/1)'' client_labels
          (\<lambda>c. show_flag (cs_memory_limit c > 0 \<and> cs_memory_allocated c > cs_memory_limit c)) cs)"

definition effective_pct :: "client_snapshot \<Rightarrow> int" where
  "effective_pct c = (if cs_window_limit_ms c > 0 then to_int32 (cs_effective_quota_ms c * 100 sdiv cs_window_limit_ms c) else 100)"

definition usage_ratio :: "client_snapshot \<Rightarrow> double" where
  "usage_ratio c = (if cs_effective_quota_ms c > 0
     then float_div (float_of (cs_run_time_in_window_ms c)) (float_of (cs_effective_quota_ms c)) else Fin False 0 0)"

definition format_compute_metrics :: "scheduler_snapshot \<Rightarrow> string list" where
  "format_compute_metrics snap =
     (let cs = sn_clients snap in
      gauge ''nvshare_client_core_quota_config_percent'' ''Configured compute quota (1-100)'' client_labels
        (\<lambda>c. show_int (cs_core_limit c)) cs
      @ gauge ''nvshare_client_core_quota_effective_percent'' ''Effective compute quota after scaling'' client_labels
          (\<lambda>c. show_int (effective_pct c)) cs
      @ gauge ''nvshare_client_core_window_usage_ms'' ''Runtime in current window (ms)'' client_labels
          (\<lambda>c. show_int (cs_run_time_in_window_ms c)) cs
      @ gauge ''nvshare_client_core_window_limit_ms'' ''Window limit (ms)'' client_labels
          (\<lambda>c. show_int (cs_effective_quota_ms c)) cs
      @ gauge ''nvshare_client_core_usage_ratio'' ''usage_ms / limit_ms'' client_labels (\<lambda>c. show_fixed4 (usage_ratio c)) cs
      @ gauge ''nvshare_client_throttled'' ''Whether client is throttled (0/1)'' client_labels (\<lambda>c. show_flag (cs_is_throttled c)) cs
      @ gauge ''nvshare_client_pending_drop'' ''Whether DROP sent awaiting release (0/1)'' client_labels
          (\<lambda>c. show_flag (cs_pending_drop c)) cs
      @ gauge ''nvshare_client_quota_debt_ms'' ''Carryover debt (ms)'' client_labels (\<lambda>c. show_int (cs_quota_debt_ms c)) cs)"

subsection \<open>Scheduler\<close>

definition context_labels :: "context_snapshot \<Rightarrow> (string \<times> string) list" where
  "context_labels x = [(''gpu_uuid'', xs_uuid x), (''gpu_index'', show_int (xs_gpu_index x))]"

definition format_scheduler_metrics :: "scheduler_snapshot \<Rightarrow> string list" where
  "format_scheduler_metrics snap =
     (let gs = sn_contexts snap in
      gauge ''nvshare_scheduler_running_clients'' ''Running list length'' context_labels (\<lambda>x. show_nat (xs_running_count x)) gs
      @ gauge ''nvshare_scheduler_request_queue_clients'' ''Request queue length'' context_labels
          (\<lambda>x. show_nat (xs_request_count x)) gs
      @ gauge ''nvshare_scheduler_wait_queue_clients'' ''Wait queue length'' context_labels (\<lambda>x. show_nat (xs_wait_count x)) gs
      @ gauge ''nvshare_scheduler_running_memory_bytes'' ''Total running managed memory'' context_labels
          (\<lambda>x. show_size (xs_running_memory x)) gs
      @ gauge ''nvshare_scheduler_peak_running_memory_bytes'' ''Peak running memory'' context_labels
          (\<lambda>x. show_size (xs_peak_memory x)) gs
      @ gauge ''nvshare_scheduler_memory_safe_limit_bytes'' ''Safe memory limit (total*(1-reserve))'' context_labels
          (\<lambda>x. show_size (safe_limit (xs_total_memory x) (xs_memory_reserve_percent x))) gs
      @ gauge ''nvshare_scheduler_memory_overloaded'' ''Memory overload state (0/1)'' context_labels
          (\<lambda>x. show_flag (xs_memory_overloaded x)) gs)"

definition msg_names :: "string list" where
  "msg_names = [''REGISTER'', ''SCHED_ON'', ''SCHED_OFF'', ''REQ_LOCK'', ''LOCK_OK'', ''DROP_LOCK'', ''LOCK_RELEASED'', ''SET_TQ'',
     ''MEM_UPDATE'', ''WAIT_FOR_MEM'', ''MEM_AVAILABLE'', ''PREPARE_SWAP_OUT'', ''UPDATE_LIMIT'', ''UPDATE_CORE_LIMIT'']"

definition counter :: "string \<Rightarrow> string \<Rightarrow> 64 word \<Rightarrow> string" where
  "counter name help n = head name help ''counter'' @ name @ '' '' @ show_size n @ newline"

definition format_event_metrics :: "scheduler_snapshot \<Rightarrow> string list" where
  "format_event_metrics snap =
     (let m = sn_counters snap in
      head ''nvshare_scheduler_messages_total'' ''Message counts by type'' ''counter''
      # map (\<lambda>i. sample ''nvshare_scheduler_messages_total'' [(''type'', msg_names ! (i - 1))] (show_size (mt_msg m i))) [1..<15]
      @ [counter ''nvshare_scheduler_drop_lock_total'' ''DROP_LOCK events sent'' (mt_drop_lock m),
         counter ''nvshare_scheduler_client_disconnect_total'' ''Client disconnects'' (mt_client_disconnect m),
         counter ''nvshare_scheduler_wait_for_mem_total'' ''WAIT_FOR_MEM events sent'' (mt_wait_for_mem m),
         counter ''nvshare_scheduler_mem_available_total'' ''MEM_AVAILABLE events sent'' (mt_mem_available m)])"

section \<open>HTTP\<close>

definition crlf :: string where "crlf = [CHR 0x0D, CHR 0x0A]"

text \<open>The two parts that use the NVML snapshot lock it separately: \<open>v\<close> and \<open>v'\<close> are what they find.\<close>

definition exposition :: "nvml_state \<Rightarrow> nvml_state \<Rightarrow> scheduler_snapshot \<Rightarrow> string list" where
  "exposition v v' snap = format_gpu_metrics v @ format_client_metrics v' snap @ format_compute_metrics snap
     @ format_scheduler_metrics snap @ format_event_metrics snap"

definition http_header :: "nat \<Rightarrow> string" where
  "http_header n = ''HTTP/1.1 200 OK'' @ crlf @ ''Content-Type: text/plain; version=0.0.4; charset=utf-8'' @ crlf
     @ ''Content-Length: '' @ show_nat n @ crlf @ ''Connection: close'' @ crlf @ crlf"

text \<open>What a handler writes to the connection, one element per call of \<^verbatim>\<open>write\<close>; \<open>ok\<close> tells whether \<^verbatim>\<open>malloc\<close>
  succeeded. The header goes through an array of 256 characters.\<close>

definition handle_metrics :: "bool \<Rightarrow> nvml_state \<Rightarrow> nvml_state \<Rightarrow> sched_state \<Rightarrow> string list" where
  "handle_metrics ok v v' s =
     (let b = fold buf_append (exposition v v' (metrics_fill_scheduler_snapshot s)) (buf_init ok NVSHARE_METRICS_BUFFER_SIZE)
      in take 255 (http_header (b_len b))
         # (case b_data b of Some d \<Rightarrow> if b_len b > 0 then [take (b_len b) d] else [] | None \<Rightarrow> []))"

definition handle_healthz :: "string list" where
  "handle_healthz = [''HTTP/1.1 200 OK'' @ crlf @ ''Content-Type: text/plain'' @ crlf @ ''Content-Length: 3'' @ crlf
     @ ''Connection: close'' @ crlf @ crlf @ ''OK'' @ newline]"

definition handle_not_found :: "string list" where
  "handle_not_found = [''HTTP/1.1 404 Not Found'' @ crlf @ ''Content-Type: text/plain'' @ crlf @ ''Content-Length: 10'' @ crlf
     @ ''Connection: close'' @ crlf @ crlf @ ''Not Found'' @ newline]"

text \<open>\<open>request\<close> is what one \<^verbatim>\<open>read\<close> of at most 1023 bytes yields: nothing on error or end of file.\<close>

definition handle_connection :: "bool \<Rightarrow> nvml_state \<Rightarrow> nvml_state \<Rightarrow> sched_state \<Rightarrow> string option \<Rightarrow> string list" where
  "handle_connection ok v v' s request =
     (case request of
        None \<Rightarrow> []
      | Some buf \<Rightarrow>
          if strncmp_eq (cstr buf) ''GET /metrics'' 12 then handle_metrics ok v v' s
          else if strncmp_eq (cstr buf) ''GET /healthz'' 12 then handle_healthz
          else handle_not_found)"

text \<open>Setting up the server: the port is cut to 16 bits, an address that \<^verbatim>\<open>inet_pton\<close> rejects becomes the wildcard,
  and a failing \<^verbatim>\<open>socket\<close>, \<^verbatim>\<open>bind\<close> or \<^verbatim>\<open>listen\<close> ends the thread.\<close>

definition server_address :: "(string \<Rightarrow> 32 word option) \<Rightarrow> metrics_config \<Rightarrow> 32 word \<times> 16 word" where
  "server_address pton cfg =
     ((case pton (mc_bind_addr cfg) of Some a \<Rightarrow> a | None \<Rightarrow> 0), word_of_int (mc_port cfg))"

definition metrics_server_start ::
  "bool \<Rightarrow> (32 word \<times> 16 word \<Rightarrow> bool) \<Rightarrow> bool \<Rightarrow> (string \<Rightarrow> 32 word option) \<Rightarrow> metrics_config \<Rightarrow> bool" where
  "metrics_server_start socket_ok bind_ok listen_ok pton cfg \<longleftrightarrow> socket_ok \<and> bind_ok (server_address pton cfg) \<and> listen_ok"

text \<open>The loop over the results of \<^verbatim>\<open>accept\<close>: a failure is skipped, a connection is answered from the state at
  that time.\<close>

fun metrics_serve :: "(bool \<times> nvml_state \<times> nvml_state \<times> sched_state \<times> string option) option list \<Rightarrow> string list list" where
  "metrics_serve [] = []"
| "metrics_serve (None # rest) = metrics_serve rest"
| "metrics_serve (Some (ok, v, v', s, request) # rest) = handle_connection ok v v' s request # metrics_serve rest"

section \<open>The buffer is a bounded concatenation\<close>

definition buffered :: "nat \<Rightarrow> string \<Rightarrow> metrics_buf" where
  "buffered cap txt = \<lparr>b_data = Some (take (cap - 1) txt), b_len = min (cap - 1) (length txt), b_cap = cap\<rparr>"

lemma buf_init_buffered: "buf_init True cap = buffered cap []"
  by (simp add: buf_init_def buffered_def)

lemma buf_append_buffered: "buf_append txt (buffered cap acc) = buffered cap (acc @ txt)"
  by (auto simp: buf_append_def buffered_def Let_def min_def)

lemma buf_appends: "fold buf_append txts (buffered cap acc) = buffered cap (acc @ concat txts)"
  by (induction txts arbitrary: acc) (simp_all add: buf_append_buffered)

section \<open>The snapshot\<close>

lemma snapshot_clients_eq:
  "snapshot_clients s n ps = map (snapshot_client s) (take n (filter (\<lambda>p. has_registered (client s p)) ps))"
  by (induction s n ps rule: snapshot_clients.induct) (simp_all add: has_registered_def)

lemma snapshot_contexts_length: "length (snapshot_contexts s k gs) = min (length gs) (MAX_SNAPSHOT_CONTEXTS - k)"
  by (induction gs arbitrary: k) (auto simp: min_def)

lemma snapshot_contexts_nth:
  assumes "i < length gs" "k + i < MAX_SNAPSHOT_CONTEXTS"
  shows "let x = snapshot_contexts s k gs ! i; g = gpu s (gs ! i) in
    xs_uuid x = strlcpy_field NVSHARE_GPU_UUID_LEN (g_uuid g) \<and> xs_gpu_index x = int (k + i)
    \<and> xs_running_count x = length (g_running_list g) \<and> xs_request_count x = length (g_requests g)
    \<and> xs_wait_count x = length (g_wait_queue g) \<and> xs_running_memory x = g_running_memory_usage g"
  using assms
proof (induction gs arbitrary: k i)
  case (Cons g gs)
  show ?case
  proof (cases i)
    case 0
    then show ?thesis using Cons.prems by (simp add: Let_def)
  next
    case (Suc j)
    then show ?thesis using Cons.IH [of j "Suc k"] Cons.prems by (simp add: Let_def)
  qed
qed simp

lemma header_short: "length (http_header n) \<le> 120 + length (show_nat n)"
  by (simp add: http_header_def crlf_def)

end
