(* ===== verification/MetricsProps.thy ===== *)
theory MetricsProps
  imports Metrics SchedProps
begin

text \<open>
  Properties of the metrics exporter: the snapshot is the state of the scheduler, and the HTTP answer
  is the whole exposition, cut at the size of the buffer, with the right length in its header.
\<close>

lemma concat_infix: "x \<in> set xs \<Longrightarrow> \<exists>pre post. concat xs = pre @ x @ post"
proof -
  assume "x \<in> set xs"
  then obtain ys zs where "xs = ys @ x # zs" by (meson split_list)
  then have "concat xs = concat ys @ x @ concat zs" by simp
  then show ?thesis by blast
qed

lemma exposition_nonempty: "concat (exposition v v' snap) \<noteq> []"
  by (simp add: exposition_def format_gpu_metrics_def head_def Let_def)

lemma handle_metrics_eq:
  fixes v v' s
  defines "txt \<equiv> take (NVSHARE_METRICS_BUFFER_SIZE - 1) (concat (exposition v v' (metrics_fill_scheduler_snapshot s)))"
  shows "handle_metrics True v v' s = [http_header (length txt), txt] \<and> length (http_header (length txt)) < 256"
proof -
  have "length txt \<le> 262143" by (simp add: txt_def NVSHARE_METRICS_BUFFER_SIZE_def)
  then have h: "length (http_header (length txt)) < 256"
    using header_short [of "length txt"] show_nat_length [of 6 "length txt"] by simp
  have "txt \<noteq> []" using exposition_nonempty by (simp add: txt_def NVSHARE_METRICS_BUFFER_SIZE_def)
  moreover have "fold buf_append (exposition v v' (metrics_fill_scheduler_snapshot s)) (buf_init True NVSHARE_METRICS_BUFFER_SIZE)
      = \<lparr>b_data = Some txt, b_len = length txt, b_cap = NVSHARE_METRICS_BUFFER_SIZE\<rparr>"
    by (simp add: buf_init_buffered buf_appends) (simp add: buffered_def txt_def min.commute)
  ultimately show ?thesis using h by (simp add: handle_metrics_def)
qed



text \<open>(C35) The answer to a request for the metrics is a header, which fits its array and announces the exact
  length of the body, and a body that is the complete text of all metrics cut at 262143 characters.
  When nothing is cut, it has a line with the number of running clients of every GPU in the snapshot.\<close>

theorem metrics_response_exact:
  assumes "strncmp_eq (cstr request) ''GET /metrics'' 12"
  shows "\<exists>body. handle_connection True v v' s (Some request) = [http_header (length body), body]
    \<and> length (http_header (length body)) < 256
    \<and> body = take 262143 (concat (exposition v v' (metrics_fill_scheduler_snapshot s)))
    \<and> (length (concat (exposition v v' (metrics_fill_scheduler_snapshot s))) \<le> 262143
       \<longrightarrow> (\<forall>x \<in> set (sn_contexts (metrics_fill_scheduler_snapshot s)). \<exists>pre post.
             body = pre @ sample ''nvshare_scheduler_running_clients''
               [(''gpu_uuid'', xs_uuid x), (''gpu_index'', show_int (xs_gpu_index x))] (show_nat (xs_running_count x)) @ post))"
proof -
  let ?snap = "metrics_fill_scheduler_snapshot s"
  let ?txts = "exposition v v' ?snap"
  let ?body = "take 262143 (concat ?txts)"
  have sz: "NVSHARE_METRICS_BUFFER_SIZE - 1 = 262143" by (simp add: NVSHARE_METRICS_BUFFER_SIZE_def)
  have "\<exists>pre post. concat ?txts = pre @ sample ''nvshare_scheduler_running_clients''
      [(''gpu_uuid'', xs_uuid x), (''gpu_index'', show_int (xs_gpu_index x))] (show_nat (xs_running_count x)) @ post"
    if "x \<in> set (sn_contexts ?snap)" for x
    by (rule concat_infix) (use that in \<open>simp add: exposition_def format_scheduler_metrics_def gauge_def context_labels_def Let_def\<close>)
  moreover have "handle_connection True v v' s (Some request) = [http_header (length ?body), ?body]"
    "length (http_header (length ?body)) < 256"
    using assms handle_metrics_eq [of v v' s] sz by (simp_all add: handle_connection_def)
  ultimately show ?thesis by (intro exI [of _ ?body]) simp
qed

theorem metrics_response_exact_witness:
  "\<exists>body. handle_connection True nvml_zero nvml_zero (demo SCHED_MODE_AUTO [2] [3] [1] 4000) (Some ''GET /metrics HTTP/1.1'')
     = [http_header (length body), body]"
  using metrics_response_exact [of "''GET /metrics HTTP/1.1''" nvml_zero nvml_zero "demo SCHED_MODE_AUTO [2] [3] [1] 4000"]
  by (auto simp: strncmp_eq_def cstr_def)

end
