(* ===== verification/CFloat.thy ===== *)
theory CFloat
  imports Strtod
begin

text \<open>
  Arithmetic on doubles as the formatter of src/snprintf.c uses it: every operation rounds the exact
  result to nearest, ties to even. As in \<open>Strtod\<close> the exponent is not bounded; the formatter scales finite
  values towards one, where no result overflows or loses digits at the lower end of the range. The sign
  of a zero result is not kept, since nothing depends on it.
\<close>

fun frac :: "double \<Rightarrow> int \<times> nat" where
  "frac (Fin neg m e) = ((if neg then -1 else 1) * int (m * 2 ^ nat e), 2 ^ nat (- e))"
| "frac _ = (0, 1)"

definition of_frac :: "int \<Rightarrow> nat \<Rightarrow> double" where
  "of_frac n d = to_double (n < 0) (nat \<bar>n\<bar>) d"

fun negative :: "double \<Rightarrow> bool" where
  "negative (Fin neg m e) = (neg \<and> m \<noteq> 0)"
| "negative (Inf neg) = neg"
| "negative NaN = False"

fun zero :: "double \<Rightarrow> bool" where
  "zero (Fin neg m e) = (m = 0)"
| "zero _ = False"

definition finite_dbl :: "double \<Rightarrow> bool" where
  "finite_dbl x = (case x of Fin _ _ _ \<Rightarrow> True | _ \<Rightarrow> False)"

definition dbl_neg :: "double \<Rightarrow> double" where
  "dbl_neg x = (case x of NaN \<Rightarrow> NaN | Inf neg \<Rightarrow> Inf (\<not> neg) | Fin neg m e \<Rightarrow> Fin (\<not> neg) m e)"

definition dbl_add :: "double \<Rightarrow> double \<Rightarrow> double" where
  "dbl_add x y =
     (if x = NaN \<or> y = NaN then NaN
      else if finite_dbl x \<and> finite_dbl y
           then (case (frac x, frac y) of ((a, b), (c, d)) \<Rightarrow> of_frac (a * int d + c * int b) (b * d))
      else if finite_dbl y \<or> \<not> finite_dbl x \<and> negative x = negative y then x
      else if finite_dbl x then y else NaN)"

definition dbl_sub :: "double \<Rightarrow> double \<Rightarrow> double" where
  "dbl_sub x y = dbl_add x (dbl_neg y)"

definition dbl_mul :: "double \<Rightarrow> double \<Rightarrow> double" where
  "dbl_mul x y =
     (if x = NaN \<or> y = NaN then NaN
      else if finite_dbl x \<and> finite_dbl y
           then (case (frac x, frac y) of ((a, b), (c, d)) \<Rightarrow> of_frac (a * c) (b * d))
      else if zero x \<or> zero y then NaN else Inf (negative x \<noteq> negative y))"

definition dbl_div :: "double \<Rightarrow> double \<Rightarrow> double" where
  "dbl_div x y =
     (if x = NaN \<or> y = NaN \<or> zero x \<and> zero y \<or> \<not> finite_dbl x \<and> \<not> finite_dbl y then NaN
      else if \<not> finite_dbl x \<or> zero y then Inf (negative x \<noteq> negative y)
      else if \<not> finite_dbl y then Fin False 0 0
      else (case (frac x, frac y) of ((a, b), (c, d)) \<Rightarrow> of_frac (a * sgn c * int d) (b * nat \<bar>c\<bar>)))"

definition dbl_less :: "double \<Rightarrow> double \<Rightarrow> bool" where
  "dbl_less x y =
     (if x = NaN \<or> y = NaN then False
      else if finite_dbl x \<and> finite_dbl y
           then (case (frac x, frac y) of ((a, b), (c, d)) \<Rightarrow> a * int d < c * int b)
      else if finite_dbl x then \<not> negative y
      else negative x \<and> (finite_dbl y \<or> \<not> negative y))"

definition dbl_eq :: "double \<Rightarrow> double \<Rightarrow> bool" where
  "dbl_eq x y \<longleftrightarrow> x \<noteq> NaN \<and> y \<noteq> NaN \<and> \<not> dbl_less x y \<and> \<not> dbl_less y x"

definition dbl_le :: "double \<Rightarrow> double \<Rightarrow> bool" where
  "dbl_le x y \<longleftrightarrow> dbl_less x y \<or> dbl_eq x y"

definition dbl_of_uint :: "uint64 \<Rightarrow> double" where
  "dbl_of_uint w = to_double False (unat w) 1"

definition dbl_of_nat :: "nat \<Rightarrow> double" where
  "dbl_of_nat n = to_double False n 1"


section \<open>Whole numbers\<close>

lemma bitlen_double: "0 < n \<Longrightarrow> bitlen (2 * n) = Suc (bitlen n)"
  by (simp add: bitlen.simps [of "2 * n"])

lemma bitlen_shift: "0 < n \<Longrightarrow> bitlen (n * 2 ^ k) = bitlen n + k"
proof (induction k)
  case (Suc k)
  have "n * 2 ^ Suc k = 2 * (n * 2 ^ k)" by simp
  then show ?case using Suc bitlen_double [of "n * 2 ^ k"] by (metis add_Suc_right nat_0_less_mult_iff zero_less_numeral zero_less_power)
qed simp

lemma round_div_even_scale: "0 < k \<Longrightarrow> round_div_even (a * k) (b * k) = round_div_even a b"
  by (simp add: round_div_even_def Let_def mod_mult_mult2)

lemma to_double_scale:
  assumes "0 < b" shows "to_double neg (a * 2 ^ k) (b * 2 ^ k) = to_double neg a b"
proof (cases "a = 0")
  case False
  have s: "scaled (a * 2 ^ k) (b * 2 ^ k) e = (fst (scaled a b e) * 2 ^ k, snd (scaled a b e) * 2 ^ k)" for e
    by (simp add: scaled_def)
  have d: "(x * 2 ^ k) div (y * 2 ^ k) = x div y" for x y :: nat by simp
  show ?thesis using False assms
    by (simp add: to_double_def bitlen_shift s d round_div_even_scale Let_def case_prod_beta)
qed (simp add: to_double_def)

lemma of_frac_nat: "of_frac (int a) b = to_double False a b"
  by (simp add: of_frac_def)

lemma whole_frac:
  assumes "n < 2 ^ 53"
  obtains k where "frac (dbl_of_nat n) = (int (n * 2 ^ k), 2 ^ k)"
proof (cases "n = 0")
  case True
  then show thesis using that [of 0] by (simp add: dbl_of_nat_def to_double_def)
next
  case False
  then have l: "bitlen n \<le> 53" using bitlen_le [of n 53] assms by simp
  show thesis using that [of "53 - bitlen n"] to_double_whole [of n False] False assms l
    by (simp add: dbl_of_nat_def nat_diff_distrib')
qed

lemma dbl_of_nat_Fin: "\<exists>m e. dbl_of_nat n = Fin False m e \<and> (m = 0 \<longrightarrow> n = 0 \<or> 2 ^ 53 \<le> n)"
proof (cases "n = 0 \<or> 2 ^ 53 \<le> n")
  case True
  then show ?thesis by (simp add: dbl_of_nat_def to_double_def Let_def case_prod_beta)
next
  case False
  then show ?thesis using to_double_whole [of n False] by (simp add: dbl_of_nat_def)
qed

lemma dbl_of_nat_simps [simp]: "finite_dbl (dbl_of_nat n)" "dbl_of_nat n \<noteq> NaN" "\<not> negative (dbl_of_nat n)"
  using dbl_of_nat_Fin [of n] by (auto simp: finite_dbl_def)

lemma dbl_refl: "x \<noteq> NaN \<Longrightarrow> dbl_eq x x"
  by (cases x) (auto simp: dbl_eq_def dbl_less_def finite_dbl_def)

lemma dbl_mul_whole:
  assumes "a < 2 ^ 53" "b < 2 ^ 53" shows "dbl_mul (dbl_of_nat a) (dbl_of_nat b) = dbl_of_nat (a * b)"
proof -
  obtain i where i: "frac (dbl_of_nat a) = (int (a * 2 ^ i), 2 ^ i)" by (rule whole_frac [OF assms(1)])
  obtain j where j: "frac (dbl_of_nat b) = (int (b * 2 ^ j), 2 ^ j)" by (rule whole_frac [OF assms(2)])
  have p: "nat \<bar>int (a * 2 ^ i) * int (b * 2 ^ j)\<bar> = a * b * 2 ^ (i + j)" unfolding of_nat_mult [symmetric]
    by (simp only: abs_of_nat nat_int) (simp add: power_add algebra_simps)
  have n: "\<not> int (a * 2 ^ i) * int (b * 2 ^ j) < 0" by (metis of_nat_less_0_iff of_nat_mult)
  have "dbl_mul (dbl_of_nat a) (dbl_of_nat b) = of_frac (int (a * 2 ^ i) * int (b * 2 ^ j)) (2 ^ i * 2 ^ j)"
    by (simp only: dbl_mul_def dbl_of_nat_simps i j if_False simp_thms if_True prod.case)
  also have "\<dots> = to_double False (a * b * 2 ^ (i + j)) (1 * 2 ^ (i + j))"
    unfolding of_frac_def p using n by (simp only: power_add mult_1)
  finally show ?thesis using to_double_scale [of 1] by (simp add: dbl_of_nat_def)
qed

lemma dbl_sub_same: "finite_dbl x \<Longrightarrow> dbl_sub x x = dbl_of_nat 0"
  by (cases x) (simp_all add: dbl_sub_def dbl_add_def dbl_neg_def finite_dbl_def of_frac_def dbl_of_nat_def to_double_def)

lemma size_of_whole_dbl: "n < 2 ^ 53 \<Longrightarrow> size_of_double oob (dbl_of_nat n) = of_nat n"
proof -
  have "dbl_shift 0 d = d" for d by (cases d) simp_all
  then show "n < 2 ^ 53 \<Longrightarrow> ?thesis" using size_of_whole [of n 0 oob] by (simp add: dbl_of_nat_def)
qed

lemma dbl_of_uint_nat: "n < 2 ^ 64 \<Longrightarrow> dbl_of_uint (of_nat n) = dbl_of_nat n"
  by (simp add: dbl_of_uint_def dbl_of_nat_def unsigned_of_nat take_bit_nat_eq_self)

end
