(* ===== verification/Snprintf.thy ===== *)
theory Snprintf
  imports CFloat
begin

unbundle bit_operations_syntax

text \<open>
  The portable formatter of src/snprintf.c as xopt.c includes it: only HAVE_STDARG_H and HAVE_STDLIB_H are
  set, so the widest integers are those of \<^verbatim>\<open>long\<close>, \<^verbatim>\<open>long double\<close> is \<^verbatim>\<open>double\<close>, and the decimal point and the
  separator of digit groups are fixed. An integer argument is its 64-bit register; reading an argument
  that is missing or of another kind is undefined behaviour, the value \<open>None\<close>. The output length is a
  natural number (\<^verbatim>\<open>size_t\<close> does not wrap); integers of type int are unbounded in the padding computations.
\<close>

section \<open>Flags, states and output\<close>

datatype pflag = F_MINUS | F_PLUS | F_SPACE | F_NUM | F_ZERO | F_QUOTE | F_UP | F_UNSIGNED | F_TYPE_G | F_TYPE_E

datatype cflag = C_NONE | C_CHAR | C_SHORT | C_LONG | C_LLONG | C_LDOUBLE | C_SIZE | C_PTRDIFF | C_INTMAX

datatype pstate = S_DEFAULT | S_FLAGS | S_WIDTH | S_DOT | S_PRECISION | S_MOD | S_CONV

definition MAX_CONVERT_LENGTH :: nat where
  "MAX_CONVERT_LENGTH = 43"

definition INT_MAX :: int where
  "INT_MAX = 2 ^ 31 - 1"

record outst =
  o_str :: string
  o_len :: nat

definition OUTCHAR :: "nat \<Rightarrow> char \<Rightarrow> outst \<Rightarrow> outst" where
  "OUTCHAR sz ch o' =
     o'\<lparr>o_str := (if o_len o' + 1 < sz then (o_str o')[o_len o' := ch] else o_str o'), o_len := o_len o' + 1\<rparr>"

text \<open>The loops that print one character a number of times.\<close>

primrec out_n :: "nat \<Rightarrow> nat \<Rightarrow> char \<Rightarrow> outst \<Rightarrow> outst" where
  "out_n sz 0 ch o' = o'"
| "out_n sz (Suc n) ch o' = out_n sz n ch (OUTCHAR sz ch o')"

section \<open>Strings\<close>

fun strln_loop :: "bool \<Rightarrow> int \<Rightarrow> string \<Rightarrow> int \<Rightarrow> int" where
  "strln_loop noprecision precision [] strln = strln"
| "strln_loop noprecision precision (c # cs) strln =
     (if c \<noteq> NUL \<and> (noprecision \<or> strln < precision) then strln_loop noprecision precision cs (strln + 1) else strln)"

fun out_value :: "nat \<Rightarrow> bool \<Rightarrow> int \<Rightarrow> string \<Rightarrow> outst \<Rightarrow> outst" where
  "out_value sz noprecision precision [] o' = o'"
| "out_value sz noprecision precision (c # cs) o' =
     (if c \<noteq> NUL \<and> (noprecision \<or> precision > 0)
      then out_value sz noprecision (precision - 1) cs (OUTCHAR sz c o') else o')"

definition fmtstr :: "nat \<Rightarrow> string option \<Rightarrow> int \<Rightarrow> int \<Rightarrow> pflag set \<Rightarrow> outst \<Rightarrow> outst" where
  "fmtstr sz value width precision flags o' =
     (let noprecision = (precision = -1);
          v = (case value of None \<Rightarrow> ''(null)'' | Some v \<Rightarrow> v);
          strln = strln_loop noprecision precision v 0;
          pad = max 0 (width - strln);
          padlen = (if F_MINUS \<in> flags then - pad else pad)
      in out_n sz (nat (- padlen)) (CHR '' '') (out_value sz noprecision precision v (out_n sz (nat padlen) (CHR '' '') o')))"

section \<open>Integers\<close>

text \<open>The digits of a number, least first, as many as fit the buffer.\<close>

definition digit_table :: "bool \<Rightarrow> string" where
  "digit_table caps = (if caps then ''0123456789ABCDEF'' else ''0123456789abcdef'')"

function convert :: "nat \<Rightarrow> nat \<Rightarrow> nat \<Rightarrow> bool \<Rightarrow> string" where
  "convert value sz base caps =
     digit_table caps ! (value mod base)
       # (if value div base \<noteq> 0 \<and> 1 < sz then convert (value div base) (sz - 1) base caps else [])"
  by pat_completeness auto

termination
  by (relation "measure (\<lambda>(_, sz, _, _). sz)") auto

declare convert.simps [simp del]

definition getnumsep :: "int \<Rightarrow> int" where
  "getnumsep digits = (digits - (if digits mod 3 = 0 then 1 else 0)) div 3"

definition printsep :: "nat \<Rightarrow> outst \<Rightarrow> outst" where
  "printsep sz o' = OUTCHAR sz (CHR '','') o'"

primrec out_digits :: "nat \<Rightarrow> bool \<Rightarrow> string \<Rightarrow> nat \<Rightarrow> outst \<Rightarrow> outst" where
  "out_digits sz separators buf 0 o' = o'"
| "out_digits sz separators buf (Suc pos) o' =
     (let o1 = OUTCHAR sz (buf ! pos) o' in
      out_digits sz separators buf pos (if separators \<and> pos > 0 \<and> pos mod 3 = 0 then printsep sz o1 else o1))"

definition out_opt :: "nat \<Rightarrow> char option \<Rightarrow> outst \<Rightarrow> outst" where
  "out_opt sz c o' = (case c of None \<Rightarrow> o' | Some c \<Rightarrow> OUTCHAR sz c o')"

text \<open>The sign of a signed number.\<close>

definition sign_char :: "bool \<Rightarrow> pflag set \<Rightarrow> char option" where
  "sign_char neg flags =
     (if neg then Some (CHR ''-'') else if F_PLUS \<in> flags then Some (CHR ''+'')
      else if F_SPACE \<in> flags then Some (CHR '' '') else None)"

text \<open>The loops that print an integer once its layout is known.\<close>

definition out_int :: "nat \<Rightarrow> char option \<Rightarrow> char option \<Rightarrow> int \<Rightarrow> int \<Rightarrow> bool \<Rightarrow> string \<Rightarrow> outst \<Rightarrow> outst" where
  "out_int sz sign hexprefix zpadlen spadlen separators iconvert o' =
     (let o1 = out_opt sz sign (out_n sz (nat spadlen) (CHR '' '') o');
          o2 = (case hexprefix of None \<Rightarrow> o1 | Some x \<Rightarrow> OUTCHAR sz x (OUTCHAR sz (CHR ''0'') o1));
          o3 = out_digits sz separators iconvert (length iconvert) (out_n sz (nat zpadlen) (CHR ''0'') o2)
      in out_n sz (nat (- spadlen)) (CHR '' '') o3)"

definition fmtint :: "nat \<Rightarrow> uint64 \<Rightarrow> nat \<Rightarrow> int \<Rightarrow> int \<Rightarrow> pflag set \<Rightarrow> outst \<Rightarrow> outst" where
  "fmtint sz value base width precision flags o' =
     (let noprecision = (precision = -1);
          neg = (F_UNSIGNED \<notin> flags \<and> sint value < 0);
          uvalue = (if neg then - value else value);
          sign = (if F_UNSIGNED \<in> flags then None else sign_char neg flags);
          iconvert = convert (unat uvalue) MAX_CONVERT_LENGTH base (F_UP \<in> flags);
          pos = int (length iconvert);
          alt = (F_NUM \<in> flags \<and> uvalue \<noteq> 0);
          precision = (if alt \<and> base = 8 \<and> precision \<le> pos then pos + 1 else precision);
          hexprefix = (if alt \<and> base = 16 then Some (if F_UP \<in> flags then CHR ''X'' else CHR ''x'') else None);
          separators = (if F_QUOTE \<in> flags then getnumsep pos else 0);
          zpadlen = max 0 (precision - pos - separators);
          spadlen = max 0 (width - separators - max precision pos
            - (if sign \<noteq> None then 1 else 0) - (if hexprefix \<noteq> None then 2 else 0));
          zeros = (F_MINUS \<notin> flags \<and> F_ZERO \<in> flags \<and> noprecision);
          zpadlen = (if zeros then zpadlen + spadlen else zpadlen);
          spadlen = (if F_MINUS \<in> flags then - spadlen else if zeros then 0 else spadlen)
      in out_int sz sign hexprefix zpadlen spadlen (separators > 0) iconvert o')"

section \<open>Floating point\<close>

text \<open>\<open>oob\<close> is the result of converting a double that \<^verbatim>\<open>unsigned long\<close> cannot represent, which C leaves
  undefined.\<close>

abbreviation UINTMAX_MAX :: uint64 where
  "UINTMAX_MAX \<equiv> 0xFFFFFFFFFFFFFFFF"

definition cast :: "uint64 \<Rightarrow> double \<Rightarrow> uint64" where
  "cast oob value =
     (if size_of_double oob value \<ge> UINTMAX_MAX then UINTMAX_MAX
      else (let result = size_of_double oob value in if dbl_le (dbl_of_uint result) value then result else result - 1))"

definition myround :: "uint64 \<Rightarrow> double \<Rightarrow> uint64" where
  "myround oob value =
     (let intpart = cast oob value in
      if dbl_less (dbl_sub value (dbl_of_uint intpart)) (to_double False 1 2) then intpart else intpart + 1)"

definition mypow10 :: "int \<Rightarrow> double" where
  "mypow10 exponent =
     (let up = ((\<lambda>r. dbl_mul r (dbl_of_nat 10)) ^^ nat exponent) (dbl_of_nat 1) in
      ((\<lambda>r. dbl_div r (dbl_of_nat 10)) ^^ nat (- exponent)) up)"

text \<open>The two loops of \<open>getexponent\<close>.\<close>

function exp_down :: "double \<Rightarrow> int \<Rightarrow> double \<times> int" where
  "exp_down tmp exponent =
     (if dbl_less tmp (dbl_of_nat 1) \<and> dbl_less (dbl_of_nat 0) tmp
      then (if exponent - 1 > -99 then exp_down (dbl_mul tmp (dbl_of_nat 10)) (exponent - 1) else (tmp, exponent - 1))
      else (tmp, exponent))"
  by pat_completeness auto

termination
  by (relation "measure (\<lambda>(_, e). nat (e + 99))") auto

function exp_up :: "double \<Rightarrow> int \<Rightarrow> int" where
  "exp_up tmp exponent =
     (if dbl_le (dbl_of_nat 10) tmp
      then (if exponent + 1 < 99 then exp_up (dbl_div tmp (dbl_of_nat 10)) (exponent + 1) else exponent + 1)
      else exponent)"
  by pat_completeness auto

termination
  by (relation "measure (\<lambda>(_, e). nat (99 - e))") auto

declare exp_down.simps [simp del] exp_up.simps [simp del]

definition abs_dbl :: "double \<Rightarrow> double" where
  "abs_dbl v = (if dbl_le (dbl_of_nat 0) v then v else dbl_neg v)"

definition getexponent :: "double \<Rightarrow> int" where
  "getexponent value = (let (tmp, e) = exp_down (abs_dbl value) 0 in exp_up tmp e)"

definition ISNAN :: "double \<Rightarrow> bool" where
  "ISNAN x \<longleftrightarrow> \<not> dbl_eq x x"

definition ISINF :: "double \<Rightarrow> bool" where
  "ISINF x \<longleftrightarrow> \<not> dbl_eq x (dbl_of_nat 0) \<and> dbl_eq (dbl_add x x) x"

text \<open>The parts of a number: integer and fractional part, exponent, style and precision. \<open>None\<close> is the
  overflow exit. The label \<^verbatim>\<open>again\<close> is a recursive call, at most one, with the plain style.\<close>

record fparts =
  f_int :: uint64
  f_frac :: uint64
  f_exponent :: int
  f_estyle :: bool
  f_precision :: int

function flt_parts :: "uint64 \<Rightarrow> double \<Rightarrow> pflag set \<Rightarrow> bool \<Rightarrow> int \<Rightarrow> int \<Rightarrow> fparts option" where
  "flt_parts oob fvalue flags estyle exponent precision =
     (let precision = min precision 19;
          ufvalue = (if estyle then dbl_div (abs_dbl fvalue) (mypow10 exponent) else abs_dbl fvalue);
          intpart = cast oob ufvalue
      in if intpart = UINTMAX_MAX then None
         else (let mask = size_of_double oob (mypow10 precision);
                   fracpart = myround oob (dbl_mul (dbl_of_uint mask) (dbl_sub ufvalue (dbl_of_uint intpart)));
                   (intpart, fracpart, exponent) =
                     (if fracpart \<ge> mask
                      then (if estyle \<and> intpart + 1 = 10 then (1, 0, exponent + 1) else (intpart + 1, 0, exponent))
                      else (intpart, fracpart, exponent))
               in if F_TYPE_G \<in> flags \<and> estyle \<and> precision + 1 > exponent \<and> exponent \<ge> -4
                  then flt_parts oob fvalue flags False exponent (precision - exponent)
                  else Some \<lparr>f_int = intpart, f_frac = fracpart, f_exponent = exponent, f_estyle = estyle,
                             f_precision = precision\<rparr>))"
  by pat_completeness auto

termination
  by (relation "measure (\<lambda>(_, _, _, estyle, _, _). if estyle then 1 else 0)") auto

declare flt_parts.simps [simp del]

text \<open>The characters of the exponent, last one first.\<close>

definition exp_chars :: "bool \<Rightarrow> int \<Rightarrow> pflag set \<Rightarrow> string" where
  "exp_chars estyle exponent flags =
     (if estyle
      then (let ds = convert (nat \<bar>exponent\<bar>) 2 10 False in
            ds @ (if length ds = 1 then [CHR ''0''] else [])
               @ [if exponent < 0 then CHR ''-'' else CHR ''+'', if F_UP \<in> flags then CHR ''E'' else CHR ''e''])
      else [])"

text \<open>Printing the parts. \<open>omit\<close> is the number of trailing zeros to leave out.\<close>

definition out_parts :: "nat \<Rightarrow> double \<Rightarrow> int \<Rightarrow> pflag set \<Rightarrow> fparts \<Rightarrow> outst \<Rightarrow> outst" where
  "out_parts sz fvalue width flags fp o' =
     (let sign = sign_char (negative fvalue) flags;
          econvert = exp_chars (f_estyle fp) (f_exponent fp) flags;
          iconvert = convert (unat (f_int fp)) MAX_CONVERT_LENGTH 10 False;
          fconvert = (if f_frac fp \<noteq> 0 then convert (unat (f_frac fp)) MAX_CONVERT_LENGTH 10 False else []);
          ipos = int (length iconvert); epos = int (length econvert); fpos = int (length fconvert);
          omitzeros = (F_TYPE_G \<in> flags \<and> F_NUM \<notin> flags);
          omitcount = (if \<not> omitzeros then 0
            else if fpos > 0 then int (length (takeWhile (\<lambda>c. c = CHR ''0'') fconvert)) else f_precision fp);
          leadfraczeros = (if omitzeros \<and> fpos = 0 then 0 else f_precision fp - fpos);
          precision = f_precision fp - omitcount;
          emitpoint = (precision > 0 \<or> F_NUM \<in> flags);
          separators = (if F_QUOTE \<in> flags then getnumsep ipos else 0);
          pad = max 0 (width - ipos - epos - precision - separators - (if emitpoint then 1 else 0)
            - (if sign \<noteq> None then 1 else 0));
          zeros = (F_MINUS \<notin> flags \<and> F_ZERO \<in> flags \<and> pad > 0);
          padlen = (if F_MINUS \<in> flags then - pad else if zeros then 0 else pad);
          o1 = (if zeros then out_n sz (nat pad) (CHR ''0'') (out_opt sz sign o') else o');
          o2 = out_n sz (nat padlen) (CHR '' '') o1;
          o3 = (if zeros then o2 else out_opt sz sign o2);
          o4 = out_digits sz (separators > 0) iconvert (length iconvert) o3;
          o5 = (if emitpoint then OUTCHAR sz (CHR ''.'') o4 else o4);
          o6 = out_n sz (nat leadfraczeros) (CHR ''0'') o5;
          o7 = out_digits sz False (drop (nat omitcount) fconvert) (length fconvert - nat omitcount) o6;
          o8 = out_digits sz False econvert (length econvert) o7
      in out_n sz (nat (- padlen)) (CHR '' '') o8)"

definition infnan :: "double \<Rightarrow> pflag set \<Rightarrow> string option" where
  "infnan fvalue flags =
     (if ISNAN fvalue then Some (if F_UP \<in> flags then ''NAN'' else ''nan'')
      else if ISINF fvalue then Some (if F_UP \<in> flags then ''INF'' else ''inf'') else None)"

text \<open>The computation up to the parts: the exponent is needed for the styles of \<^verbatim>\<open>%e\<close> and \<^verbatim>\<open>%g\<close>.\<close>

definition flt_split :: "uint64 \<Rightarrow> double \<Rightarrow> int \<Rightarrow> pflag set \<Rightarrow> fparts option" where
  "flt_split oob fvalue precision flags =
     (let estyle = (F_TYPE_E \<in> flags \<or> F_TYPE_G \<in> flags) in
      flt_parts oob fvalue flags estyle (if estyle then getexponent fvalue else 0)
        (if F_TYPE_G \<in> flags then precision - 1 else precision))"

text \<open>The result \<open>None\<close> is the flag for overflow.\<close>

definition fmtflt :: "uint64 \<Rightarrow> nat \<Rightarrow> double \<Rightarrow> int \<Rightarrow> int \<Rightarrow> pflag set \<Rightarrow> outst \<Rightarrow> outst option" where
  "fmtflt oob sz fvalue width precision flags o' =
     (case infnan fvalue flags of
        Some t \<Rightarrow>
          (let iconvert = (case sign_char (negative fvalue) flags of None \<Rightarrow> [] | Some c \<Rightarrow> [c]) @ t in
           Some (fmtstr sz (Some iconvert) width (int (length iconvert)) flags o'))
      | None \<Rightarrow>
          map_option (\<lambda>fp. out_parts sz fvalue width flags fp o')
            (flt_split oob fvalue (if precision = -1 then 6 else precision) flags))"

section \<open>The interpreter of formats\<close>

datatype carg = IntArg uint64 | DoubleArg double | StrArg "string option" | PtrArg uint64

record pst =
  p_state :: pstate
  p_flags :: "pflag set"
  p_cflags :: cflag
  p_width :: int
  p_precision :: int
  p_overflow :: bool
  p_args :: "carg list"
  p_stores :: "(uint64 \<times> int) list"
  p_out :: outst

text \<open>\<^verbatim>\<open>va_arg\<close> at the types of the source.\<close>

fun va_int :: "carg list \<Rightarrow> (uint64 \<times> carg list) option" where
  "va_int (IntArg w # as) = Some (w, as)"
| "va_int _ = None"

fun va_double :: "carg list \<Rightarrow> (double \<times> carg list) option" where
  "va_double (DoubleArg d # as) = Some (d, as)"
| "va_double _ = None"

fun va_str :: "carg list \<Rightarrow> (string option \<times> carg list) option" where
  "va_str (StrArg v # as) = Some (v, as)"
| "va_str _ = None"

fun va_ptr :: "carg list \<Rightarrow> (uint64 \<times> carg list) option" where
  "va_ptr (PtrArg w # as) = Some (w, as)"
| "va_ptr _ = None"

definition to_int :: "uint64 \<Rightarrow> int" where
  "to_int w = signed_take_bit 31 (uint w)"

fun signed_arg :: "cflag \<Rightarrow> uint64 \<Rightarrow> uint64" where
  "signed_arg C_CHAR w = signed_take_bit 7 w"
| "signed_arg C_SHORT w = signed_take_bit 15 w"
| "signed_arg C_NONE w = signed_take_bit 31 w"
| "signed_arg C_LDOUBLE w = signed_take_bit 31 w"
| "signed_arg _ w = w"

fun unsigned_arg :: "cflag \<Rightarrow> uint64 \<Rightarrow> uint64" where
  "unsigned_arg C_CHAR w = take_bit 8 w"
| "unsigned_arg C_SHORT w = take_bit 16 w"
| "unsigned_arg C_NONE w = take_bit 32 w"
| "unsigned_arg C_LDOUBLE w = take_bit 32 w"
| "unsigned_arg _ w = w"

text \<open>What \<^verbatim>\<open>%n\<close> stores, by the width of its target.\<close>

definition stored :: "cflag \<Rightarrow> nat \<Rightarrow> int" where
  "stored c len = (case c of C_SIZE \<Rightarrow> int len | _ \<Rightarrow> sint (signed_arg c (of_nat len)))"

definition ISDIGIT :: "char \<Rightarrow> bool" where
  "ISDIGIT ch \<longleftrightarrow> 48 \<le> (of_char ch :: nat) \<and> (of_char ch :: nat) \<le> 57"

definition CHARTOINT :: "char \<Rightarrow> int" where
  "CHARTOINT ch = int (of_char ch) - 48"

text \<open>Each state of the loop: the rest of the format and the new state; \<open>ch\<close> is the current character, \<open>fs\<close>
  the format after it. An overflow leaves the loop.\<close>

definition flag_of :: "char \<Rightarrow> pflag option" where
  "flag_of ch = map_of [(CHR ''-'', F_MINUS), (CHR ''+'', F_PLUS), (CHR '' '', F_SPACE), (CHR ''#'', F_NUM),
     (CHR ''0'', F_ZERO), (CHR 0x27, F_QUOTE)] ch"

definition step_flags :: "char \<Rightarrow> string \<Rightarrow> pst \<Rightarrow> string \<times> pst" where
  "step_flags ch fs p =
     (case flag_of ch of
        Some f \<Rightarrow> (fs, p\<lparr>p_flags := insert f (p_flags p)\<rparr>)
      | None \<Rightarrow> (ch # fs, p\<lparr>p_state := S_WIDTH\<rparr>))"

definition step_width :: "char \<Rightarrow> string \<Rightarrow> pst \<Rightarrow> (string \<times> pst) option" where
  "step_width ch fs p =
     (if ISDIGIT ch then
        Some (if p_width p > (INT_MAX - CHARTOINT ch) div 10 then (fs, p\<lparr>p_overflow := True\<rparr>)
              else (fs, p\<lparr>p_width := 10 * p_width p + CHARTOINT ch\<rparr>))
      else if ch = CHR ''*'' then
        (case va_int (p_args p) of
           None \<Rightarrow> None
         | Some (w, as) \<Rightarrow>
             Some (fs, p\<lparr>p_args := as, p_width := \<bar>to_int w\<bar>, p_state := S_DOT,
               p_flags := (if to_int w < 0 then insert F_MINUS (p_flags p) else p_flags p)\<rparr>))
      else Some (ch # fs, p\<lparr>p_state := S_DOT\<rparr>))"

definition step_precision :: "char \<Rightarrow> string \<Rightarrow> pst \<Rightarrow> (string \<times> pst) option" where
  "step_precision ch fs p0 =
     (let p = (if p_precision p0 = -1 then p0\<lparr>p_precision := 0\<rparr> else p0) in
      if ISDIGIT ch then
        Some (if p_precision p > (INT_MAX - CHARTOINT ch) div 10 then (fs, p\<lparr>p_overflow := True\<rparr>)
              else (fs, p\<lparr>p_precision := 10 * p_precision p + CHARTOINT ch\<rparr>))
      else if ch = CHR ''*'' then
        (case va_int (p_args p) of
           None \<Rightarrow> None
         | Some (w, as) \<Rightarrow>
             Some (fs, p\<lparr>p_args := as, p_precision := (if to_int w < 0 then -1 else to_int w), p_state := S_MOD\<rparr>))
      else Some (ch # fs, p\<lparr>p_state := S_MOD\<rparr>))"

definition doubled :: "char \<Rightarrow> cflag \<Rightarrow> cflag \<Rightarrow> string \<Rightarrow> string \<times> cflag" where
  "doubled ch two one fs = (case fs of c # fs' \<Rightarrow> if c = ch then (fs', two) else (fs, one) | [] \<Rightarrow> (fs, one))"

definition step_mod :: "char \<Rightarrow> string \<Rightarrow> pst \<Rightarrow> string \<times> pst" where
  "step_mod ch fs p =
     (let (fs', c) = (if ch = CHR ''h'' then doubled (CHR ''h'') C_CHAR C_SHORT fs
                      else if ch = CHR ''l'' then doubled (CHR ''l'') C_LLONG C_LONG fs
                      else if ch = CHR ''L'' then (fs, C_LDOUBLE)
                      else if ch = CHR ''j'' then (fs, C_INTMAX)
                      else if ch = CHR ''t'' then (fs, C_PTRDIFF)
                      else if ch = CHR ''z'' then (fs, C_SIZE)
                      else (ch # fs, p_cflags p))
      in (fs', p\<lparr>p_cflags := c, p_state := S_CONV\<rparr>))"

text \<open>The conversions, each with the arguments it reads.\<close>

definition conv_signed :: "nat \<Rightarrow> pst \<Rightarrow> pst option" where
  "conv_signed sz p =
     (case va_int (p_args p) of
        None \<Rightarrow> None
      | Some (w, as) \<Rightarrow>
          Some (p\<lparr>p_args := as, p_out := fmtint sz (signed_arg (p_cflags p) w) 10 (p_width p) (p_precision p) (p_flags p) (p_out p)\<rparr>))"

definition conv_unsigned :: "nat \<Rightarrow> nat \<Rightarrow> pflag set \<Rightarrow> pst \<Rightarrow> pst option" where
  "conv_unsigned sz base flags p =
     (case va_int (p_args p) of
        None \<Rightarrow> None
      | Some (w, as) \<Rightarrow>
          Some (p\<lparr>p_args := as, p_out := fmtint sz (unsigned_arg (p_cflags p) w) base (p_width p) (p_precision p)
            (insert F_UNSIGNED flags) (p_out p)\<rparr>))"

definition conv_double :: "uint64 \<Rightarrow> nat \<Rightarrow> int \<Rightarrow> pflag set \<Rightarrow> pst \<Rightarrow> pst option" where
  "conv_double oob sz precision flags p =
     (case va_double (p_args p) of
        None \<Rightarrow> None
      | Some (d, as) \<Rightarrow>
          Some (case fmtflt oob sz d (p_width p) precision flags (p_out p) of
                  None \<Rightarrow> p\<lparr>p_args := as, p_overflow := True\<rparr>
                | Some o' \<Rightarrow> p\<lparr>p_args := as, p_out := o'\<rparr>))"

definition conv_pointer :: "nat \<Rightarrow> pst \<Rightarrow> pst option" where
  "conv_pointer sz p =
     (case va_ptr (p_args p) of
        None \<Rightarrow> None
      | Some (w, as) \<Rightarrow>
          Some (p\<lparr>p_args := as, p_out :=
            (if w = 0 then fmtstr sz (Some ''(nil)'') (p_width p) (-1) (p_flags p) (p_out p)
             else fmtint sz w 16 (p_width p) (p_precision p) ({F_NUM, F_UNSIGNED} \<union> p_flags p) (p_out p))\<rparr>))"


definition convert_arg :: "uint64 \<Rightarrow> nat \<Rightarrow> char \<Rightarrow> pst \<Rightarrow> pst option" where
  "convert_arg oob sz ch p =
     (let up = insert F_UP (p_flags p); out = (\<lambda>o'. p\<lparr>p_out := o'\<rparr>);
          one = (if p_precision p = 0 then 1 else p_precision p) in
      if ch = CHR ''d'' \<or> ch = CHR ''i'' then conv_signed sz p
      else if ch = CHR ''X'' then conv_unsigned sz 16 up p
      else if ch = CHR ''x'' then conv_unsigned sz 16 (p_flags p) p
      else if ch = CHR ''o'' then conv_unsigned sz 8 (p_flags p) p
      else if ch = CHR ''u'' then conv_unsigned sz 10 (p_flags p) p
      else if ch = CHR ''A'' \<or> ch = CHR ''F'' then conv_double oob sz (p_precision p) up p
      else if ch = CHR ''a'' \<or> ch = CHR ''f'' then conv_double oob sz (p_precision p) (p_flags p) p
      else if ch = CHR ''E'' then conv_double oob sz (p_precision p) (insert F_TYPE_E up) p
      else if ch = CHR ''e'' then conv_double oob sz (p_precision p) (insert F_TYPE_E (p_flags p)) p
      else if ch = CHR ''G'' then conv_double oob sz one (insert F_TYPE_G up) p
      else if ch = CHR ''g'' then conv_double oob sz one (insert F_TYPE_G (p_flags p)) p
      else if ch = CHR ''c'' then
        map_option (\<lambda>(w, as). p\<lparr>p_args := as, p_out := OUTCHAR sz (char_of (unat (take_bit 8 w))) (p_out p)\<rparr>) (va_int (p_args p))
      else if ch = CHR ''s'' then
        map_option (\<lambda>(v, as). p\<lparr>p_args := as, p_out := fmtstr sz v (p_width p) (p_precision p) (p_flags p) (p_out p)\<rparr>)
          (va_str (p_args p))
      else if ch = CHR ''p'' then conv_pointer sz p
      else if ch = CHR ''n'' then
        map_option (\<lambda>(w, as). p\<lparr>p_args := as, p_stores := (w, stored (p_cflags p) (o_len (p_out p))) # p_stores p\<rparr>)
          (va_ptr (p_args p))
      else if ch = CHR ''%'' then Some (out (OUTCHAR sz ch (p_out p)))
      else Some p)"

definition step_conv :: "uint64 \<Rightarrow> nat \<Rightarrow> char \<Rightarrow> string \<Rightarrow> pst \<Rightarrow> (string \<times> pst) option" where
  "step_conv oob sz ch fs p =
     map_option (\<lambda>q. (fs, if p_overflow q then q
       else q\<lparr>p_state := S_DEFAULT, p_cflags := C_NONE, p_flags := {}, p_width := 0, p_precision := -1\<rparr>))
       (convert_arg oob sz ch p)"

definition vs_step :: "uint64 \<Rightarrow> nat \<Rightarrow> char \<Rightarrow> string \<Rightarrow> pst \<Rightarrow> (string \<times> pst) option" where
  "vs_step oob sz ch fs p =
     (case p_state p of
        S_DEFAULT \<Rightarrow> Some (fs, if ch = CHR ''%'' then p\<lparr>p_state := S_FLAGS\<rparr> else p\<lparr>p_out := OUTCHAR sz ch (p_out p)\<rparr>)
      | S_FLAGS \<Rightarrow> Some (step_flags ch fs p)
      | S_WIDTH \<Rightarrow> step_width ch fs p
      | S_DOT \<Rightarrow> Some (if ch = CHR ''.'' then (fs, p\<lparr>p_state := S_PRECISION\<rparr>) else (ch # fs, p\<lparr>p_state := S_MOD\<rparr>))
      | S_PRECISION \<Rightarrow> step_precision ch fs p
      | S_MOD \<Rightarrow> Some (step_mod ch fs p)
      | S_CONV \<Rightarrow> step_conv oob sz ch fs p)"

text \<open>Every turn of the loop consumes a character or moves on to a later state of the same directive.\<close>

fun phase_rank :: "pstate \<Rightarrow> nat" where
  "phase_rank S_DEFAULT = 0"
| "phase_rank S_FLAGS = 6"
| "phase_rank S_WIDTH = 5"
| "phase_rank S_DOT = 4"
| "phase_rank S_PRECISION = 3"
| "phase_rank S_MOD = 2"
| "phase_rank S_CONV = 1"

definition turns_left :: "string \<Rightarrow> pst \<Rightarrow> nat" where
  "turns_left fs p = 7 * length fs + phase_rank (p_state p)"

lemma phase_rank_less: "phase_rank s < 7"
  by (cases s) simp_all

lemma doubled_rest: "doubled c two one fs = (fs', f) \<Longrightarrow> length fs' \<le> length fs"
  by (auto simp: doubled_def split: list.splits if_splits)

lemma step_conv_rest: "step_conv oob sz ch fs p = Some (fs', p') \<Longrightarrow> fs' = fs"
  by (auto simp: step_conv_def)

lemma step_mod_turns: "step_mod ch fs p = (fs', p') \<Longrightarrow> p_state p' = S_CONV \<and> length fs' \<le> Suc (length fs)"
  by (auto simp: step_mod_def split: prod.splits if_splits dest!: doubled_rest)

lemma vs_step_turns: "vs_step oob sz ch fs p = Some (fs', p') \<Longrightarrow> turns_left fs' p' < turns_left (ch # fs) p"
  using phase_rank_less [of "p_state p'"]
  by (cases "p_state p")
    (auto simp: vs_step_def step_flags_def step_width_def step_precision_def turns_left_def Let_def
      split: option.splits if_splits prod.splits dest!: step_conv_rest dest: step_mod_turns)

function vs_loop :: "uint64 \<Rightarrow> nat \<Rightarrow> string \<Rightarrow> pst \<Rightarrow> pst option" where
  "vs_loop oob sz [] p = Some p"
| "vs_loop oob sz (ch # fs) p =
     (if p_overflow p \<or> ch = NUL then Some p
      else (case vs_step oob sz ch fs p of None \<Rightarrow> None | Some (fs', p') \<Rightarrow> vs_loop oob sz fs' p'))"
  by pat_completeness auto

termination
  by (relation "measure (\<lambda>(_, _, fs, p). turns_left fs p)") (auto dest: vs_step_turns)

declare vs_loop.simps [simp del]

text \<open>The result of a call: the value returned, what became of the buffer, the stores of \<^verbatim>\<open>%n\<close>, and the error
  left in \<^verbatim>\<open>errno\<close>.\<close>

datatype perror = EOVERFLOW | ERANGE

record presult =
  r_ret :: int
  r_str :: string
  r_stores :: "(uint64 \<times> int) list"
  r_errno :: "perror option"

definition p_start :: "string \<Rightarrow> carg list \<Rightarrow> pst" where
  "p_start str args = \<lparr>p_state = S_DEFAULT, p_flags = {}, p_cflags = C_NONE, p_width = 0, p_precision = -1, p_overflow = False,
     p_args = args, p_stores = [], p_out = \<lparr>o_str = str, o_len = 0\<rparr>\<rparr>"

definition vs_finish :: "nat \<Rightarrow> pst \<Rightarrow> presult" where
  "vs_finish sz p =
     (let len = o_len (p_out p); s = o_str (p_out p);
          failed = (p_overflow p \<or> int len \<ge> INT_MAX)
      in \<lparr>r_ret = (if failed then -1 else int len),
          r_str = (if len < sz then s[len := NUL] else if sz > 0 then s[sz - 1 := NUL] else s),
          r_stores = p_stores p,
          r_errno = (if failed then Some (if p_overflow p then EOVERFLOW else ERANGE) else None)\<rparr>)"

text \<open>A null buffer is the argument \<open>None\<close>.\<close>

definition rpl_vsnprintf :: "uint64 \<Rightarrow> string option \<Rightarrow> nat \<Rightarrow> string \<Rightarrow> carg list \<Rightarrow> presult option" where
  "rpl_vsnprintf oob str sz format args =
     (let sz' = (if str = None then 0 else sz); buf = (case str of None \<Rightarrow> [] | Some b \<Rightarrow> b)
      in map_option (vs_finish sz') (vs_loop oob sz' format (p_start buf args)))"


section \<open>The other entry points\<close>

text \<open>They call \<^verbatim>\<open>vsnprintf\<close>, which xopt.c does not rename: it is the one of the C library, the argument \<open>vsn\<close>.
  \<open>junk\<close> is the contents of fresh memory by its size, if the allocation succeeds.\<close>

type_synonym formatter = "string option \<Rightarrow> nat \<Rightarrow> string \<Rightarrow> carg list \<Rightarrow> presult option"

primrec mymemcpy :: "nat \<Rightarrow> nat \<Rightarrow> string \<Rightarrow> string \<Rightarrow> string" where
  "mymemcpy 0 i src dst = dst"
| "mymemcpy (Suc len) i src dst = mymemcpy len (Suc i) src (dst[i := src ! i])"

definition rpl_vasprintf :: "formatter \<Rightarrow> (nat \<Rightarrow> string option) \<Rightarrow> string \<Rightarrow> carg list \<Rightarrow> (int \<times> string option) option" where
  "rpl_vasprintf vsn junk format args =
     (case vsn None 0 format args of
        None \<Rightarrow> None
      | Some r \<Rightarrow>
          if r_ret r < 0 then Some (-1, None)
          else (let sz = nat (r_ret r) + 1 in
                case junk sz of
                  None \<Rightarrow> Some (-1, None)
                | Some b \<Rightarrow> map_option (\<lambda>r'. (r_ret r', Some (r_str r'))) (vsn (Some b) sz format args)))"

definition rpl_snprintf :: "formatter \<Rightarrow> string option \<Rightarrow> nat \<Rightarrow> string \<Rightarrow> carg list \<Rightarrow> presult option" where
  "rpl_snprintf vsn str sz format args = vsn str sz format args"

definition rpl_asprintf :: "formatter \<Rightarrow> (nat \<Rightarrow> string option) \<Rightarrow> string \<Rightarrow> carg list \<Rightarrow> (int \<times> string option) option" where
  "rpl_asprintf vsn junk format args = rpl_vasprintf vsn junk format args"

end
