(* ===== verification/FormatProps.thy ===== *)
theory FormatProps
  imports Snprintf
begin

text \<open>
  Correctness of the formatter of src/snprintf.c: every call writes a text that does not depend on the
  buffer, cut to its size; integers, strings and whole doubles print as the reference says; and the
  interpreter expands a format made of literal text and directives directive by directive.
\<close>

section \<open>Emitting a text\<close>

definition emit :: "nat \<Rightarrow> string \<Rightarrow> outst \<Rightarrow> outst" where
  "emit sz t o' = fold (OUTCHAR sz) t o'"

lemma emit_simps [simp]:
  "emit sz [] o' = o'" "emit sz (c # t) o' = emit sz t (OUTCHAR sz c o')" "emit sz t (emit sz s o') = emit sz (s @ t) o'"
  by (simp_all add: emit_def)

lemma emit_len [simp]: "o_len (emit sz t o') = o_len o' + length t"
  by (induction t arbitrary: o') (simp_all add: OUTCHAR_def)

lemma emit_snoc: "emit sz (t @ [c]) o' = OUTCHAR sz c (emit sz t o')"
  by (simp add: emit_def)

text \<open>The buffer holds the text up to its last place, and is unchanged behind it.\<close>

lemma emit_str:
  assumes "sz \<le> length b"
  shows "o_str (emit sz t \<lparr>o_str = b, o_len = 0\<rparr>) = take (sz - 1) t @ drop (min (length t) (sz - 1)) b"
proof (induction t rule: rev_induct)
  case (snoc c t)
  let ?k = "length t"
  show ?case
  proof (cases "?k + 1 < sz")
    case True
    then have "drop ?k b = b ! ?k # drop (Suc ?k) b" using assms by (simp add: Cons_nth_drop_Suc)
    then show ?thesis using True snoc by (simp add: emit_snoc OUTCHAR_def list_update_append min_def)
  next
    case False
    then have "sz - 1 \<le> ?k" "sz - 1 \<le> Suc ?k" by auto
    then show ?thesis using False snoc by (simp add: emit_snoc OUTCHAR_def min_absorb2)
  qed
qed simp

lemma out_n_emit [simp]: "out_n sz n c o' = emit sz (replicate n c) o'"
  by (induction n arbitrary: o') simp_all

definition value_text :: "bool \<Rightarrow> int \<Rightarrow> string \<Rightarrow> string" where
  "value_text noprecision precision v =
     (let t = takeWhile (\<lambda>c. c \<noteq> NUL) v in if noprecision then t else take (nat precision) t)"

lemma value_text_simps [simp]:
  "value_text np pr [] = []"
  "value_text np pr (c # v) = (if c \<noteq> NUL \<and> (np \<or> pr > 0) then c # value_text np (pr - 1) v else [])"
proof -
  have "nat pr = Suc (nat (pr - 1))" if "pr > 0" using that by simp
  then show "value_text np pr (c # v) = (if c \<noteq> NUL \<and> (np \<or> pr > 0) then c # value_text np (pr - 1) v else [])"
    by (auto simp: value_text_def Let_def)
qed (simp add: value_text_def)

lemma out_value_emit [simp]: "out_value sz np pr v o' = emit sz (value_text np pr v) o'"
  by (induction v arbitrary: pr o') simp_all

lemma strln_text: "strln_loop np pr v n = n + int (length (value_text np (pr - n) v))"
  by (induction v arbitrary: n) (simp_all add: algebra_simps)

primrec digits_text :: "bool \<Rightarrow> string \<Rightarrow> nat \<Rightarrow> string" where
  "digits_text sep buf 0 = []"
| "digits_text sep buf (Suc p) = buf ! p # (if sep \<and> p > 0 \<and> p mod 3 = 0 then [CHR '','' ] else []) @ digits_text sep buf p"

lemma out_digits_emit [simp]: "out_digits sz sep buf n o' = emit sz (digits_text sep buf n) o'"
  by (induction n arbitrary: o') (simp_all add: printsep_def Let_def)

lemma out_opt_emit [simp]: "out_opt sz c o' = emit sz (case c of None \<Rightarrow> [] | Some c \<Rightarrow> [c]) o'"
  by (cases c) (simp_all add: out_opt_def)

text \<open>An output routine whose text does not depend on the buffer.\<close>

definition emits :: "(nat \<Rightarrow> outst \<Rightarrow> outst) \<Rightarrow> bool" where
  "emits f \<longleftrightarrow> (\<exists>t. \<forall>sz o'. f sz o' = emit sz t o')"

named_theorems emits_intros "output routines with a fixed text"

lemma emits_emit [emits_intros]: "emits (\<lambda>sz. emit sz t)"
  by (auto simp: emits_def)

lemma emits_id [emits_intros]: "emits (\<lambda>sz o'. o')"
  by (auto simp: emits_def intro: exI [of _ "[]"])

lemma emits_then: "emits f \<Longrightarrow> emits (\<lambda>sz o'. emit sz t (f sz o'))"
  by (force simp: emits_def)

lemma emits_char: "emits f \<Longrightarrow> emits (\<lambda>sz o'. OUTCHAR sz c (f sz o'))"
  using emits_then [of f "[c]"] by simp

lemmas emits_seq [emits_intros] = emits_then emits_char

lemma emits_if [emits_intros]: "(b \<Longrightarrow> emits f) \<Longrightarrow> (\<not> b \<Longrightarrow> emits g) \<Longrightarrow> emits (\<lambda>sz o'. if b then f sz o' else g sz o')"
  by (cases b) simp_all

lemma emits_case [emits_intros]:
  "(v = None \<Longrightarrow> emits f) \<Longrightarrow> (\<And>x. v = Some x \<Longrightarrow> emits (g x)) \<Longrightarrow>
    emits (\<lambda>sz o'. case v of None \<Rightarrow> f sz o' | Some x \<Rightarrow> g x sz o')"
  by (cases v) simp_all

lemma emits_fmtstr: "emits (\<lambda>sz. fmtstr sz v w pr f)"
  unfolding fmtstr_def Let_def out_n_emit out_value_emit by (intro emits_intros)

lemma emits_fmtint: "emits (\<lambda>sz. fmtint sz v base w pr f)"
  unfolding fmtint_def out_int_def Let_def out_n_emit out_digits_emit out_opt_emit by (intro emits_intros)

lemma emits_parts: "emits (\<lambda>sz. out_parts sz v w f fp)"
  unfolding out_parts_def Let_def out_n_emit out_digits_emit out_opt_emit by (intro emits_intros)

lemma fmtflt_emits:
  "(\<forall>sz o'. fmtflt oob sz v w pr f o' = None) \<or> (\<exists>t. \<forall>sz o'. fmtflt oob sz v w pr f o' = Some (emit sz t o'))"
proof (cases "infnan v f")
  case None
  show ?thesis
  proof (cases "flt_split oob v (if pr = -1 then 6 else pr) f")
    case (Some fp)
    then show ?thesis using \<open>infnan v f = None\<close> emits_parts [of v w f fp] by (auto simp: fmtflt_def emits_def)
  qed (simp add: fmtflt_def None)
next
  case (Some t)
  let ?t = "(case sign_char (negative v) f of None \<Rightarrow> [] | Some c \<Rightarrow> [c]) @ t"
  show ?thesis using Some emits_fmtstr [of "Some ?t" w "int (length ?t)" f] by (simp add: fmtflt_def emits_def Let_def)
qed

section \<open>The interpreter does not depend on the buffer\<close>

text \<open>A computation on the state whose outcome, apart from the buffer, depends only on the length so far.\<close>

definition uniform :: "nat \<Rightarrow> (nat \<Rightarrow> outst \<Rightarrow> pst option) \<Rightarrow> bool" where
  "uniform k F \<longleftrightarrow> (\<exists>r. \<forall>sz o'. o_len o' = k \<longrightarrow> F sz o' = map_option (\<lambda>(q, t). q\<lparr>p_out := emit sz t o'\<rparr>) r)"

lemma uniform_none: "uniform k (\<lambda>sz o'. None)"
  by (auto simp: uniform_def intro: exI [of _ None])

lemma uniform_some: "emits f \<Longrightarrow> uniform k (\<lambda>sz o'. Some (p\<lparr>p_out := f sz o'\<rparr>))"
proof -
  assume "emits f"
  then obtain t where "\<And>sz o'. f sz o' = emit sz t o'" by (auto simp: emits_def)
  then show ?thesis by (auto simp: uniform_def intro!: exI [of _ "Some (p, t)"])
qed

lemma uniform_keep: "uniform k (\<lambda>sz o'. Some (p\<lparr>p_out := o'\<rparr>))"
  by (rule uniform_some [OF emits_id])

lemma uniform_if: "(b \<Longrightarrow> uniform k F) \<Longrightarrow> (\<not> b \<Longrightarrow> uniform k G) \<Longrightarrow> uniform k (\<lambda>sz o'. if b then F sz o' else G sz o')"
  by (cases b) simp_all

lemma uniform_cong: "(\<And>sz o'. o_len o' = k \<Longrightarrow> F sz o' = G sz o') \<Longrightarrow> uniform k G \<Longrightarrow> uniform k F"
  by (simp add: uniform_def)

lemma uniform_read:
  "(\<And>w as. v = Some (w, as) \<Longrightarrow> uniform k (G w as)) \<Longrightarrow> uniform k (\<lambda>sz o'. case v of None \<Rightarrow> None | Some (w, as) \<Rightarrow> G w as sz o')"
  by (cases v) (auto simp: uniform_none)

lemma uniform_map:
  "(\<And>w as. v = Some (w, as) \<Longrightarrow> uniform k (\<lambda>sz o'. Some (G w as sz o'))) \<Longrightarrow>
    uniform k (\<lambda>sz o'. map_option (\<lambda>(w, as). G w as sz o') v)"
  by (cases v) (auto simp: uniform_none)

lemma uniform_eq: "emits f \<Longrightarrow> (\<And>sz o'. o_len o' = k \<Longrightarrow> F sz o' = Some (p\<lparr>p_out := f sz o'\<rparr>)) \<Longrightarrow> uniform k F"
  by (rule uniform_cong [OF _ uniform_some])

lemma uniform_signed: "uniform k (\<lambda>sz o'. conv_signed sz (p\<lparr>p_out := o'\<rparr>))"
  unfolding conv_signed_def by (simp, intro uniform_read, rule uniform_eq [OF emits_fmtint]) simp

lemma uniform_unsigned: "uniform k (\<lambda>sz o'. conv_unsigned sz base f (p\<lparr>p_out := o'\<rparr>))"
  unfolding conv_unsigned_def by (simp, intro uniform_read, rule uniform_eq [OF emits_fmtint]) simp

lemma uniform_double: "uniform k (\<lambda>sz o'. conv_double oob sz pr f (p\<lparr>p_out := o'\<rparr>))"
proof -
  have "uniform k (\<lambda>sz o'. Some (case fmtflt oob sz d (p_width p) pr f o' of
      None \<Rightarrow> p\<lparr>p_out := o', p_args := as, p_overflow := True\<rparr> | Some o1 \<Rightarrow> p\<lparr>p_out := o', p_args := as, p_out := o1\<rparr>))" for d as
    using fmtflt_emits [of oob d "p_width p" pr f]
  proof
    assume "\<forall>sz o'. fmtflt oob sz d (p_width p) pr f o' = None"
    then show ?thesis by (intro uniform_eq [OF emits_id, where p = "p\<lparr>p_args := as, p_overflow := True\<rparr>"]) simp
  next
    assume "\<exists>t. \<forall>sz o'. fmtflt oob sz d (p_width p) pr f o' = Some (emit sz t o')"
    then obtain t where "\<And>sz o'. fmtflt oob sz d (p_width p) pr f o' = Some (emit sz t o')" by blast
    then show ?thesis by (intro uniform_eq [OF emits_emit, where p = "p\<lparr>p_args := as\<rparr>"]) simp
  qed
  then show ?thesis unfolding conv_double_def by (simp, intro uniform_read) simp
qed

lemma uniform_pointer: "uniform k (\<lambda>sz o'. conv_pointer sz (p\<lparr>p_out := o'\<rparr>))"
proof -
  have "uniform k (\<lambda>sz o'. Some (p\<lparr>p_args := as, p_out := (if w = 0 then fmtstr sz (Some ''(nil)'') (p_width p) (-1) (p_flags p) o'
      else fmtint sz w 16 (p_width p) (p_precision p) (insert F_NUM (insert F_UNSIGNED (p_flags p))) o')\<rparr>))" for w as
    by (intro uniform_some emits_intros emits_fmtstr emits_fmtint)
  then show ?thesis unfolding conv_pointer_def by (simp, intro uniform_read) (simp cong: if_cong)
qed

lemma uniform_char:
  "uniform k (\<lambda>sz o'. map_option (\<lambda>(w, as). p\<lparr>p_args := as, p_out := OUTCHAR sz (g w) o'\<rparr>) v)"
  by (intro uniform_map, rule uniform_eq [OF emits_char [OF emits_id]]) simp

lemma uniform_string:
  "uniform k (\<lambda>sz o'. map_option (\<lambda>(x, as). p\<lparr>p_args := as, p_out := fmtstr sz x w pr f o'\<rparr>) v)"
  by (intro uniform_map, rule uniform_eq [OF emits_fmtstr]) simp

lemma uniform_store:
  "uniform k (\<lambda>sz o'. map_option (\<lambda>(w, as). p\<lparr>p_out := o', p_args := as, p_stores := (w, stored c (o_len o')) # l\<rparr>) v)"
proof (rule uniform_map)
  fix w as
  show "uniform k (\<lambda>sz o'. Some (p\<lparr>p_out := o', p_args := as, p_stores := (w, stored c (o_len o')) # l\<rparr>))"
    by (rule uniform_eq [OF emits_id, where p = "p\<lparr>p_args := as, p_stores := (w, stored c k) # l\<rparr>"]) simp
qed

lemma uniform_convert: "uniform k (\<lambda>sz o'. convert_arg oob sz ch (p\<lparr>p_out := o'\<rparr>))"
  unfolding convert_arg_def Let_def
  by (simp cong: if_cong split del: if_split, intro uniform_if uniform_signed uniform_unsigned uniform_double uniform_char uniform_string uniform_pointer
      uniform_store uniform_keep uniform_some [OF emits_char [OF emits_id]])

text \<open>One turn of the loop, and the loop.\<close>

lemma vs_step_uniform:
  "\<exists>r. \<forall>sz o'. o_len o' = k \<longrightarrow>
     vs_step oob sz ch fs (p\<lparr>p_out := o'\<rparr>) = map_option (\<lambda>(fs', q, t). (fs', q\<lparr>p_out := emit sz t o'\<rparr>)) r"
proof -
  obtain r where r: "\<And>sz o'. o_len o' = k \<Longrightarrow>
    convert_arg oob sz ch (p\<lparr>p_out := o'\<rparr>) = map_option (\<lambda>(q, t). q\<lparr>p_out := emit sz t o'\<rparr>) r"
    using uniform_convert [of k oob ch p] by (auto simp: uniform_def)
  let ?reset = "\<lambda>q. if p_overflow q then q
    else q\<lparr>p_state := S_DEFAULT, p_cflags := C_NONE, p_flags := {}, p_width := 0, p_precision := -1\<rparr>"
  show ?thesis
  proof (cases "p_state p")
    case S_DEFAULT
    show ?thesis using S_DEFAULT
      by (intro exI [of _ "Some (fs, if ch = CHR ''%'' then p\<lparr>p_state := S_FLAGS\<rparr> else p, if ch = CHR ''%'' then [] else [ch])"])
        (simp add: vs_step_def)
  next
    case S_CONV
    have "step_conv oob sz ch fs (p\<lparr>p_out := o'\<rparr>)
      = map_option (\<lambda>(fs', q, t). (fs', q\<lparr>p_out := emit sz t o'\<rparr>)) (map_option (\<lambda>(q, t). (fs, ?reset q, t)) r)"
      if "o_len o' = k" for sz o'
      using r [OF that, of sz] by (cases r) (auto simp: step_conv_def)
    then show ?thesis using S_CONV by (simp add: vs_step_def) blast
  next
    case S_FLAGS
    show ?thesis using S_FLAGS
      by (intro exI [of _ "Some (fst (step_flags ch fs p), snd (step_flags ch fs p), [])"])
        (simp add: vs_step_def step_flags_def split: option.splits)
  next
    case S_WIDTH
    show ?thesis using S_WIDTH
      by (intro exI [of _ "map_option (\<lambda>(fs', q). (fs', q, [])) (step_width ch fs p)"])
        (simp add: vs_step_def step_width_def split: option.splits)
  next
    case S_DOT
    show ?thesis using S_DOT
      by (intro exI [of _ "Some (if ch = CHR ''.'' then (fs, p\<lparr>p_state := S_PRECISION\<rparr>, []) else (ch # fs, p\<lparr>p_state := S_MOD\<rparr>, []))"])
        (simp add: vs_step_def)
  next
    case S_PRECISION
    show ?thesis using S_PRECISION
      by (intro exI [of _ "map_option (\<lambda>(fs', q). (fs', q, [])) (step_precision ch fs p)"])
        (simp add: vs_step_def step_precision_def Let_def split: option.splits)
  next
    case S_MOD
    show ?thesis using S_MOD
      by (intro exI [of _ "Some (fst (step_mod ch fs p), snd (step_mod ch fs p), [])"])
        (simp add: vs_step_def step_mod_def split: prod.splits)
  qed
qed

lemma vs_loop_uniform: "uniform k (\<lambda>sz o'. vs_loop oob sz fs (p\<lparr>p_out := o'\<rparr>))"
proof (induction "turns_left fs p" arbitrary: fs p k rule: less_induct)
  case less
  show ?case
  proof (cases fs)
    case Nil
    then show ?thesis using uniform_keep by (simp add: vs_loop.simps)
  next
    case (Cons ch rest)
    show ?thesis
    proof (cases "p_overflow p \<or> ch = NUL")
      case True
      then show ?thesis using uniform_keep by (simp add: Cons vs_loop.simps)
    next
      case False
      obtain r where r: "\<And>sz o'. o_len o' = k \<Longrightarrow>
        vs_step oob sz ch rest (p\<lparr>p_out := o'\<rparr>) = map_option (\<lambda>(fs', q, t). (fs', q\<lparr>p_out := emit sz t o'\<rparr>)) r"
        using vs_step_uniform [of k oob ch rest p] by blast
      show ?thesis
      proof (cases r)
        case None
        then show ?thesis using False r by (intro uniform_cong [OF _ uniform_none]) (simp add: Cons vs_loop.simps)
      next
        case (Some x)
        obtain fs' q t where x: "x = (fs', q, t)" by (cases x)
        have "turns_left fs' q < turns_left fs p"
          using vs_step_turns [OF r [of "\<lparr>o_str = [], o_len = k\<rparr>" 0, unfolded Some x, simplified]] Cons by (simp add: turns_left_def)
        from less [OF this, of "k + length t"] obtain r' where r': "\<And>sz o'. o_len o' = k + length t \<Longrightarrow>
          vs_loop oob sz fs' (q\<lparr>p_out := o'\<rparr>) = map_option (\<lambda>(q, t). q\<lparr>p_out := emit sz t o'\<rparr>) r'"
          by (auto simp: uniform_def)
        have "vs_loop oob sz fs (p\<lparr>p_out := o'\<rparr>)
            = map_option (\<lambda>(q, t). q\<lparr>p_out := emit sz t o'\<rparr>) (map_option (\<lambda>(q, s). (q, t @ s)) r')" if "o_len o' = k" for sz o'
          using False r [OF that, of sz] r' [of "emit sz t o'" sz] that Some x
          by (cases r') (auto simp: Cons vs_loop.simps)
        then show ?thesis unfolding uniform_def by blast
      qed
    qed
  qed
qed

text \<open>What a call leaves in its buffer: the text up to the last place, a terminator, and the old contents.\<close>

definition cut_to :: "nat \<Rightarrow> string \<Rightarrow> string \<Rightarrow> string" where
  "cut_to sz text b = (if sz = 0 then b else take (sz - 1) text @ NUL # drop (Suc (min (length text) (sz - 1))) b)"

lemma finish_cut:
  assumes "sz \<le> length b" "p_out p = emit sz t \<lparr>o_str = b, o_len = 0\<rparr>"
  shows "r_str (vs_finish sz p) = cut_to sz t b"
proof -
  have o: "o_len (p_out p) = length t" "o_str (p_out p) = take (sz - 1) t @ drop (min (length t) (sz - 1)) b"
    using emit_str [OF assms(1)] by (simp_all add: assms(2))
  let ?k = "min (length t) (sz - 1)"
  have "(take (sz - 1) t @ drop ?k b)[?k := NUL] = cut_to sz t b" if "0 < sz"
  proof -
    have "drop ?k b = b ! ?k # drop (Suc ?k) b" using that assms(1) by (intro Cons_nth_drop_Suc [symmetric]) linarith
    then show ?thesis using that by (simp add: cut_to_def list_update_append min.commute)
  qed
  then show ?thesis using o by (auto simp: vs_finish_def Let_def cut_to_def min_def split: if_splits)
qed

lemma vsnprintf_uniform:
  assumes "rpl_vsnprintf oob None n format args = Some r0"
  obtains out where
    "\<And>b sz. sz \<le> length b \<Longrightarrow> rpl_vsnprintf oob (Some b) sz format args = Some (r0\<lparr>r_str := cut_to sz out b\<rparr>)"
    "r_ret r0 \<ge> 0 \<Longrightarrow> r_ret r0 = int (length out)"
proof -
  obtain r where r: "\<And>sz o'. o_len o' = 0 \<Longrightarrow>
    vs_loop oob sz format ((p_start [] args)\<lparr>p_out := o'\<rparr>) = map_option (\<lambda>(q, t). q\<lparr>p_out := emit sz t o'\<rparr>) r"
    using vs_loop_uniform [of 0 oob format "p_start [] args"] by (auto simp: uniform_def)
  have start: "p_start b args = (p_start [] args)\<lparr>p_out := \<lparr>o_str = b, o_len = 0\<rparr>\<rparr>" for b by (simp add: p_start_def)
  have run: "vs_loop oob sz format (p_start b args) = map_option (\<lambda>(q, t). q\<lparr>p_out := emit sz t \<lparr>o_str = b, o_len = 0\<rparr>\<rparr>) r" for sz b
    using r [of "\<lparr>o_str = b, o_len = 0\<rparr>" sz] start [of b] by simp
  obtain q t where q: "r = Some (q, t)" and r0: "r0 = vs_finish 0 (q\<lparr>p_out := emit 0 t \<lparr>o_str = [], o_len = 0\<rparr>\<rparr>)"
    using assms run by (auto simp: rpl_vsnprintf_def)
  show thesis
  proof (rule that)
    fix b :: string and sz :: nat
    assume b: "sz \<le> length b"
    let ?p = "q\<lparr>p_out := emit sz t \<lparr>o_str = b, o_len = 0\<rparr>\<rparr>"
    have c: "r_str (vs_finish sz ?p) = cut_to sz t b" by (rule finish_cut [OF b]) simp
    have "vs_finish sz ?p = r0\<lparr>r_str := cut_to sz t b\<rparr>"
      by (rule presult.equality) (simp_all add: c, simp_all add: r0 vs_finish_def Let_def)
    then show "rpl_vsnprintf oob (Some b) sz format args = Some (r0\<lparr>r_str := cut_to sz t b\<rparr>)"
      using run by (simp add: rpl_vsnprintf_def q)
  next
    show "r_ret r0 \<ge> 0 \<Longrightarrow> r_ret r0 = int (length t)" by (simp add: r0 vs_finish_def Let_def split: if_splits)
  qed
qed

end
