(* ===== verification/FormatText.thy ===== *)
theory FormatText
  imports FormatProps
begin

text \<open>
  The texts that the C standard prescribes for strings, integers and doubles that are whole numbers, and
  proofs that the output routines of src/snprintf.c print them.
\<close>

datatype numconv = Dec | Uns | Oct | Hex | HexUp

section \<open>Texts\<close>

definition to_width :: "bool \<Rightarrow> nat \<Rightarrow> string \<Rightarrow> string" where
  "to_width left width s = (let pad = replicate (width - length s) (CHR '' '') in if left then s @ pad else pad @ s)"

definition string_ref :: "bool \<Rightarrow> nat \<Rightarrow> nat option \<Rightarrow> string option \<Rightarrow> string" where
  "string_ref left width prec v =
     (let s = (case v of None \<Rightarrow> ''(null)'' | Some s \<Rightarrow> s) in
      to_width left width (case prec of None \<Rightarrow> s | Some n \<Rightarrow> take n s))"

fun num_base :: "numconv \<Rightarrow> nat" where
  "num_base Dec = 10" | "num_base Uns = 10" | "num_base Oct = 8" | "num_base Hex = 16" | "num_base HexUp = 16"

definition toupper :: "char \<Rightarrow> char" where
  "toupper c = (let n = (of_char c :: nat) in if 97 \<le> n \<and> n \<le> 122 then char_of (n - 32) else c)"

text \<open>A number: the digits with the zeros that the precision asks for, the sign or prefix in front, and
  padding to the width with spaces or zeros.\<close>

definition number_digits :: "bool \<Rightarrow> nat option \<Rightarrow> numconv \<Rightarrow> nat \<Rightarrow> string" where
  "number_digits alt prec conv n =
     (let ds = show_base (num_base conv) n;
          up = (if conv = HexUp then map toupper ds else ds);
          wide = (case prec of None \<Rightarrow> up | Some k \<Rightarrow> replicate (k - length up) (CHR ''0'') @ up)
      in if alt \<and> conv = Oct \<and> hd wide \<noteq> CHR ''0'' then CHR ''0'' # wide else wide)"

definition number_prefix :: "pflag set \<Rightarrow> numconv \<Rightarrow> bool \<Rightarrow> nat \<Rightarrow> string" where
  "number_prefix flags conv neg n =
     (if conv = Dec then (if neg then ''-'' else if F_PLUS \<in> flags then ''+'' else if F_SPACE \<in> flags then '' '' else [])
      else if F_NUM \<in> flags \<and> n \<noteq> 0 then (if conv = Hex then ''0x'' else if conv = HexUp then ''0X'' else []) else [])"

definition number_ref :: "pflag set \<Rightarrow> nat \<Rightarrow> nat option \<Rightarrow> numconv \<Rightarrow> uint64 \<Rightarrow> string" where
  "number_ref flags width prec conv w =
     (let neg = (conv = Dec \<and> sint w < 0);
          n = (if conv = Dec then nat \<bar>sint w\<bar> else unat w);
          ds = number_digits (F_NUM \<in> flags) prec conv n; pre = number_prefix flags conv neg n
      in if F_MINUS \<notin> flags \<and> F_ZERO \<in> flags \<and> prec = None
         then pre @ replicate (width - length pre - length ds) (CHR ''0'') @ ds
         else to_width (F_MINUS \<in> flags) width (pre @ ds))"

section \<open>Digits\<close>

lemma digit_table_chars: "digit_table False = map digit_char [0..<16]" "digit_table True = map (toupper \<circ> digit_char) [0..<16]"
  by (simp_all add: digit_table_def digit_char_def toupper_def upt_rec of_char_of char_of_def Let_def bit_0)

lemma digit_table_nth: "d < 16 \<Longrightarrow> digit_table caps ! d = (if caps then toupper else id) (digit_char d)"
  by (cases caps) (simp_all only: digit_table_chars, simp_all)

lemma convert_show:
  assumes "2 \<le> b" "b \<le> 16" "0 < sz" "n < b ^ sz"
  shows "rev (convert n sz b caps) = map (if caps then toupper else id) (show_base b n)"
  using assms(3,4)
proof (induction sz arbitrary: n)
  case (Suc sz)
  have d: "n mod b < 16" using assms(1,2) mod_less_divisor [of b n] by linarith
  show ?case
  proof (cases "n < b")
    case True
    then show ?thesis using d by (simp add: convert.simps [of n] show_base.simps [of b n] digit_table_nth)
  next
    case False
    then have q: "n div b \<noteq> 0" using assms(1) by (simp add: div_eq_0_iff)
    have "n div b < b ^ sz" using Suc.prems(2) by (simp add: less_mult_imp_div_less mult.commute)
    moreover from this q have "0 < sz" by (cases sz) auto
    ultimately show ?thesis
      using Suc.IH q False assms(1) d by (simp add: convert.simps [of n] show_base.simps [of b n] digit_table_nth)
  qed
qed simp

lemma digits_rev: "digits_text False buf (length buf) = rev buf"
proof -
  have "n \<le> length buf \<Longrightarrow> digits_text False buf n = rev (take n buf)" for n
    by (induction n) (simp_all add: take_Suc_conv_app_nth)
  then show ?thesis by simp
qed


lemma show_base_lead:
  assumes "2 \<le> b" "b \<le> 16" "0 < n" shows "hd (show_base b n) \<noteq> CHR ''0''"
  using assms(3)
proof (induction n rule: less_induct)
  case (less n)
  have z: "digit_char d = CHR ''0'' \<longleftrightarrow> d = 0" if "d < 16" for d
  proof
    assume "digit_char d = CHR ''0''"
    then have "digit_of (digit_char d) = digit_of (CHR ''0'')" by simp
    then show "d = 0" using that by (simp add: digit_of_def [of "CHR ''0''"])
  qed (simp add: digit_char_def char_of_def bit_0)
  show ?case
  proof (cases "n < b")
    case True
    then show ?thesis using less.prems assms(2) z by (simp add: show_base.simps [of b n])
  next
    case False
    then have "0 < n div b" "n div b < n" using assms(1) by (simp_all add: div_greater_zero_iff)
    from less.IH [OF this(2,1)] show ?thesis
      using False assms(1,2) show_base_digits [of b "n div b"] by (simp add: show_base.simps [of b n])
  qed
qed

section \<open>Numbers\<close>

lemma out_int_emit: "out_int sz sign hx z s sep buf o' =
  emit sz (replicate (nat s) (CHR '' '') @ (case sign of None \<Rightarrow> [] | Some c \<Rightarrow> [c]) @ (case hx of None \<Rightarrow> [] | Some x \<Rightarrow> [CHR ''0'', x])
    @ replicate (nat z) (CHR ''0'') @ digits_text sep buf (length buf) @ replicate (nat (- s)) (CHR '' '')) o'"
  by (cases hx; cases sign) (simp_all add: out_int_def Let_def emit_def del: emit_simps)

text \<open>The flags that the interpreter hands to \<open>fmtint\<close>.\<close>

definition conv_flags :: "numconv \<Rightarrow> pflag set \<Rightarrow> pflag set" where
  "conv_flags conv flags = (if conv = Dec then flags else insert F_UNSIGNED (if conv = HexUp then insert F_UP flags else flags))"

definition prec_arg :: "nat option \<Rightarrow> int" where
  "prec_arg prec = (case prec of None \<Rightarrow> -1 | Some k \<Rightarrow> int k)"

definition plain_flags :: "pflag set" where
  "plain_flags = {F_MINUS, F_PLUS, F_SPACE, F_NUM, F_ZERO}"

text \<open>The digits: what the precision adds, and the zero that the alternative form of octal numbers needs.\<close>

definition wide_prec :: "bool \<Rightarrow> nat option \<Rightarrow> numconv \<Rightarrow> nat \<Rightarrow> int \<Rightarrow> int" where
  "wide_prec alt prec conv n pos = (if alt \<and> n \<noteq> 0 \<and> conv = Oct \<and> prec_arg prec \<le> pos then pos + 1 else prec_arg prec)"

lemma number_digits_layout:
  fixes alt prec conv n
  defines "up \<equiv> map (if conv = HexUp then toupper else id) (show_base (num_base conv) n)"
  defines "pr \<equiv> wide_prec alt prec conv n (int (length up))"
  assumes "n = 0 \<longrightarrow> prec \<noteq> Some 0"
  shows "number_digits alt prec conv n = replicate (nat (pr - int (length up))) (CHR ''0'') @ up"
    "int (length (number_digits alt prec conv n)) = max pr (int (length up))"
proof -
  have b: "2 \<le> num_base conv" "num_base conv \<le> 16" by (cases conv; simp)+
  have ne: "up \<noteq> []" using show_base_digits [of "num_base conv" n] b by (simp add: up_def)
  have h: "hd up \<noteq> CHR ''0''" if "conv = Oct" "n \<noteq> 0" using show_base_lead [of 8 n] that by (simp add: up_def)
  have z: "up = ''0''" if "n = 0" "conv = Oct"
    using that by (simp add: up_def show_base.simps [of 8 0] digit_char_def char_of_def bit_0)
  have up: "(if conv = HexUp then map toupper (show_base (num_base conv) n) else show_base (num_base conv) n) = up"
    by (simp add: up_def)
  have hr: "hd (replicate k (CHR ''0'') @ xs) = (if k = 0 then hd xs else CHR ''0'')" for k xs by (cases k) simp_all
  show *: "number_digits alt prec conv n = replicate (nat (pr - int (length up))) (CHR ''0'') @ up"
    using h z up ne by (auto simp: number_digits_def pr_def wide_prec_def prec_arg_def Let_def hr nat_diff_distrib' split: option.splits)
  show "int (length (number_digits alt prec conv n)) = max pr (int (length up))"
    unfolding * by simp
qed


lemma uint_mod_sint: "uint (word_of_int i :: uint64) = i mod 2 ^ 64"
  using uint_word_of_int [of i, where 'a = 64] by simp

lemma magnitude: "unat (if sint w < 0 then - w else w) = nat \<bar>sint w\<bar>" for w :: uint64
proof -
  have r: "- (2 ^ 63) \<le> sint w" "sint w < 2 ^ 63" using sint_ge [of w] sint_lt [of w] by simp_all
  have "uint (if sint w < 0 then - w else w) = \<bar>sint w\<bar> mod 2 ^ 64" 
    using uint_mod_sint [of "sint w"] uint_mod_sint [of "- sint w"] by simp
  also have "\<dots> = \<bar>sint w\<bar>" using r by (intro mod_pos_pos_trivial) auto
  finally show ?thesis by (simp add: unat_eq_nat_uint)
qed


lemma conv_flags_iff:
  assumes "flags \<subseteq> plain_flags"
  shows "F_UNSIGNED \<in> conv_flags conv flags \<longleftrightarrow> conv \<noteq> Dec" "F_UP \<in> conv_flags conv flags \<longleftrightarrow> conv = HexUp"
    "F_QUOTE \<notin> conv_flags conv flags" "F_MINUS \<in> conv_flags conv flags \<longleftrightarrow> F_MINUS \<in> flags"
    "F_PLUS \<in> conv_flags conv flags \<longleftrightarrow> F_PLUS \<in> flags" "F_SPACE \<in> conv_flags conv flags \<longleftrightarrow> F_SPACE \<in> flags"
    "F_NUM \<in> conv_flags conv flags \<longleftrightarrow> F_NUM \<in> flags" "F_ZERO \<in> conv_flags conv flags \<longleftrightarrow> F_ZERO \<in> flags"
  using assms by (auto simp: conv_flags_def plain_flags_def)

lemma num_base_iff: "num_base conv = 8 \<longleftrightarrow> conv = Oct" "num_base conv = 16 \<longleftrightarrow> conv = Hex \<or> conv = HexUp"
  by (cases conv; simp)+

text \<open>The magnitude of an argument and whether a minus sign is printed.\<close>

definition mag_of :: "numconv \<Rightarrow> uint64 \<Rightarrow> nat" where
  "mag_of conv w = (if conv = Dec then nat \<bar>sint w\<bar> else unat w)"

lemma convert_digits:
  "rev (convert (mag_of conv w) MAX_CONVERT_LENGTH (num_base conv) (conv = HexUp))
     = map (if conv = HexUp then toupper else id) (show_base (num_base conv) (mag_of conv w))"
proof (rule convert_show)
  show "2 \<le> num_base conv" "num_base conv \<le> 16" by (cases conv; simp)+
  have "unat v < 2 ^ LENGTH(64)" for v :: uint64 by (rule unsigned_less)
  then have "unat v < 2 ^ 64" for v :: uint64 by simp
  then have "mag_of conv w < 2 ^ 64" by (auto simp: mag_of_def simp flip: magnitude)
  also have "(2 ^ 64 :: nat) \<le> 8 ^ 43" by simp
  also have "(8 ^ 43 :: nat) \<le> num_base conv ^ 43" by (rule power_mono) (cases conv; simp)+
  finally show "mag_of conv w < num_base conv ^ MAX_CONVERT_LENGTH" by (simp add: MAX_CONVERT_LENGTH_def)
qed (simp add: MAX_CONVERT_LENGTH_def)

lemma layout_text:
  fixes Z S :: int and sign hx :: "char option"
  defines "pre \<equiv> (case sign of None \<Rightarrow> [] | Some c \<Rightarrow> [c]) @ (case hx of None \<Rightarrow> [] | Some x \<Rightarrow> [CHR ''0'', x])"
  assumes "0 \<le> Z" "0 \<le> S" "nat S = width - length pre - length ds"
    "ds = replicate (nat Z) (CHR ''0'') @ rev buf" "zeros \<Longrightarrow> \<not> left"
  shows "out_int sz sign hx (if zeros then Z + S else Z) (if left then - S else if zeros then 0 else S) False buf o'
    = emit sz (if zeros then pre @ replicate (width - length pre - length ds) (CHR ''0'') @ ds else to_width left width (pre @ ds)) o'"
proof -
  have r: "replicate (nat (Z + S)) (CHR ''0'') @ rev buf = replicate (nat S) (CHR ''0'') @ ds"
    using assms(2,3) by (simp add: assms(5) nat_add_distrib replicate_add [symmetric] add.commute)
  have r': "replicate (nat Z) (CHR ''0'') @ rev buf @ xs = ds @ xs" for xs by (simp add: assms(5))
  have p: "(case sign of None \<Rightarrow> [] | Some c \<Rightarrow> [c]) @ (case hx of None \<Rightarrow> [] | Some x \<Rightarrow> [CHR ''0'', x]) @ xs = pre @ xs" for xs
    by (simp add: pre_def)
  show ?thesis
    unfolding out_int_emit digits_rev p to_width_def
    using assms(3,4,6) r r' [of "[]"] by (cases zeros; cases left) (simp_all add: r')
qed

lemma fmtint_ref:
  assumes f: "flags \<subseteq> plain_flags" and z: "mag_of conv w = 0 \<longrightarrow> prec \<noteq> Some 0"
  shows "fmtint sz w (num_base conv) (int width) (prec_arg prec) (conv_flags conv flags) o'
    = emit sz (number_ref flags width prec conv w) o'"
proof -
  let ?n = "mag_of conv w" and ?u = "if conv = Dec \<and> sint w < 0 then - w else w"
  let ?ds = "number_digits (F_NUM \<in> flags) prec conv ?n"
  let ?pre = "number_prefix flags conv (conv = Dec \<and> sint w < 0) ?n"
  let ?up = "map (if conv = HexUp then toupper else id) (show_base (num_base conv) ?n)"
  let ?pr = "wide_prec (F_NUM \<in> flags) prec conv ?n (int (length ?up))"
  define sign where "sign = (if conv \<noteq> Dec then None else sign_char (conv = Dec \<and> sint w < 0) flags)"
  define hx where "hx = (if (F_NUM \<in> flags \<and> ?u \<noteq> 0) \<and> (conv = Hex \<or> conv = HexUp)
    then Some (if conv = HexUp then CHR ''X'' else CHR ''x'') else None)"
  have u: "unat ?u = ?n" using magnitude [of w] by (auto simp: mag_of_def)
  have u0: "?u = 0 \<longleftrightarrow> ?n = 0" unfolding u [symmetric] by (rule unat_eq_zero [symmetric])
  note c = convert_digits [of conv w]
  have len: "length (convert ?n MAX_CONVERT_LENGTH (num_base conv) (conv = HexUp)) = length ?up" using arg_cong [OF c, of length] by simp
  note d = number_digits_layout [OF z, of "F_NUM \<in> flags" conv]
  have pre: "?pre = (case sign of None \<Rightarrow> [] | Some c \<Rightarrow> [c]) @ (case hx of None \<Rightarrow> [] | Some x \<Rightarrow> [CHR ''0'', x])"
    using u0 by (cases conv) (simp_all add: sign_def hx_def number_prefix_def sign_char_def mag_of_def)
  have lp: "int (length ?pre) = (if sign \<noteq> None then 1 else 0) + (if hx \<noteq> None then 2 else 0)"
    unfolding pre by (simp split: option.splits)
  let ?sp = "max 0 (int width - max ?pr (int (length ?up)) - (if sign \<noteq> None then 1 else 0) - (if hx \<noteq> None then 2 else 0))"
  let ?zeros = "F_MINUS \<notin> flags \<and> F_ZERO \<in> flags \<and> prec = None"
  have "?sp = max 0 (int width - int (length ?ds) - int (length ?pre))" unfolding d(2) lp by (simp add: algebra_simps)
  then have sp: "nat ?sp = width - length ?pre - length ?ds" by simp
  have ds: "?ds = replicate (nat (max 0 (?pr - int (length ?up)))) (CHR ''0'')
      @ rev (convert ?n MAX_CONVERT_LENGTH (num_base conv) (conv = HexUp))"
    unfolding c d(1) by simp
  have nr: "number_ref flags width prec conv w = (if ?zeros then ?pre @ replicate (width - length ?pre - length ?ds) (CHR ''0'') @ ?ds
      else to_width (F_MINUS \<in> flags) width (?pre @ ?ds))"
    by (simp only: number_ref_def Let_def mag_of_def)
  have np: "prec_arg prec = -1 \<longleftrightarrow> prec = None" by (simp add: prec_arg_def split: option.splits)
  have sc: "sign_char b (conv_flags conv flags) = sign_char b flags" for b by (simp add: sign_char_def conv_flags_iff [OF f])
  have "fmtint sz w (num_base conv) (int width) (prec_arg prec) (conv_flags conv flags) o'
    = out_int sz sign hx (if ?zeros then max 0 (?pr - int (length ?up)) + ?sp else max 0 (?pr - int (length ?up)))
        (if F_MINUS \<in> flags then - ?sp else if ?zeros then 0 else ?sp) False
        (convert ?n MAX_CONVERT_LENGTH (num_base conv) (conv = HexUp)) o'"
    by (simp only: fmtint_def Let_def conv_flags_iff [OF f] num_base_iff not_not sc u len np u0 sign_def hx_def wide_prec_def conj_assoc
        if_False diff_zero less_irrefl)
  also have "\<dots> = emit sz (number_ref flags width prec conv w) o'"
    using layout_text [of "max 0 (?pr - int (length ?up))" ?sp width sign hx ?ds, folded pre, OF _ _ sp ds] by (simp only: nr) simp
  finally show ?thesis .
qed


section \<open>Strings\<close>

definition nul_free :: "string option \<Rightarrow> bool" where
  "nul_free v = (case v of None \<Rightarrow> True | Some s \<Rightarrow> NUL \<notin> set s)"

lemma fmtstr_ref:
  assumes "nul_free v"
  shows "fmtstr sz v (int width) (prec_arg prec) flags o' = emit sz (string_ref (F_MINUS \<in> flags) width prec v) o'"
proof -
  let ?s = "case v of None \<Rightarrow> ''(null)'' | Some s \<Rightarrow> s"
  let ?t = "case prec of None \<Rightarrow> ?s | Some n \<Rightarrow> take n ?s"
  have "takeWhile (\<lambda>c. c \<noteq> NUL) ?s = ?s" using assms by (cases v) (auto simp: nul_free_def takeWhile_eq_all_conv)
  then have t: "value_text (prec_arg prec = -1) (prec_arg prec) ?s = ?t"
    by (cases prec) (simp_all add: value_text_def prec_arg_def Let_def del: takeWhile_eq_all_conv)
  have "nat (max 0 (int width - int (length ?t))) = width - length ?t" by simp
  then show ?thesis
    by (simp add: fmtstr_def Let_def strln_text t string_ref_def to_width_def)
qed

section \<open>Whole doubles\<close>

lemma unat_small: "n < 2 ^ 53 \<Longrightarrow> unat (of_nat n :: uint64) = n"
  by (simp add: unsigned_of_nat take_bit_nat_eq_self)

lemma cast_whole: "n < 2 ^ 53 \<Longrightarrow> cast oob (dbl_of_nat n) = of_nat n"
proof -
  assume n: "n < 2 ^ 53"
  then have "\<not> of_nat n \<ge> (UINTMAX_MAX :: uint64)" using unat_small [OF n] by (simp add: word_le_nat_alt)
  then show ?thesis using n dbl_refl [of "dbl_of_nat n"]
    by (simp add: cast_def size_of_whole_dbl dbl_of_uint_nat dbl_le_def)
qed

lemma mypow10_whole: "p \<le> 15 \<Longrightarrow> mypow10 (int p) = dbl_of_nat (10 ^ p)"
proof -
  have "((\<lambda>r. dbl_mul r (dbl_of_nat 10)) ^^ p) (dbl_of_nat 1) = dbl_of_nat (10 ^ p)" if "p \<le> 15" for p
    using that
  proof (induction p)
    case (Suc p)
    have "(10::nat) ^ p \<le> 10 ^ 14" using Suc.prems by (intro power_increasing) simp_all
    then have "(10::nat) ^ p < 2 ^ 53" by simp
    then show ?case using Suc by (simp add: dbl_mul_whole mult.commute)
  qed simp
  then show "p \<le> 15 \<Longrightarrow> ?thesis" by (simp add: mypow10_def)
qed

lemma half: "to_double False 1 2 = Fin False (2 ^ 52) (- 53)"
proof -
  have "bitlen 2 = 2" by (simp add: bitlen.simps [of 2])
  then show ?thesis by (simp add: to_double_def scaled_def round_div_even_def)
qed

lemma dbl_zero: "dbl_of_nat 0 = Fin False 0 0"
  by (simp add: dbl_of_nat_def to_double_def)

lemma myround_zero: "myround oob (dbl_of_nat 0) = 0"
  using cast_whole [of 0 oob] dbl_sub_same [of "dbl_of_nat 0"] dbl_of_uint_nat [of 0]
  by (simp add: myround_def dbl_zero half [unfolded One_nat_def] dbl_less_def finite_dbl_def)

lemma parts_whole:
  assumes "n < 2 ^ 53" "p \<le> 15" "F_TYPE_G \<notin> flags"
  shows "flt_parts oob (dbl_of_nat n) flags False e (int p)
    = Some \<lparr>f_int = of_nat n, f_frac = 0, f_exponent = e, f_estyle = False, f_precision = int p\<rparr>"
proof -
  have m: "(10::nat) ^ p \<le> 10 ^ 15" using assms(2) by (intro power_increasing) simp_all
  then have mask: "size_of_double oob (mypow10 (int p)) = of_nat (10 ^ p)" "(10::nat) ^ p < 2 ^ 53"
    using mypow10_whole [OF assms(2)] size_of_whole_dbl [of "10 ^ p"] by simp_all
  have u: "unat (of_nat (10 ^ p) :: uint64) = 10 ^ p" "unat (of_nat n :: uint64) = n"
    by (rule unat_small [OF mask(2)], rule unat_small [OF assms(1)])
  obtain m' e' where me: "dbl_of_nat n = Fin False m' e'" using dbl_of_nat_Fin by blast
  have a: "abs_dbl (dbl_of_nat n) = dbl_of_nat n"
    unfolding me by (auto simp: abs_dbl_def dbl_le_def dbl_eq_def dbl_less_def dbl_zero finite_dbl_def mult_less_0_iff)
  have f: "myround oob (dbl_mul (dbl_of_uint (of_nat (10 ^ p))) (dbl_sub (dbl_of_nat n) (dbl_of_uint (of_nat n)))) = 0"
    using mask(2) assms(1) dbl_of_uint_nat [of "10 ^ p"] dbl_of_uint_nat [of n] dbl_sub_same [of "dbl_of_nat n"]
      dbl_mul_whole [of "10 ^ p" 0] myround_zero [of oob] by simp
  have big: "of_nat n \<noteq> (UINTMAX_MAX :: uint64)"
  proof
    assume "of_nat n = (UINTMAX_MAX :: uint64)"
    then have "unat (UINTMAX_MAX :: uint64) = n" using u(2) by simp
    then show False using assms(1) by simp
  qed
  show ?thesis
    using assms f big a mask(1) u(1) cast_whole [OF assms(1), of oob]
    by (subst flt_parts.simps) (simp add: Let_def word_le_nat_alt)
qed


lemma dbl_add_whole: "n < 2 ^ 53 \<Longrightarrow> dbl_add (dbl_of_nat n) (dbl_of_nat n) = dbl_of_nat (2 * n)"
proof -
  assume "n < 2 ^ 53"
  then obtain k where k: "frac (dbl_of_nat n) = (int (n * 2 ^ k), 2 ^ k)" by (rule whole_frac)
  have s: "int (n * 2 ^ k) * int (2 ^ k) + int (n * 2 ^ k) * int (2 ^ k) = int (2 * n * 2 ^ (k + k))"
    by (simp add: power_add algebra_simps)
  have "dbl_add (dbl_of_nat n) (dbl_of_nat n) = of_frac (int (2 * n * 2 ^ (k + k))) (1 * 2 ^ (k + k))"
    by (simp only: dbl_add_def dbl_of_nat_simps k if_False simp_thms if_True prod.case s power_add mult_1)
  then show ?thesis unfolding of_frac_nat using to_double_scale [of 1 False "2 * n" "k + k"] by (simp only: dbl_of_nat_def)
qed

lemma dbl_less_whole: "m < 2 ^ 53 \<Longrightarrow> n < 2 ^ 53 \<Longrightarrow> dbl_less (dbl_of_nat m) (dbl_of_nat n) \<longleftrightarrow> m < n"
proof -
  assume "m < 2 ^ 53" "n < 2 ^ 53"
  then obtain i j where "frac (dbl_of_nat m) = (int (m * 2 ^ i), 2 ^ i)" "frac (dbl_of_nat n) = (int (n * 2 ^ j), 2 ^ j)"
    by (metis whole_frac)
  moreover have "int (m * 2 ^ i) * int (2 ^ j) < int (n * 2 ^ j) * int (2 ^ i) \<longleftrightarrow> m < n"
    by (simp add: mult.assoc mult.commute [of "2 ^ i"])
  ultimately show ?thesis by (simp add: dbl_less_def)
qed

lemma not_infnan: "n < 2 ^ 52 \<Longrightarrow> infnan (dbl_of_nat n) flags = None"
  using dbl_refl [of "dbl_of_nat n"] dbl_less_whole [of n 0] dbl_less_whole [of 0 n] dbl_less_whole [of n "2 * n"] dbl_less_whole [of "2 * n" n]
  by (auto simp: infnan_def ISNAN_def ISINF_def dbl_add_whole dbl_eq_def)

definition decimals :: "nat \<Rightarrow> string" where
  "decimals p = (if p = 0 then [] else CHR ''.'' # replicate p (CHR ''0''))"

lemma fmtflt_whole:
  assumes n: "n < 2 ^ 52" and p: "p \<le> 15" and f: "flags \<subseteq> {F_MINUS}"
  shows "fmtflt oob sz (dbl_of_nat n) (int width) (int p) flags o'
    = Some (emit sz (to_width (F_MINUS \<in> flags) width (show_nat n @ decimals p)) o')"
proof -
  have g: "F_TYPE_G \<notin> flags" "F_TYPE_E \<notin> flags" "F_NUM \<notin> flags" "F_QUOTE \<notin> flags" "F_ZERO \<notin> flags" "F_PLUS \<notin> flags" "F_SPACE \<notin> flags"
    using f by auto
  have n53: "n < 2 ^ 53" using n by simp
  have "n < 10 ^ MAX_CONVERT_LENGTH" using n by (rule order_less_le_trans) (simp add: MAX_CONVERT_LENGTH_def)
  then have r: "rev (convert n MAX_CONVERT_LENGTH 10 False) = show_nat n"
    using convert_show [of 10 MAX_CONVERT_LENGTH n False] by (simp add: show_nat_def MAX_CONVERT_LENGTH_def)
  then have l: "length (convert n MAX_CONVERT_LENGTH 10 False) = length (show_nat n)" by (metis length_rev)
  have dt: "digits_text False (convert n MAX_CONVERT_LENGTH 10 False) (length (show_nat n)) = show_nat n"
    using digits_rev [of "convert n MAX_CONVERT_LENGTH 10 False"] r l by simp
  have fl: "flt_split oob (dbl_of_nat n) (int p) flags
      = Some \<lparr>f_int = of_nat n, f_frac = 0, f_exponent = 0, f_estyle = False, f_precision = int p\<rparr>"
    using parts_whole [OF n53 p g(1)] g by (simp add: flt_split_def)
  have sg: "sign_char False flags = None" using g by (simp add: sign_char_def)
  have w: "nat (max 0 (int width - int a)) = width - a" "nat (max 0 (int width - int a - int b - 1)) = width - Suc (a + b)" for a b
    by auto
  have out: "emit sz s (OUTCHAR sz c (emit sz t o')) = emit sz (t @ c # s) o'" for s c t by (simp add: emit_def)
  show ?thesis
    using g unat_small [OF n53]
    by (simp add: fmtflt_def not_infnan [OF n] fl out_parts_def sg exp_chars_def l dt to_width_def decimals_def Let_def out w)
qed

end
