(* ===== verification/FormatRef.thy ===== *)
theory FormatRef
  imports FormatText
begin

text \<open>
  A reference for formats: a format is a list of directives, each with the text that it prints
  according to the C standard, its spelling and its arguments. The formatter, given the spelling and the
  arguments of a list of directives, prints their texts one after the other.
\<close>

section \<open>Directives\<close>

datatype directive =
    Lit char
  | Percent
  | Chr char
  | Text "pflag list" nat "nat option" "string option"
  | StarText nat string
  | Number "pflag list" nat "nat option" cflag numconv uint64
  | Whole "pflag list" nat nat nat

section \<open>Spelling and arguments\<close>

definition flag_char :: "pflag \<Rightarrow> char" where
  "flag_char f = (case f of F_MINUS \<Rightarrow> CHR ''-'' | F_PLUS \<Rightarrow> CHR ''+'' | F_SPACE \<Rightarrow> CHR '' '' | F_NUM \<Rightarrow> CHR ''#'' | _ \<Rightarrow> CHR ''0'')"

fun mod_text :: "cflag \<Rightarrow> string" where
  "mod_text C_CHAR = ''hh''" | "mod_text C_SHORT = ''h''" | "mod_text C_LONG = ''l''" | "mod_text C_LLONG = ''ll''"
| "mod_text C_LDOUBLE = ''L''" | "mod_text C_SIZE = ''z''" | "mod_text C_PTRDIFF = ''t''" | "mod_text C_INTMAX = ''j''"
| "mod_text C_NONE = []"

fun conv_char :: "numconv \<Rightarrow> char" where
  "conv_char Dec = CHR ''d''" | "conv_char Uns = CHR ''u''" | "conv_char Oct = CHR ''o''" | "conv_char Hex = CHR ''x''"
| "conv_char HexUp = CHR ''X''"

definition width_text :: "nat \<Rightarrow> string" where
  "width_text w = (if w = 0 then [] else show_nat w)"

definition prec_text :: "nat option \<Rightarrow> string" where
  "prec_text prec = (case prec of None \<Rightarrow> [] | Some n \<Rightarrow> CHR ''.'' # show_nat n)"

definition spell :: "pflag list \<Rightarrow> nat \<Rightarrow> nat option \<Rightarrow> cflag \<Rightarrow> char \<Rightarrow> string" where
  "spell fl width prec c ch = CHR ''%'' # map flag_char fl @ width_text width @ prec_text prec @ mod_text c @ [ch]"

fun fmt_of :: "directive \<Rightarrow> string" where
  "fmt_of (Lit c) = [c]"
| "fmt_of Percent = ''%%''"
| "fmt_of (Chr c) = ''%c''"
| "fmt_of (Text fl w prec v) = spell fl w prec C_NONE (CHR ''s'')"
| "fmt_of (StarText n v) = ''%.*s''"
| "fmt_of (Number fl w prec c conv x) = spell fl w prec c (conv_char conv)"
| "fmt_of (Whole fl w p n) = spell fl w (Some p) C_NONE (CHR ''f'')"

fun args_of :: "directive \<Rightarrow> carg list" where
  "args_of (Chr c) = [IntArg (of_nat (of_char c))]"
| "args_of (Text fl w prec v) = [StrArg v]"
| "args_of (StarText n v) = [IntArg (of_nat n), StrArg (Some v)]"
| "args_of (Number fl w prec c conv x) = [IntArg x]"
| "args_of (Whole fl w p n) = [DoubleArg (dbl_of_nat n)]"
| "args_of _ = []"

definition narrowed :: "numconv \<Rightarrow> cflag \<Rightarrow> uint64 \<Rightarrow> uint64" where
  "narrowed conv c w = (if conv = Dec then signed_arg c w else unsigned_arg c w)"

fun text_of :: "directive \<Rightarrow> string" where
  "text_of (Lit c) = [c]"
| "text_of Percent = ''%''"
| "text_of (Chr c) = [c]"
| "text_of (Text fl w prec v) = string_ref (F_MINUS \<in> set fl) w prec v"
| "text_of (StarText n v) = take n v"
| "text_of (Number fl w prec c conv x) = number_ref (set fl) w prec conv (narrowed conv c x)"
| "text_of (Whole fl w p n) = to_width (F_MINUS \<in> set fl) w (show_nat n @ decimals p)"

definition in_int :: "nat \<Rightarrow> bool" where
  "in_int n \<longleftrightarrow> int n \<le> INT_MAX"

definition sizes_ok :: "nat \<Rightarrow> nat option \<Rightarrow> bool" where
  "sizes_ok w prec \<longleftrightarrow> in_int w \<and> (case prec of None \<Rightarrow> True | Some n \<Rightarrow> in_int n)"

fun directive_ok :: "directive \<Rightarrow> bool" where
  "directive_ok (Lit c) = (c \<noteq> CHR ''%'' \<and> c \<noteq> NUL)"
| "directive_ok (Text fl w prec v) = (set fl \<subseteq> plain_flags \<and> sizes_ok w prec \<and> nul_free v)"
| "directive_ok (StarText n v) = (in_int n \<and> NUL \<notin> set v)"
| "directive_ok (Number fl w prec c conv x) = (set fl \<subseteq> plain_flags \<and> sizes_ok w prec
     \<and> (mag_of conv (narrowed conv c x) = 0 \<longrightarrow> prec \<noteq> Some 0))"
| "directive_ok (Whole fl w p n) = (set fl \<subseteq> {F_MINUS} \<and> in_int w \<and> p \<le> 15 \<and> n < 2 ^ 52)"
| "directive_ok _ = True"


section \<open>Reading a directive\<close>

lemma vs_loop_step:
  "ch \<noteq> NUL \<Longrightarrow> \<not> p_overflow p \<Longrightarrow> vs_step oob sz ch fs p = Some (fs', p') \<Longrightarrow> vs_loop oob sz (ch # fs) p = vs_loop oob sz fs' p'"
  by (simp add: vs_loop.simps)

lemma flag_char_of: "f \<in> plain_flags \<Longrightarrow> flag_of (flag_char f) = Some f \<and> flag_char f \<noteq> NUL"
  by (auto simp: plain_flags_def flag_of_def flag_char_def)

lemma loop_flags:
  assumes "p_state p = S_FLAGS" "\<not> p_overflow p" "set fl \<subseteq> plain_flags" "flag_of c = None" "c \<noteq> NUL"
  shows "vs_loop oob sz (map flag_char fl @ c # r) p = vs_loop oob sz (c # r) (p\<lparr>p_flags := set fl \<union> p_flags p, p_state := S_WIDTH\<rparr>)"
  using assms
proof (induction fl arbitrary: p)
  case Nil
  then show ?case by (simp add: vs_loop_step vs_step_def step_flags_def)
next
  case (Cons f fl)
  have f: "flag_of (flag_char f) = Some f" "flag_char f \<noteq> NUL" using flag_char_of [of f] Cons.prems(3) by auto
  have "vs_loop oob sz (map flag_char (f # fl) @ c # r) p
      = vs_loop oob sz (map flag_char fl @ c # r) (p\<lparr>p_flags := insert f (p_flags p)\<rparr>)"
    using f Cons.prems by (simp add: vs_loop_step vs_step_def step_flags_def)
  then show ?case using Cons.IH [of "p\<lparr>p_flags := insert f (p_flags p)\<rparr>"] Cons.prems by simp
qed

text \<open>The value of a run of digits, as the states for width and precision accumulate it.\<close>

definition digits_acc :: "int \<Rightarrow> string \<Rightarrow> int" where
  "digits_acc a ds = foldl (\<lambda>a c. 10 * a + CHARTOINT c) a ds"

lemma digits_acc_simps [simp]: "digits_acc a [] = a" "digits_acc a (c # ds) = digits_acc (10 * a + CHARTOINT c) ds"
  by (simp_all add: digits_acc_def)

lemma isdigit_value: "ISDIGIT c \<Longrightarrow> 0 \<le> CHARTOINT c" "ISDIGIT c \<Longrightarrow> c \<noteq> NUL \<and> c \<noteq> CHR ''*''"
  by (auto simp: ISDIGIT_def CHARTOINT_def)

lemma digits_acc_ge: "list_all ISDIGIT ds \<Longrightarrow> 0 \<le> a \<Longrightarrow> a \<le> digits_acc a ds"
proof (induction ds arbitrary: a)
  case (Cons c ds)
  then have "10 * a + CHARTOINT c \<le> digits_acc (10 * a + CHARTOINT c) ds" using isdigit_value(1) [of c] by simp
  then show ?case using isdigit_value(1) [of c] Cons.prems by simp
qed simp

lemma no_overflow: "10 * a + d \<le> INT_MAX \<Longrightarrow> \<not> a > (INT_MAX - d) div 10"
  by linarith

lemma loop_width:
  assumes "p_state p = S_WIDTH" "\<not> p_overflow p" "list_all ISDIGIT ds" "digits_acc (p_width p) ds \<le> INT_MAX" "0 \<le> p_width p"
    "\<not> ISDIGIT c" "c \<noteq> CHR ''*''" "c \<noteq> NUL"
  shows "vs_loop oob sz (ds @ c # r) p = vs_loop oob sz (c # r) (p\<lparr>p_width := digits_acc (p_width p) ds, p_state := S_DOT\<rparr>)"
  using assms
proof (induction ds arbitrary: p)
  case Nil
  then show ?case by (simp add: vs_loop_step vs_step_def step_width_def)
next
  case (Cons d ds)
  let ?v = "10 * p_width p + CHARTOINT d"
  have d: "ISDIGIT d" "d \<noteq> NUL" "0 \<le> ?v" using Cons.prems isdigit_value by auto
  have "?v \<le> INT_MAX" using digits_acc_ge [of ds ?v] d Cons.prems by simp
  then have "vs_loop oob sz ((d # ds) @ c # r) p = vs_loop oob sz (ds @ c # r) (p\<lparr>p_width := ?v\<rparr>)"
    using d Cons.prems no_overflow by (simp add: vs_loop_step vs_step_def step_width_def)
  then show ?case using Cons.IH [of "p\<lparr>p_width := ?v\<rparr>"] Cons.prems d by simp
qed

lemma loop_precision:
  assumes "p_state p = S_PRECISION" "\<not> p_overflow p" "list_all ISDIGIT ds" "digits_acc (p_precision p) ds \<le> INT_MAX" "0 \<le> p_precision p"
    "\<not> ISDIGIT c" "c \<noteq> CHR ''*''" "c \<noteq> NUL"
  shows "vs_loop oob sz (ds @ c # r) p = vs_loop oob sz (c # r) (p\<lparr>p_precision := digits_acc (p_precision p) ds, p_state := S_MOD\<rparr>)"
  using assms
proof (induction ds arbitrary: p)
  case Nil
  then show ?case by (simp add: vs_loop_step vs_step_def step_precision_def)
next
  case (Cons d ds)
  let ?v = "10 * p_precision p + CHARTOINT d"
  have d: "ISDIGIT d" "d \<noteq> NUL" "0 \<le> ?v" using Cons.prems isdigit_value by auto
  have "?v \<le> INT_MAX" using digits_acc_ge [of ds ?v] d Cons.prems by simp
  then have "vs_loop oob sz ((d # ds) @ c # r) p = vs_loop oob sz (ds @ c # r) (p\<lparr>p_precision := ?v\<rparr>)"
    using d Cons.prems no_overflow by (simp add: vs_loop_step vs_step_def step_precision_def)
  then show ?case using Cons.IH [of "p\<lparr>p_precision := ?v\<rparr>"] Cons.prems d by simp
qed

lemma precision_default:
  "p_state p = S_PRECISION \<Longrightarrow> p_precision p = -1 \<Longrightarrow> c \<noteq> NUL \<Longrightarrow> \<not> p_overflow p \<Longrightarrow>
    vs_loop oob sz (c # r) p = vs_loop oob sz (c # r) (p\<lparr>p_precision := 0\<rparr>)"
  by (simp add: vs_loop.simps vs_step_def step_precision_def)


lemma show_nat_digits:
  "list_all ISDIGIT (show_nat n)" "show_nat n \<noteq> []" "digits_acc 0 (show_nat n) = int n"
  "0 < n \<Longrightarrow> flag_of (hd (show_nat n)) = None"
proof -
  note s = show_base_digits [of 10 n]
  have v: "ISDIGIT (digit_char d) \<and> CHARTOINT (digit_char d) = int d" if "d < 10" for d
    using that by (simp add: ISDIGIT_def CHARTOINT_def digit_char_def of_char_of)
  show l: "list_all ISDIGIT (show_nat n)" using s v by (fastforce simp: show_nat_def list_all_iff)
  show ne: "show_nat n \<noteq> []" using s by (simp add: show_nat_def)
  have "digits_acc (int a) ds = int (foldl (\<lambda>a c. a * 10 + digit_of c) a ds)" if "\<forall>c \<in> set ds. \<exists>d < 10. c = digit_char d" for a ds
    using that
  proof (induction ds arbitrary: a)
    case (Cons c ds)
    then obtain d where "d < 10" "c = digit_char d" by auto
    then show ?case using Cons.prems v [of d] Cons.IH [of "a * 10 + d"] by (simp add: mult.commute)
  qed simp
  from this [of "show_base 10 n" 0] show "digits_acc 0 (show_nat n) = int n"
    using s by (auto simp: show_nat_def digits_val_def)
  show "flag_of (hd (show_nat n)) = None" if "0 < n"
  proof -
    have "hd (show_nat n) \<noteq> CHR ''0''" using show_base_lead [of 10 n] that by (simp add: show_nat_def)
    moreover have "ISDIGIT (hd (show_nat n))" using l ne by (cases "show_nat n") auto
    ultimately show ?thesis by (auto simp: flag_of_def ISDIGIT_def)
  qed
qed

text \<open>The character after a directive's width and precision.\<close>

definition tail_char :: "char \<Rightarrow> bool" where
  "tail_char c \<longleftrightarrow> c \<in> set ''hlLztjduoxXscf''"

lemma tail_char_facts:
  assumes "tail_char c" shows "\<not> ISDIGIT c" "c \<noteq> CHR ''*''" "c \<noteq> NUL" "flag_of c = None" "c \<noteq> CHR ''.''"
  using assms by (auto simp: tail_char_def ISDIGIT_def flag_of_def)

lemma loop_prec_text:
  assumes "p_state p = S_DOT" "\<not> p_overflow p" "p_precision p = -1" "case prec of None \<Rightarrow> True | Some n \<Rightarrow> in_int n" "tail_char c"
  shows "vs_loop oob sz (prec_text prec @ c # r) p = vs_loop oob sz (c # r) (p\<lparr>p_precision := prec_arg prec, p_state := S_MOD\<rparr>)"
proof (cases prec)
  case None
  have e: "p\<lparr>p_precision := prec_arg prec, p_state := S_MOD\<rparr> = p\<lparr>p_state := S_MOD\<rparr>"
    using assms(3) None by (cases p) (simp add: prec_arg_def)
  have "vs_loop oob sz (prec_text prec @ c # r) p = vs_loop oob sz (c # r) (p\<lparr>p_state := S_MOD\<rparr>)"
    using None assms tail_char_facts [OF assms(5)] by (simp add: prec_text_def vs_loop_step vs_step_def)
  then show ?thesis unfolding e .
next
  case (Some n)
  note d = show_nat_digits [of n] and c = tail_char_facts [OF assms(5)]
  let ?p = "p\<lparr>p_state := S_PRECISION\<rparr>"
  obtain x xs where x: "show_nat n = x # xs" using d(2) by (cases "show_nat n") auto
  have "x \<noteq> NUL" using d(1) x isdigit_value(2) by auto
  have "vs_loop oob sz (prec_text prec @ c # r) p = vs_loop oob sz (show_nat n @ c # r) ?p"
    using assms Some by (simp add: prec_text_def vs_loop_step vs_step_def)
  also have "\<dots> = vs_loop oob sz (show_nat n @ c # r) (?p\<lparr>p_precision := 0\<rparr>)"
    using precision_default [of ?p x oob sz "xs @ c # r"] assms \<open>x \<noteq> NUL\<close> x by simp
  also have "\<dots> = vs_loop oob sz (c # r) (p\<lparr>p_precision := prec_arg prec, p_state := S_MOD\<rparr>)"
    using loop_precision [of "?p\<lparr>p_precision := 0\<rparr>" "show_nat n" c oob sz r] assms c d Some
    by (simp add: in_int_def prec_arg_def)
  finally show ?thesis .
qed


definition idle :: "pst \<Rightarrow> bool" where
  "idle p \<longleftrightarrow> p_state p = S_DEFAULT \<and> p_flags p = {} \<and> p_cflags p = C_NONE \<and> p_width p = 0 \<and> p_precision p = -1 \<and> \<not> p_overflow p"

lemma loop_mod:
  assumes "p_state p = S_MOD" "\<not> p_overflow p" "p_cflags p = C_NONE" "ch \<in> set ''duoxXscf''"
  shows "vs_loop oob sz (mod_text c @ ch # r) p = vs_loop oob sz (ch # r) (p\<lparr>p_cflags := c, p_state := S_CONV\<rparr>)"
proof -
  have ch: "ch \<notin> set ''hlLztj''" "ch \<noteq> NUL" using assms(4) by auto
  have "p\<lparr>p_cflags := C_NONE, p_state := S_CONV\<rparr> = p\<lparr>p_state := S_CONV\<rparr>" using assms(3) by (cases p) simp
  then show ?thesis using assms ch
    by (cases c) (simp_all add: vs_loop_step vs_step_def step_mod_def doubled_def)
qed

lemma dot_facts: "\<not> ISDIGIT (CHR ''.'')" "flag_of (CHR ''.'') = None"
  by (simp_all add: ISDIGIT_def flag_of_def)

lemma spell_run:
  assumes i: "idle p" and fl: "set fl \<subseteq> plain_flags" and s: "sizes_ok w prec" and ch: "ch \<in> set ''duoxXscf''"
  shows "vs_loop oob sz (spell fl w prec c ch @ r) p = vs_loop oob sz (ch # r)
    (p\<lparr>p_flags := set fl, p_width := int w, p_precision := prec_arg prec, p_cflags := c, p_state := S_CONV\<rparr>)"
proof -
  obtain m ms where m: "mod_text c @ ch # r = m # ms" by (cases "mod_text c") auto
  have tm: "tail_char m" using m ch by (cases c) (auto simp: tail_char_def)
  note tf = tail_char_facts [OF tm]
  obtain q qs where q: "prec_text prec @ m # ms = q # qs" by (cases "prec_text prec") auto
  have tq: "q = CHR ''.'' \<or> q = m" using q by (cases prec) (auto simp: prec_text_def)
  have qf: "\<not> ISDIGIT q" "q \<noteq> CHR ''*''" "q \<noteq> NUL" "flag_of q = None"
    using tq tf dot_facts by auto
  obtain x xs where x: "width_text w @ q # qs = x # xs" by (cases "width_text w") auto
  note d = show_nat_digits [of w]
  have xf: "flag_of x = None" "x \<noteq> NUL"
  proof -
    have "flag_of x = None \<and> x \<noteq> NUL"
    proof (cases "w = 0")
      case False
      then obtain ys where y: "show_nat w = x # ys" using x d(2) by (cases "show_nat w") (auto simp: width_text_def)
      then show ?thesis using False d(1,4) isdigit_value(2) [of x] by auto
    qed (use x qf in \<open>simp add: width_text_def\<close>)
    then show "flag_of x = None" "x \<noteq> NUL" by simp_all
  qed
  have all: "spell fl w prec c ch @ r = CHR ''%'' # map flag_char fl @ x # xs"
    using x q m by (simp add: spell_def)
  let ?p1 = "p\<lparr>p_state := S_FLAGS\<rparr>"
  let ?p2 = "p\<lparr>p_flags := set fl, p_state := S_WIDTH\<rparr>"
  let ?p3 = "?p2\<lparr>p_width := int w, p_state := S_DOT\<rparr>"
  let ?p4 = "?p3\<lparr>p_precision := prec_arg prec, p_state := S_MOD\<rparr>"
  have "vs_loop oob sz (spell fl w prec c ch @ r) p = vs_loop oob sz (map flag_char fl @ x # xs) ?p1"
    unfolding all using i by (intro vs_loop_step) (simp_all add: idle_def vs_step_def)
  also have "\<dots> = vs_loop oob sz (width_text w @ q # qs) ?p2"
    unfolding x using loop_flags [of ?p1 fl x oob sz xs] i fl xf by (simp add: idle_def)
  also have "\<dots> = vs_loop oob sz (prec_text prec @ m # ms) ?p3"
    unfolding q using loop_width [of ?p2 "width_text w" q oob sz qs] i d qf s by (simp add: idle_def width_text_def sizes_ok_def in_int_def)
  also have "\<dots> = vs_loop oob sz (mod_text c @ ch # r) ?p4"
    unfolding m using loop_prec_text [of ?p3 prec m oob sz ms] i s tm by (simp add: idle_def sizes_ok_def)
  also have "\<dots> = vs_loop oob sz (ch # r) (?p4\<lparr>p_cflags := c, p_state := S_CONV\<rparr>)"
    using loop_mod [of ?p4 ch oob sz c r] i ch by (simp add: idle_def)
  finally show ?thesis by simp
qed


section \<open>Expanding a format\<close>

text \<open>The last step of a directive, after which the interpreter is idle again.\<close>

lemma conv_run:
  assumes i: "idle p" and ch: "ch \<noteq> NUL"
    and c: "convert_arg oob sz ch (p\<lparr>p_args := as0, p_flags := fl, p_width := w, p_precision := pr, p_cflags := cf, p_state := S_CONV\<rparr>)
      = Some (p\<lparr>p_flags := fl, p_width := w, p_precision := pr, p_cflags := cf, p_state := S_CONV, p_args := as, p_out := o1\<rparr>)"
  shows "vs_loop oob sz (ch # r) (p\<lparr>p_args := as0, p_flags := fl, p_width := w, p_precision := pr, p_cflags := cf, p_state := S_CONV\<rparr>)
    = vs_loop oob sz r (p\<lparr>p_args := as, p_out := o1\<rparr>)"
proof (rule vs_loop_step)
  let ?q = "p\<lparr>p_flags := fl, p_width := w, p_precision := pr, p_cflags := cf, p_state := S_CONV, p_args := as, p_out := o1\<rparr>"
  have "?q\<lparr>p_state := S_DEFAULT, p_cflags := C_NONE, p_flags := {}, p_width := 0, p_precision := -1\<rparr> = p\<lparr>p_args := as, p_out := o1\<rparr>"
    using i by (cases p) (simp add: idle_def)
  moreover have "\<not> p_overflow ?q" using i by (simp add: idle_def)
  ultimately show "vs_step oob sz ch r (p\<lparr>p_args := as0, p_flags := fl, p_width := w, p_precision := pr, p_cflags := cf, p_state := S_CONV\<rparr>)
      = Some (r, p\<lparr>p_args := as, p_out := o1\<rparr>)"
    using c by (simp only: vs_step_def step_conv_def) simp
qed (use i ch in \<open>simp_all add: idle_def\<close>)

lemma number_run:
  assumes i: "idle p" and ok: "directive_ok (Number fl w prec c conv x)"
  shows "vs_loop oob sz (spell fl w prec c (conv_char conv) @ r) (p\<lparr>p_args := IntArg x # as\<rparr>)
    = vs_loop oob sz r (p\<lparr>p_args := as, p_out := emit sz (text_of (Number fl w prec c conv x)) (p_out p)\<rparr>)"
proof -
  let ?q = "p\<lparr>p_args := IntArg x # as\<rparr>"
  have q: "idle ?q" using i by (simp add: idle_def)
  have f: "set fl \<subseteq> plain_flags" "sizes_ok w prec" "mag_of conv (narrowed conv c x) = 0 \<longrightarrow> prec \<noteq> Some 0" using ok by simp_all
  note n = fmtint_ref [OF f(1,3), of sz w "p_out p"]
  have ch: "conv_char conv \<in> set ''duoxXscf''" "conv_char conv \<noteq> NUL" by (cases conv; simp)+
  have "convert_arg oob sz (conv_char conv) (p\<lparr>p_args := IntArg x # as, p_flags := set fl, p_width := int w, p_precision := prec_arg prec,
      p_cflags := c, p_state := S_CONV\<rparr>) = Some (p\<lparr>p_flags := set fl, p_width := int w, p_precision := prec_arg prec, p_cflags := c, p_state := S_CONV,
      p_args := as, p_out := emit sz (number_ref (set fl) w prec conv (narrowed conv c x)) (p_out p)\<rparr>)"
    using n by (cases conv) (simp_all add: convert_arg_def conv_signed_def conv_unsigned_def conv_flags_def narrowed_def)
  from conv_run [OF i ch(2) this] show ?thesis using spell_run [OF q f(1,2) ch(1), of oob sz c r] by simp
qed


lemma text_run:
  assumes i: "idle p" and ok: "directive_ok (Text fl w prec v)"
  shows "vs_loop oob sz (spell fl w prec C_NONE (CHR ''s'') @ r) (p\<lparr>p_args := StrArg v # as\<rparr>)
    = vs_loop oob sz r (p\<lparr>p_args := as, p_out := emit sz (text_of (Text fl w prec v)) (p_out p)\<rparr>)"
proof -
  let ?q = "p\<lparr>p_args := StrArg v # as\<rparr>"
  have q: "idle ?q" using i by (simp add: idle_def)
  have f: "set fl \<subseteq> plain_flags" "sizes_ok w prec" "nul_free v" using ok by simp_all
  have "convert_arg oob sz (CHR ''s'') (p\<lparr>p_args := StrArg v # as, p_flags := set fl, p_width := int w, p_precision := prec_arg prec,
      p_cflags := C_NONE, p_state := S_CONV\<rparr>) = Some (p\<lparr>p_flags := set fl, p_width := int w, p_precision := prec_arg prec, p_cflags := C_NONE,
      p_state := S_CONV, p_args := as, p_out := emit sz (string_ref (F_MINUS \<in> set fl) w prec v) (p_out p)\<rparr>)"
    by (simp add: convert_arg_def fmtstr_ref [OF f(3)])
  from conv_run [OF i _ this] show ?thesis using spell_run [OF q f(1,2), of "CHR ''s''" oob sz C_NONE r] by simp
qed

lemma whole_run:
  assumes i: "idle p" and ok: "directive_ok (Whole fl w k n)"
  shows "vs_loop oob sz (spell fl w (Some k) C_NONE (CHR ''f'') @ r) (p\<lparr>p_args := DoubleArg (dbl_of_nat n) # as\<rparr>)
    = vs_loop oob sz r (p\<lparr>p_args := as, p_out := emit sz (text_of (Whole fl w k n)) (p_out p)\<rparr>)"
proof -
  let ?q = "p\<lparr>p_args := DoubleArg (dbl_of_nat n) # as\<rparr>"
  have q: "idle ?q" using i by (simp add: idle_def)
  have f: "set fl \<subseteq> {F_MINUS}" "in_int w" "k \<le> 15" "n < 2 ^ 52" using ok by simp_all
  have pf: "set fl \<subseteq> plain_flags" "sizes_ok w (Some k)" using f by (auto simp: plain_flags_def sizes_ok_def in_int_def INT_MAX_def)
  have "convert_arg oob sz (CHR ''f'') (p\<lparr>p_args := DoubleArg (dbl_of_nat n) # as, p_flags := set fl, p_width := int w, p_precision := prec_arg (Some k),
      p_cflags := C_NONE, p_state := S_CONV\<rparr>) = Some (p\<lparr>p_flags := set fl, p_width := int w, p_precision := prec_arg (Some k), p_cflags := C_NONE,
      p_state := S_CONV, p_args := as, p_out := emit sz (to_width (F_MINUS \<in> set fl) w (show_nat n @ decimals k)) (p_out p)\<rparr>)"
    using fmtflt_whole [OF f(4,3,1), of oob sz w "p_out p"] by (simp add: convert_arg_def conv_double_def prec_arg_def)
  from conv_run [OF i _ this] show ?thesis using spell_run [OF q pf, of "CHR ''f''" oob sz C_NONE r] by simp
qed

lemma percent_run:
  assumes "idle p" shows "vs_loop oob sz (CHR ''%'' # c # r) p = vs_loop oob sz (c # r) (p\<lparr>p_state := S_FLAGS\<rparr>)"
  using assms by (simp add: vs_loop_step vs_step_def idle_def)

text \<open>A directive without flags, width and precision.\<close>

lemma bare_run:
  assumes i: "idle p" and ch: "flag_of ch = None" "\<not> ISDIGIT ch" "ch \<notin> set ''*.hlLjtz''" "ch \<noteq> NUL"
    and c: "convert_arg oob sz ch (p\<lparr>p_state := S_CONV\<rparr>) = Some (p\<lparr>p_state := S_CONV, p_args := as, p_out := o1\<rparr>)"
  shows "vs_loop oob sz (CHR ''%'' # ch # r) p = vs_loop oob sz r (p\<lparr>p_args := as, p_out := o1\<rparr>)"
proof -
  have "p\<lparr>p_flags := {}, p_width := 0, p_precision := -1, p_cflags := C_NONE\<rparr> = p" using i by (cases p) (simp add: idle_def)
  then have e: "p\<lparr>p_args := p_args p, p_flags := {}, p_width := 0, p_precision := -1, p_cflags := C_NONE, p_state := S_CONV\<rparr> = p\<lparr>p_state := S_CONV\<rparr>"
    "p\<lparr>p_flags := {}, p_width := 0, p_precision := -1, p_cflags := C_NONE, p_state := S_CONV, p_args := as, p_out := o1\<rparr>
      = p\<lparr>p_state := S_CONV, p_args := as, p_out := o1\<rparr>" using i by (cases p; simp add: idle_def)+
  have "vs_loop oob sz (CHR ''%'' # ch # r) p = vs_loop oob sz (ch # r) (p\<lparr>p_state := S_WIDTH\<rparr>)"
    using percent_run [OF i] i ch by (simp add: vs_loop_step vs_step_def step_flags_def idle_def)
  also have "\<dots> = vs_loop oob sz (ch # r) (p\<lparr>p_state := S_MOD\<rparr>)"
    using i ch by (simp add: vs_loop_step vs_step_def step_width_def idle_def)
  also have "\<dots> = vs_loop oob sz (ch # r) (p\<lparr>p_cflags := p_cflags p, p_state := S_CONV\<rparr>)"
    using i ch by (simp add: vs_loop_step vs_step_def step_mod_def idle_def)
  also have "p\<lparr>p_cflags := p_cflags p, p_state := S_CONV\<rparr> = p\<lparr>p_state := S_CONV\<rparr>" by simp
  also have "vs_loop oob sz (ch # r) (p\<lparr>p_state := S_CONV\<rparr>) = vs_loop oob sz r (p\<lparr>p_args := as, p_out := o1\<rparr>)"
    using conv_run [OF i ch(4), where ?as0.0 = "p_args p" and fl = "{}" and w = 0 and pr = "-1" and cf = C_NONE
      and as = as and ?o1.0 = o1, unfolded e, OF c] .
  finally show ?thesis .
qed

lemma char_arg_byte: "char_of (unat (take_bit 8 (of_nat (of_char c) :: uint64))) = c"
proof -
  have "(of_char c :: nat) < 2 ^ 8" by simp
  then have "unat (take_bit 8 (of_nat (of_char c) :: uint64)) = of_char c" by (simp add: unsigned_take_bit_eq unsigned_of_nat take_bit_nat_eq_self)
  then show ?thesis by simp
qed


lemma to_int_of_nat: "in_int n \<Longrightarrow> to_int (of_nat n) = int n"
proof -
  assume "in_int n"
  then have n: "n < 2 ^ 31" by (simp add: in_int_def INT_MAX_def)
  then have "uint (of_nat n :: uint64) = int n" by (simp add: unsigned_of_nat take_bit_nat_eq_self)
  then show ?thesis using n by (simp add: to_int_def signed_take_bit_int_eq_self)
qed

lemma star_run:
  assumes i: "idle p" and ok: "directive_ok (StarText n v)"
  shows "vs_loop oob sz (''%.*s'' @ r) (p\<lparr>p_args := IntArg (of_nat n) # StrArg (Some v) # as\<rparr>)
    = vs_loop oob sz r (p\<lparr>p_args := as, p_out := emit sz (take n v) (p_out p)\<rparr>)"
proof -
  let ?q = "p\<lparr>p_args := IntArg (of_nat n) # StrArg (Some v) # as\<rparr>"
  have q: "idle ?q" using i by (simp add: idle_def)
  have n: "to_int (of_nat n) = int n" and v: "nul_free (Some v)" using ok to_int_of_nat by (simp_all add: nul_free_def)
  have e: "p\<lparr>p_args := StrArg (Some v) # as, p_flags := {}, p_width := 0, p_precision := int n, p_cflags := C_NONE, p_state := S_CONV\<rparr>
      = p\<lparr>p_args := StrArg (Some v) # as, p_precision := int n, p_state := S_CONV\<rparr>" using i by (cases p) (simp add: idle_def)
  have "vs_loop oob sz (''%.*s'' @ r) ?q = vs_loop oob sz (CHR ''.'' # CHR ''*'' # CHR ''s'' # r) (?q\<lparr>p_state := S_DOT\<rparr>)"
    using percent_run [OF q, of oob sz "CHR ''.''"] i dot_facts by (simp add: vs_loop_step vs_step_def step_flags_def step_width_def idle_def)
  also have "\<dots> = vs_loop oob sz (CHR ''s'' # r) (p\<lparr>p_args := StrArg (Some v) # as, p_precision := int n, p_cflags := p_cflags p, p_state := S_CONV\<rparr>)"
    using i n by (simp add: vs_loop_step vs_step_def step_precision_def step_mod_def idle_def ISDIGIT_def)
  also have "p\<lparr>p_args := StrArg (Some v) # as, p_precision := int n, p_cflags := p_cflags p, p_state := S_CONV\<rparr>
      = p\<lparr>p_args := StrArg (Some v) # as, p_precision := int n, p_state := S_CONV\<rparr>" by simp
  also have "vs_loop oob sz (CHR ''s'' # r) (p\<lparr>p_args := StrArg (Some v) # as, p_precision := int n, p_state := S_CONV\<rparr>)
      = vs_loop oob sz r (p\<lparr>p_args := as, p_out := emit sz (take n v) (p_out p)\<rparr>)"
    unfolding e [symmetric]
  proof (rule conv_run [OF i])
    show "convert_arg oob sz (CHR ''s'') (p\<lparr>p_args := StrArg (Some v) # as, p_flags := {}, p_width := 0, p_precision := int n,
        p_cflags := C_NONE, p_state := S_CONV\<rparr>) = Some (p\<lparr>p_flags := {}, p_width := 0, p_precision := int n, p_cflags := C_NONE,
        p_state := S_CONV, p_args := as, p_out := emit sz (take n v) (p_out p)\<rparr>)"
      using fmtstr_ref [OF v, of sz 0 "Some n" "{}" "p_out p"]
      by (simp add: convert_arg_def prec_arg_def string_ref_def to_width_def)
  qed simp
  finally show ?thesis .
qed

lemma directive_run:
  assumes i: "idle p" and ok: "directive_ok d"
  shows "vs_loop oob sz (fmt_of d @ r) (p\<lparr>p_args := args_of d @ as\<rparr>)
    = vs_loop oob sz r (p\<lparr>p_args := as, p_out := emit sz (text_of d) (p_out p)\<rparr>)"
proof (cases d)
  case (Lit c)
  then show ?thesis using i ok by (simp add: vs_loop_step vs_step_def idle_def)
next
  case Percent
  have "idle (p\<lparr>p_args := as\<rparr>)" using i by (simp add: idle_def)
  from bare_run [OF this, of "CHR ''%''" oob sz "OUTCHAR sz (CHR ''%'') (p_out p)" as r] show ?thesis
    using Percent by (simp add: convert_arg_def flag_of_def ISDIGIT_def)
next
  case (Chr c)
  have "idle (p\<lparr>p_args := IntArg (of_nat (of_char c)) # as\<rparr>)" using i by (simp add: idle_def)
  from bare_run [OF this, of "CHR ''c''" oob sz "OUTCHAR sz c (p_out p)" as r] show ?thesis
    using Chr char_arg_byte by (simp add: convert_arg_def flag_of_def ISDIGIT_def)
next
  case (Text fl w prec v)
  then show ?thesis using text_run [OF i] ok by simp
next
  case (StarText n v)
  then show ?thesis using star_run [OF i] ok by simp
next
  case (Number fl w prec c conv x)
  then show ?thesis using number_run [OF i] ok by simp
next
  case (Whole fl w k n)
  then show ?thesis using whole_run [OF i] ok by simp
qed

lemma directives_run:
  assumes "idle p" "list_all directive_ok ds"
  shows "vs_loop oob sz (concat (map fmt_of ds)) (p\<lparr>p_args := concat (map args_of ds)\<rparr>)
    = Some (p\<lparr>p_args := [], p_out := emit sz (concat (map text_of ds)) (p_out p)\<rparr>)"
  using assms
proof (induction ds arbitrary: p)
  case Nil
  then show ?case by (simp add: vs_loop.simps)
next
  case (Cons d ds)
  let ?q = "p\<lparr>p_out := emit sz (text_of d) (p_out p)\<rparr>"
  have q: "idle ?q" using Cons.prems(1) by (simp add: idle_def)
  have c: "?q\<lparr>p_args := a\<rparr> = p\<lparr>p_args := a, p_out := emit sz (text_of d) (p_out p)\<rparr>" for a by simp
  have "vs_loop oob sz (concat (map fmt_of ds)) (p\<lparr>p_args := concat (map args_of ds), p_out := emit sz (text_of d) (p_out p)\<rparr>)
      = Some (?q\<lparr>p_args := [], p_out := emit sz (concat (map text_of ds)) (p_out ?q)\<rparr>)"
    unfolding c [symmetric] by (rule Cons.IH [OF q]) (use Cons.prems(2) in simp)
  then show ?case
    using directive_run [OF Cons.prems(1), of d oob sz "concat (map fmt_of ds)" "concat (map args_of ds)"] Cons.prems(2) by simp
qed

text \<open>A call prints the texts of the directives, cut to the buffer, and returns their total length.\<close>

lemma vsnprintf_expands:
  assumes "list_all directive_ok ds" "sz \<le> length b"
  shows "rpl_vsnprintf oob (Some b) sz (concat (map fmt_of ds)) (concat (map args_of ds))
    = Some (let t = concat (map text_of ds); big = (int (length t) \<ge> INT_MAX) in
        \<lparr>r_ret = (if big then -1 else int (length t)), r_str = cut_to sz t b, r_stores = [], r_errno = (if big then Some ERANGE else None)\<rparr>)"
proof -
  let ?t = "concat (map text_of ds)" and ?p = "p_start b []"
  have s: "p_start b (concat (map args_of ds)) = ?p\<lparr>p_args := concat (map args_of ds)\<rparr>" by (simp add: p_start_def)
  have "idle ?p" by (simp add: idle_def p_start_def)
  note r = directives_run [OF this assms(1), of oob sz, folded s]
  let ?e = "?p\<lparr>p_args := [], p_out := emit sz ?t (p_out ?p)\<rparr>"
  have c: "r_str (vs_finish sz ?e) = cut_to sz ?t b" by (rule finish_cut [OF assms(2)]) (simp add: p_start_def)
  have "vs_finish sz ?e = \<lparr>r_ret = (if int (length ?t) \<ge> INT_MAX then -1 else int (length ?t)), r_str = cut_to sz ?t b, r_stores = [],
      r_errno = (if int (length ?t) \<ge> INT_MAX then Some ERANGE else None)\<rparr>"
    by (rule presult.equality) (simp_all add: c, simp_all add: vs_finish_def Let_def p_start_def)
  then show ?thesis using r by (simp add: rpl_vsnprintf_def Let_def)
qed

end
