(* ===== verification/SnprintfProps.thy ===== *)
theory SnprintfProps
  imports FormatRef
begin

text \<open>
  The properties of the formatter of src/snprintf.c: truncation, the expansion of formats and the sizes
  of its conversion buffers.
\<close>

text \<open>(C37) Whatever the format and the arguments, if a call without a buffer is defined then so is every call
  with one: it returns the same value, stores the same counts, and leaves in the buffer the same text
  cut to the size less one, with a terminator behind it and nothing changed after that. A value that is
  not negative is the length of the whole text.\<close>

theorem vsnprintf_truncates:
  assumes "rpl_vsnprintf oob None n format args = Some r0"
  shows "\<exists>out. (\<forall>b sz. sz \<le> length b \<longrightarrow> rpl_vsnprintf oob (Some b) sz format args = Some (r0\<lparr>r_str :=
       (if sz = 0 then b else take (sz - 1) out @ NUL # drop (Suc (min (length out) (sz - 1))) b)\<rparr>))
    \<and> (r_ret r0 \<ge> 0 \<longrightarrow> r_ret r0 = int (length out))"
  by (rule vsnprintf_uniform [OF assms]) (auto simp: cut_to_def)

theorem vsnprintf_truncates_witness:
  "\<exists>r0 out. rpl_vsnprintf 0 None 0 ''%c%%'' [IntArg 65] = Some r0
     \<and> rpl_vsnprintf 0 (Some ''xxxx'') 2 ''%c%%'' [IntArg 65] = Some (r0\<lparr>r_str := take 1 out @ NUL # drop (Suc (min (length out) 1)) ''xxxx''\<rparr>)"
proof -
  have "rpl_vsnprintf 0 None 0 ''%c%%'' [IntArg 65] \<noteq> None" by code_simp
  then obtain r0 where r0: "rpl_vsnprintf 0 None 0 ''%c%%'' [IntArg 65] = Some r0" by auto
  from vsnprintf_truncates [OF this] obtain out where
    "\<forall>b sz. sz \<le> length b \<longrightarrow> rpl_vsnprintf 0 (Some b) sz ''%c%%'' [IntArg 65] = Some (r0\<lparr>r_str :=
       (if sz = 0 then b else take (sz - 1) out @ NUL # drop (Suc (min (length out) (sz - 1))) b)\<rparr>)" by blast
  from spec [OF spec [OF this, of "''xxxx''"], of 2] r0 show ?thesis by auto
qed






section \<open>Buffers\<close>

lemma convert_length: "length (convert v sz b caps) \<le> max 1 sz"
proof (induction v sz b caps rule: convert.induct)
  case (1 v sz b caps)
  then show ?case by (cases "v div b \<noteq> 0 \<and> 1 < sz") (auto simp: convert.simps [of v])
qed

lemma exp_down_bounds: "exp_down x e = (y, e') \<Longrightarrow> - 99 \<le> e \<Longrightarrow> e \<le> 0 \<Longrightarrow> - 100 \<le> e' \<and> e' \<le> 0 \<and> (e \<noteq> - 99 \<longrightarrow> - 99 \<le> e')"
proof (induction x e arbitrary: y e' rule: exp_down.induct)
  case (1 x e)
  show ?case
  proof (cases "dbl_less x (dbl_of_nat 1) \<and> dbl_less (dbl_of_nat 0) x \<and> e - 1 > -99")
    case True
    then have "exp_down (dbl_mul x (dbl_of_nat 10)) (e - 1) = (y, e')" using 1(2) by (simp add: exp_down.simps [of x])
    with 1 True show ?thesis by auto
  next
    case False
    then show ?thesis using 1 by (auto simp: exp_down.simps [of x] split: if_splits)
  qed
qed

lemma exp_up_bounds: "e \<le> 99 \<Longrightarrow> e \<noteq> 99 \<longrightarrow> e \<le> exp_up x e \<and> exp_up x e \<le> 99"
proof (induction x e rule: exp_up.induct)
  case (1 x e)
  then show ?case by (cases "dbl_le (dbl_of_nat 10) x \<and> e + 1 < 99") (auto simp: exp_up.simps [of x])
qed

lemma getexponent_bounds: "- 99 \<le> getexponent x \<and> getexponent x \<le> 99"
proof -
  obtain y e where e: "exp_down (abs_dbl x) 0 = (y, e)" by (cases "exp_down (abs_dbl x) 0")
  have "- 99 \<le> e \<and> e \<le> 0" using exp_down_bounds [OF e] by simp
  then show ?thesis using exp_up_bounds [of e y] e by (auto simp: getexponent_def)
qed

lemma exp_chars_length: "length (exp_chars estyle e flags) \<le> 4"
  using convert_length [of "nat \<bar>e\<bar>" 2 10 False] by (auto simp: exp_chars_def Let_def)

text \<open>(C40) The conversion buffers of the formatter suffice: the digits of every number fit the 43 places of
  \<open>iconvert\<close> and \<open>fconvert\<close>, and are all of its digits in every base that is used; the characters of an
  exponent fit the four places of \<open>econvert\<close>, since the computed exponent has at most two digits.\<close>

theorem format_buffers:
  fixes w :: uint64
  shows "length (convert v MAX_CONVERT_LENGTH base caps) \<le> 43 \<and> length (exp_chars estyle e flags) \<le> 4
   \<and> \<bar>getexponent x\<bar> \<le> 99
   \<and> rev (convert (unat w) MAX_CONVERT_LENGTH (num_base conv) False) = show_base (num_base conv) (unat w)"
proof -
  have "unat w < 2 ^ LENGTH(64)" by (rule unsigned_less)
  then have "unat w < 2 ^ 64" by simp
  also have "(2 ^ 64 :: nat) \<le> 8 ^ 43" by simp
  also have "(8 ^ 43 :: nat) \<le> num_base conv ^ 43" by (rule power_mono) (cases conv; simp)+
  finally have "rev (convert (unat w) MAX_CONVERT_LENGTH (num_base conv) False) = show_base (num_base conv) (unat w)"
    using convert_show [of "num_base conv" MAX_CONVERT_LENGTH "unat w" False] by (cases conv) (simp_all add: MAX_CONVERT_LENGTH_def)
  then show ?thesis
    using convert_length [of v MAX_CONVERT_LENGTH base caps] exp_chars_length getexponent_bounds [of x]
    by (auto simp: MAX_CONVERT_LENGTH_def)
qed

section \<open>Allocated results\<close>

lemma memcpy_steps:
  "length src = length dst \<Longrightarrow> i + n \<le> length dst \<Longrightarrow> mymemcpy n i src dst = take i dst @ take n (drop i src) @ drop (i + n) dst"
proof (induction n arbitrary: i dst)
  case (Suc n)
  have s: "drop i src = src ! i # drop (Suc i) src" using Suc.prems by (simp add: Cons_nth_drop_Suc)
  have "mymemcpy n (Suc i) src (dst[i := src ! i])
      = take (Suc i) (dst[i := src ! i]) @ take n (drop (Suc i) src) @ drop (Suc i + n) (dst[i := src ! i])"
    by (rule Suc.IH) (use Suc.prems in simp_all)
  moreover have "take (Suc i) (dst[i := src ! i]) = take i dst @ [src ! i]" using Suc.prems by (simp add: take_Suc_conv_app_nth)
  ultimately show ?case using s by simp
qed simp

lemma memcpy_copies: "length src = length dst \<Longrightarrow> mymemcpy (length src) 0 src dst = src"
  by (simp add: memcpy_steps)

text \<open>With the formatter itself in place of the one of the C library, the allocated string is the whole text.\<close>

lemma vasprintf_whole:
  assumes r: "rpl_vsnprintf oob None 0 format args = Some r0" "0 \<le> r_ret r0" and j: "junk (Suc (nat (r_ret r0))) = Some b" "length b = Suc (nat (r_ret r0))"
  shows "\<exists>out. rpl_asprintf (rpl_vsnprintf oob) junk format args = Some (int (length out), Some (out @ [NUL]))"
proof -
  obtain out where out: "\<forall>b sz. sz \<le> length b \<longrightarrow> rpl_vsnprintf oob (Some b) sz format args = Some (r0\<lparr>r_str := cut_to sz out b\<rparr>)"
    and l: "r_ret r0 = int (length out)"
    using vsnprintf_uniform [OF r(1)] r(2) by metis
  have "cut_to (Suc (length out)) out b = out @ [NUL]" using j(2) l by (simp add: cut_to_def)
  then show ?thesis using r j l spec [OF spec [OF out, of b], of "Suc (length out)"] by (auto simp: rpl_asprintf_def rpl_vasprintf_def Let_def)
qed

end
