(* ===== verification/XOpt.thy ===== *)
theory XOpt
  imports FormatRef NvmlSampler
begin

text \<open>
  The command line parser of nvsharectl (src/xopt.c, src/xopt.h): options with long and short names,
  condensed short options, values, required options, extra arguments, and the help text. An error is
  the message that the library puts into its buffer; the jumps that leave the parser on an error are
  the left results of the definitions. Memory allocation succeeds; what the configuration holds after
  an error is not modelled.
\<close>

unbundle bit_operations_syntax

section \<open>Data\<close>

text \<open>A cell of the configuration structure; a cell is found by its offset.\<close>

datatype xvalue = XBool bool | XString string | XNull | XInt int | XLong int | XFloat double | XDouble double

type_synonym xdata = "nat \<Rightarrow> xvalue"

text \<open>The flags of an option and of a context.\<close>

definition XOPT_TYPE_STRING :: int where "XOPT_TYPE_STRING = 0x1"
definition XOPT_TYPE_INT :: int where "XOPT_TYPE_INT = 0x2"
definition XOPT_TYPE_LONG :: int where "XOPT_TYPE_LONG = 0x4"
definition XOPT_TYPE_FLOAT :: int where "XOPT_TYPE_FLOAT = 0x8"
definition XOPT_TYPE_DOUBLE :: int where "XOPT_TYPE_DOUBLE = 0x10"
definition XOPT_TYPE_BOOL :: int where "XOPT_TYPE_BOOL = 0x20"
definition XOPT_PARAM_OPTIONAL :: int where "XOPT_PARAM_OPTIONAL = 0x40"
definition XOPT_REQUIRED :: int where "XOPT_REQUIRED = 0x80"

definition XOPT_CTX_KEEPFIRST :: int where "XOPT_CTX_KEEPFIRST = 0x1"
definition XOPT_CTX_POSIXMEHARDER :: int where "XOPT_CTX_POSIXMEHARDER = 0x2"
definition XOPT_CTX_NOCONDENSE :: int where "XOPT_CTX_NOCONDENSE = 0x4"
definition XOPT_CTX_SLOPPYSHORTS :: int where "XOPT_CTX_SLOPPYSHORTS = 0x8"
definition XOPT_CTX_STRICT :: int where "XOPT_CTX_STRICT = 0x10"

lemmas xopt_flags = XOPT_TYPE_STRING_def XOPT_TYPE_INT_def XOPT_TYPE_LONG_def XOPT_TYPE_FLOAT_def XOPT_TYPE_DOUBLE_def
  XOPT_TYPE_BOOL_def XOPT_PARAM_OPTIONAL_def XOPT_REQUIRED_def XOPT_CTX_KEEPFIRST_def XOPT_CTX_POSIXMEHARDER_def
  XOPT_CTX_NOCONDENSE_def XOPT_CTX_SLOPPYSHORTS_def XOPT_CTX_STRICT_def

definition flag :: "int \<Rightarrow> int \<Rightarrow> bool" where
  "flag flags f \<longleftrightarrow> flags AND f \<noteq> 0"

text \<open>A callback gets the value, the data and whether the long name was used; it is stored in the option it is
  called for. It returns an error, if any, and the data.\<close>

type_synonym callback = "string option \<Rightarrow> xdata \<Rightarrow> bool \<Rightarrow> string option \<times> xdata"

record xoptOption =
  o_longArg :: "string option"
  o_shortArg :: char
  o_offset :: nat
  o_callback :: "callback option"
  o_options :: int
  o_argDescrip :: "string option"
  o_descrip :: "string option"

record xoptContext =
  x_options :: "xoptOption list"
  x_flags :: int
  x_name :: string

text \<open>The table ends at the first option without a name.\<close>

definition xopt_context :: "string \<Rightarrow> xoptOption list \<Rightarrow> int \<Rightarrow> xoptContext" where
  "xopt_context name opts flags =
     \<lparr>x_options = takeWhile (\<lambda>o'. o_longArg o' \<noteq> None \<or> o_shortArg o' \<noteq> NUL) opts, x_flags = flags, x_name = name\<rparr>"

text \<open>An error message is formatted into a static buffer. No message prints a floating point number.\<close>

definition ERRBUF_SIZE :: nat where
  "ERRBUF_SIZE = 4096"

definition set_err :: "string \<Rightarrow> carg list \<Rightarrow> string" where
  "set_err fmt args =
     (case rpl_vsnprintf 0 (Some (replicate ERRBUF_SIZE NUL)) ERRBUF_SIZE fmt args of
        None \<Rightarrow> []
      | Some r \<Rightarrow> takeWhile (\<lambda>c. c \<noteq> NUL) (r_str r))"

abbreviation char_arg :: "char \<Rightarrow> carg" where
  "char_arg c \<equiv> IntArg (of_nat (of_char c))"

abbreviation str_arg :: "string \<Rightarrow> carg" where
  "str_arg s \<equiv> StrArg (Some s)"

section \<open>Storing a value\<close>

fun to_float :: "double \<Rightarrow> double" where
  "to_float (Fin neg m e) = round_to 24 neg (m * 2 ^ nat e) (2 ^ nat (- e))"
| "to_float d = d"

text \<open>The value of the cell, and what is left of the text after a number.\<close>

definition parse_value :: "int \<Rightarrow> string \<Rightarrow> (xvalue \<times> string) option" where
  "parse_value ty val =
     (if ty = XOPT_TYPE_BOOL then Some (XBool True, [])
      else if ty = XOPT_TYPE_STRING then Some (XString val, [])
      else if ty = XOPT_TYPE_INT then (let r = strtol 0 val in Some (XInt (to_int32 (st_val r)), st_rest r))
      else if ty = XOPT_TYPE_LONG then (let r = strtol 0 val in Some (XLong (st_val r), st_rest r))
      else if ty = XOPT_TYPE_FLOAT then (let (d, r) = strtod val in Some (XFloat (to_float d), r))
      else if ty = XOPT_TYPE_DOUBLE then (let (d, r) = strtod val in Some (XDouble d, r))
      else None)"

definition xopt_default_callback :: "xoptOption \<Rightarrow> callback" where
  "xopt_default_callback opt val data longArg =
     (if (val = None \<or> val = Some []) \<and> \<not> flag (o_options opt) XOPT_TYPE_BOOL then (None, data)
      else (let v = (case val of Some v \<Rightarrow> v | None \<Rightarrow> []) in
        case parse_value (o_options opt AND 0x3F) v of
          None \<Rightarrow> (None, data)
        | Some (cell, rest) \<Rightarrow>
            ((if rest = [] then None
              else Some (if longArg
                then set_err (''value isn'' @ [CHR 0x27] @ ''t a valid number: --%s=%s'') [StrArg (o_longArg opt), str_arg v]
                else set_err (''value isn'' @ [CHR 0x27] @ ''t a valid number: -%c %s'') [char_arg (o_shortArg opt), str_arg v])),
             data(o_offset opt := cell))))"

definition xopt_set :: "xoptOption \<Rightarrow> string option \<Rightarrow> bool \<Rightarrow> xdata \<Rightarrow> string + xdata" where
  "xopt_set opt val longArg data =
     (case (case o_callback opt of Some f \<Rightarrow> f | None \<Rightarrow> xopt_default_callback opt) val data longArg of
        (Some e, _) \<Rightarrow> Inl e
      | (None, d) \<Rightarrow> Inr d)"

section \<open>One argument\<close>

definition xopt_get_size :: "string \<Rightarrow> nat" where
  "xopt_get_size arg = length (takeWhile (\<lambda>c. c = CHR ''-'') (take 2 arg))"

definition option_matches :: "string \<Rightarrow> nat \<Rightarrow> nat \<Rightarrow> xoptOption \<Rightarrow> bool" where
  "option_matches arg len sz opt \<longleftrightarrow>
     sz = 1 \<and> arg \<noteq> [] \<and> o_shortArg opt = hd arg
     \<or> (case o_longArg opt of Some l \<Rightarrow> length l = len \<and> strncmp_eq l arg len | None \<Rightarrow> False)"

text \<open>The option an argument names, with its index, and whether it takes a value: 0 none, 1 optional, 2
  required.\<close>

definition xopt_get_arg :: "xoptContext \<Rightarrow> string \<Rightarrow> nat \<Rightarrow> nat \<Rightarrow> nat \<times> (nat \<times> xoptOption) option" where
  "xopt_get_arg ctx arg len sz =
     (case find (\<lambda>(i, opt). option_matches arg len sz opt) (enumerate 0 (x_options ctx)) of
        None \<Rightarrow> (0, None)
      | Some (i, opt) \<Rightarrow>
          (if flag (o_options opt) XOPT_TYPE_BOOL then 0 else if flag (o_options opt) XOPT_PARAM_OPTIONAL then 1 else 2,
           Some (i, opt)))"

text \<open>The state of a parse: the current argument, the ones after it, and the data.\<close>

record xarg =
  a_cur :: string
  a_rest :: "string list"
  a_data :: xdata

definition missing_short :: "xoptOption \<Rightarrow> string" where
  "missing_short opt = set_err ''missing option value: -%c'' [char_arg (o_shortArg opt)]"

text \<open>One short option, with the letters \<open>cs\<close> after it: whether the loop continues, and the new state.\<close>

definition short_option :: "xoptContext \<Rightarrow> nat \<Rightarrow> xoptOption \<Rightarrow> string \<Rightarrow> xarg \<Rightarrow> string + (bool \<times> xarg)" where
  "short_option ctx req opt cs a =
     (let put = (\<lambda>val go a. case xopt_set opt val False (a_data a) of Inl e \<Rightarrow> Inl e | Inr d \<Rightarrow> Inr (go, a\<lparr>a_data := d\<rparr>));
          put_next = (\<lambda>r rs a. put (Some r) True (a\<lparr>a_cur := r, a_rest := rs\<rparr>))
      in if req > 0 \<and> cs \<noteq> [] \<and> \<not> flag (x_flags ctx) XOPT_CTX_SLOPPYSHORTS
         then Inl (set_err ''short option parameters must be separated, not condensed: %s'' [str_arg (a_cur a)])
         else if req = 0 then
           (if cs \<noteq> [] \<and> flag (x_flags ctx) XOPT_CTX_NOCONDENSE
            then Inl (set_err ''short options cannot be combined: %s'' [str_arg (a_cur a)])
            else put None True a)
         else if req = 1 then
           (case a_rest a of
              r # rs \<Rightarrow> if xopt_get_size r = 0 then put_next r rs a else put None True a
            | [] \<Rightarrow> put None True a)
         else if cs = [] then
           (case a_rest a of
              r # rs \<Rightarrow> if xopt_get_size r \<noteq> 0 then Inl (missing_short opt) else put_next r rs a
            | [] \<Rightarrow> Inl (missing_short opt))
         else put (Some cs) False a)"

text \<open>The loop over condensed short options; the result names the option found last, if any.\<close>

fun short_loop :: "xoptContext \<Rightarrow> nat option \<Rightarrow> string \<Rightarrow> xarg \<Rightarrow> string + (nat option \<times> xarg)" where
  "short_loop ctx found [] a = Inr (found, a)"
| "short_loop ctx found (c # cs) a =
     (case xopt_get_arg ctx (c # cs) 1 1 of
        (_, None) \<Rightarrow>
          if flag (x_flags ctx) XOPT_CTX_STRICT then Inl (set_err ''invalid option: -%c'' [char_arg c]) else Inr (None, a)
      | (req, Some (i, opt)) \<Rightarrow>
          (case short_option ctx req opt cs a of
             Inl e \<Rightarrow> Inl e
           | Inr (go, a1) \<Rightarrow> if go then short_loop ctx (Some i) cs a1 else Inr (Some i, a1)))"

text \<open>A long option: \<open>arg\<close> is the text after the dashes. A flag is stored twice.\<close>

definition long_option :: "xoptContext \<Rightarrow> string \<Rightarrow> xarg \<Rightarrow> string + (nat option \<times> xarg)" where
  "long_option ctx arg a =
     (let name = takeWhile (\<lambda>c. c \<noteq> CHR ''='') arg;
          val = (case strchr arg (CHR ''='') of Some (_ # v) \<Rightarrow> if v = [] then None else Some v | _ \<Rightarrow> None)
      in case xopt_get_arg ctx arg (length name) 2 of
           (_, None) \<Rightarrow> Inl (set_err ''invalid option: --%.*s'' [IntArg (of_nat (length name)), str_arg arg])
         | (req, Some (i, opt)) \<Rightarrow>
             if req = 0 \<and> val \<noteq> None then Inl (set_err (''option doesn'' @ [CHR 0x27] @ ''t take a value: --%s'') [str_arg arg])
             else if req = 2 \<and> val = None then Inl (set_err ''missing option value: --%s'' [str_arg arg])
             else (case (if req = 0 then xopt_set opt val True (a_data a) else Inr (a_data a)) of
                     Inl e \<Rightarrow> Inl e
                   | Inr d1 \<Rightarrow> (case xopt_set opt val True d1 of
                                 Inl e \<Rightarrow> Inl e
                               | Inr d2 \<Rightarrow> Inr (Some i, a\<lparr>a_data := d2\<rparr>))))"

section \<open>The command line\<close>

record xparse =
  y_data :: xdata
  y_required :: "bool list"
  y_doubledash :: bool
  y_extras :: "string list"

datatype parsed = ParsedOption | ParsedExtra | ParsedDoubleDash

definition xopt_parse_arg :: "xoptContext \<Rightarrow> string \<Rightarrow> string list \<Rightarrow> xparse \<Rightarrow> string + (parsed \<times> string \<times> string list \<times> xparse)" where
  "xopt_parse_arg ctx arg rest y =
     (if y_doubledash y then Inr (ParsedExtra, arg, rest, y)
      else (let sz = xopt_get_size arg; body = drop sz arg; a = \<lparr>a_cur = arg, a_rest = rest, a_data = y_data y\<rparr> in
        if sz = 1 \<and> body = [] then Inr (ParsedExtra, arg, rest, y)
        else if sz = 2 \<and> body = [] then Inr (ParsedDoubleDash, arg, rest, y\<lparr>y_doubledash := True\<rparr>)
        else if sz = 0 then Inr (ParsedExtra, arg, rest, y)
        else case (if sz = 1 then short_loop ctx None body a else long_option ctx body a) of
               Inl e \<Rightarrow> Inl e
             | Inr (found, a1) \<Rightarrow>
                 Inr (ParsedOption, a_cur a1, a_rest a1,
                      y\<lparr>y_data := a_data a1,
                        y_required := (case found of Some i \<Rightarrow> (y_required y)[i := False] | None \<Rightarrow> y_required y)\<rparr>)))"

text \<open>Parsing an argument consumes at most the arguments after it, so the loop over them ends.\<close>

lemma short_option_rest: "short_option ctx req opt cs a = Inr (go, a1) \<Longrightarrow> length (a_rest a1) \<le> length (a_rest a)"
  by (auto simp: short_option_def Let_def split: if_splits list.splits sum.splits)

lemma short_loop_rest: "short_loop ctx found cs a = Inr (i, a1) \<Longrightarrow> length (a_rest a1) \<le> length (a_rest a)"
proof (induction ctx found cs a rule: short_loop.induct)
  case (2 ctx found c cs a)
  show ?case
  proof (cases "xopt_get_arg ctx (c # cs) 1 1")
    case (Pair req r)
    show ?thesis
    proof (cases r)
      case None
      then show ?thesis using 2 Pair by (auto split: if_splits)
    next
      case (Some io)
      obtain j opt where r: "r = Some (j, opt)" using Some by (cases io) simp
      with 2(2) Pair obtain go a2 where s: "short_option ctx req opt cs a = Inr (go, a2)"
        by (auto split: sum.splits)
      have "length (a_rest a2) \<le> length (a_rest a)" using short_option_rest [OF s] .
      then show ?thesis using 2 Pair r s by (cases go) fastforce+
    qed
  qed
qed simp

lemma long_option_rest: "long_option ctx arg a = Inr (i, a1) \<Longrightarrow> a_rest a1 = a_rest a"
  by (auto simp: long_option_def Let_def split: prod.splits option.splits sum.splits if_splits)

lemma parse_arg_rest: "xopt_parse_arg ctx arg rest y = Inr (p, cur, rest', y') \<Longrightarrow> length rest' \<le> length rest"
  by (auto simp: xopt_parse_arg_def Let_def split: if_splits sum.splits dest!: short_loop_rest long_option_rest)

function (sequential) xopt_loop :: "xoptContext \<Rightarrow> string list \<Rightarrow> xparse \<Rightarrow> string + xparse" where
  "xopt_loop ctx [] y = Inr y"
| "xopt_loop ctx (arg # rest) y =
     (case xopt_parse_arg ctx arg rest y of
        Inl e \<Rightarrow> Inl e
      | Inr (p, cur, rest', y') \<Rightarrow>
          (case p of
             ParsedOption \<Rightarrow>
               if flag (x_flags ctx) XOPT_CTX_POSIXMEHARDER \<and> y_extras y' \<noteq> []
               then Inl (set_err ''options cannot be specified after arguments: %s'' [str_arg cur])
               else xopt_loop ctx rest' y'
           | ParsedExtra \<Rightarrow> xopt_loop ctx rest' (y'\<lparr>y_extras := y_extras y' @ [cur]\<rparr>)
           | ParsedDoubleDash \<Rightarrow> xopt_loop ctx rest' y'))"
  by pat_completeness auto

termination
  by (relation "measure (\<lambda>(_, args, _). length args)") (auto dest!: parse_arg_rest)

definition missing_required :: "xoptOption \<Rightarrow> string" where
  "missing_required opt =
     (case o_longArg opt of
        Some l \<Rightarrow> set_err ''missing required option: --%s'' [str_arg l]
      | None \<Rightarrow> set_err ''missing required option: -%c'' [char_arg (o_shortArg opt)])"

text \<open>The parse of a whole command line: an error, or the data and the extra arguments.\<close>

definition xopt_parse :: "xoptContext \<Rightarrow> string list \<Rightarrow> xdata \<Rightarrow> string + (xdata \<times> string list)" where
  "xopt_parse ctx argv data =
     (let args = (if flag (x_flags ctx) XOPT_CTX_KEEPFIRST then argv else tl argv);
          y0 = \<lparr>y_data = data, y_required = map (\<lambda>opt. flag (o_options opt) XOPT_REQUIRED) (x_options ctx),
                y_doubledash = False, y_extras = []\<rparr>
      in case xopt_loop ctx args y0 of
           Inl e \<Rightarrow> Inl e
         | Inr y \<Rightarrow>
             (case find (\<lambda>(opt, req). req) (zip (x_options ctx) (y_required y)) of
                Some (opt, _) \<Rightarrow> Inl (missing_required opt)
              | None \<Rightarrow> Inr (y_data y, y_extras y)))"

section \<open>The help text\<close>

record xoptAutohelpOptions =
  h_usage :: "string option"
  h_prefix :: "string option"
  h_suffix :: "string option"
  h_spacer :: nat

definition option_names :: "xoptOption \<Rightarrow> string" where
  "option_names opt =
     (if o_shortArg opt \<noteq> NUL then ''-'' @ [o_shortArg opt] else [])
     @ (if o_shortArg opt \<noteq> NUL \<and> o_longArg opt \<noteq> None then '', '' else [])
     @ (case o_longArg opt of
          None \<Rightarrow> []
        | Some l \<Rightarrow> ''--'' @ l @ (case o_argDescrip opt of None \<Rightarrow> [] | Some d \<Rightarrow> ''='' @ d))"

definition option_help :: "nat \<Rightarrow> xoptOption \<Rightarrow> string" where
  "option_help col opt =
     option_names opt
     @ (case o_descrip opt of
          None \<Rightarrow> []
        | Some d \<Rightarrow> replicate (col - length (option_names opt)) (CHR '' '')
                   @ (if flag (o_options opt) XOPT_REQUIRED then ''(Required) '' else []) @ d @ [CHR 0x0A])"

definition xopt_autohelp :: "xoptContext \<Rightarrow> xoptAutohelpOptions option \<Rightarrow> string" where
  "xopt_autohelp ctx opts =
     (let lf = [CHR 0x0A];
          width = foldr (\<lambda>opt w. max (length (option_names opt)) w) (x_options ctx) 0;
          spacer = (case opts of Some h \<Rightarrow> h_spacer h | None \<Rightarrow> 2);
          usage = (case opts of None \<Rightarrow> None | Some h \<Rightarrow> h_usage h);
          prefix = (case opts of None \<Rightarrow> None | Some h \<Rightarrow> h_prefix h);
          suffix = (case opts of None \<Rightarrow> None | Some h \<Rightarrow> h_suffix h)
      in (case usage of None \<Rightarrow> [] | Some u \<Rightarrow> ''usage: '' @ x_name ctx @ '' '' @ u @ lf)
         @ (case prefix of None \<Rightarrow> [] | Some p \<Rightarrow> (if usage = None then [] else lf) @ p @ lf @ lf)
         @ concat (map (option_help (width + spacer)) (x_options ctx))
         @ (case suffix of None \<Rightarrow> [] | Some t \<Rightarrow> (if usage = None \<and> prefix = None then [] else lf) @ t @ lf))"

section \<open>Printing settings\<close>

text \<open>A setting on the command line: by the long or the short name, the index of the option, the value (which a
  flag ignores).\<close>

datatype setting = Setting bool nat string

definition is_flag :: "xoptOption \<Rightarrow> bool" where
  "is_flag opt \<longleftrightarrow> flag (o_options opt) XOPT_TYPE_BOOL"

definition long_name :: "xoptOption \<Rightarrow> string" where
  "long_name opt = (case o_longArg opt of Some l \<Rightarrow> l | None \<Rightarrow> [])"

fun print_setting :: "xoptOption list \<Rightarrow> setting \<Rightarrow> string list" where
  "print_setting opts (Setting by_long i v) =
     (let opt = opts ! i in
      if by_long then (if is_flag opt then [''--'' @ long_name opt] else [''--'' @ long_name opt @ ''='' @ v])
      else (if is_flag opt then [''-'' @ [o_shortArg opt]] else [''-'' @ [o_shortArg opt], v]))"

definition cell_of :: "xoptOption \<Rightarrow> string \<Rightarrow> (xvalue \<times> string) option" where
  "cell_of opt v = parse_value (o_options opt AND 0x3F) (if is_flag opt then [] else v)"

fun store :: "xoptOption list \<Rightarrow> setting \<Rightarrow> xdata \<Rightarrow> xdata" where
  "store opts (Setting by_long i v) data = data(o_offset (opts ! i) := fst (the (cell_of (opts ! i) v)))"

text \<open>A setting that can be printed: the option exists, uses the default callback and has the name, and the value
  is of its type and, after a short name, not mistaken for an option.\<close>

fun setting_ok :: "xoptOption list \<Rightarrow> setting \<Rightarrow> bool" where
  "setting_ok opts (Setting by_long i v) \<longleftrightarrow>
     i < length opts \<and> o_callback (opts ! i) = None \<and> (if by_long then o_longArg (opts ! i) \<noteq> None else o_shortArg (opts ! i) \<noteq> NUL)
     \<and> (\<exists>c. cell_of (opts ! i) v = Some (c, [])) \<and> (is_flag (opts ! i) \<or> v \<noteq> [] \<and> (by_long \<or> xopt_get_size v = 0))"

text \<open>The names of the options are distinct, long names have two letters or more, and names can be told from dashes and values.\<close>

definition names_of :: "xoptOption \<Rightarrow> string list" where
  "names_of opt = (if o_shortArg opt \<noteq> NUL then [[o_shortArg opt]] else []) @ (case o_longArg opt of Some l \<Rightarrow> [l] | None \<Rightarrow> [])"

definition table_ok :: "xoptOption list \<Rightarrow> bool" where
  "table_ok opts \<longleftrightarrow> distinct (concat (map names_of opts)) \<and> list_all (\<lambda>opt. o_shortArg opt \<noteq> CHR ''-''
     \<and> (case o_longArg opt of Some l \<Rightarrow> 2 \<le> length l \<and> CHR ''='' \<notin> set l | None \<Rightarrow> True)) opts"

lemma find_enumerate:
  assumes i: "i < length xs" "P (i, xs ! i)" and u: "\<And>j. j < length xs \<Longrightarrow> P (j, xs ! j) \<Longrightarrow> j = i"
  shows "find P (enumerate 0 xs) = Some (i, xs ! i)"
proof -
  have e: "enumerate 0 xs ! j = (j, xs ! j)" if "j < length xs" for j using that by (simp add: nth_enumerate_eq)
  have "\<not> P (enumerate 0 xs ! j)" if j: "j < i" for j
  proof
    assume "P (enumerate 0 xs ! j)"
    then have "P (j, xs ! j)" using e [of j] i(1) j by simp
    then show False using u [of j] i(1) j by simp
  qed
  moreover have "P (enumerate 0 xs ! i)" "enumerate 0 xs ! i = (i, xs ! i)" using e i by simp_all
  ultimately show ?thesis unfolding find_Some_iff using i(1) by (metis length_enumerate)
qed

lemma distinct_concat_index:
  "distinct (concat xss) \<Longrightarrow> i < length xss \<Longrightarrow> j < length xss \<Longrightarrow> x \<in> set (xss ! i) \<Longrightarrow> x \<in> set (xss ! j) \<Longrightarrow> i = j"
proof (induction xss arbitrary: i j)
  case (Cons ys xss)
  have "False" if x: "x \<in> set ys" "k < length xss" "x \<in> set (xss ! k)" for k
  proof -
    have "xss ! k \<in> set xss" using x(2) by simp
    then have "x \<in> set (concat xss)" using x(3) by auto
    then show False using Cons.prems(1) x(1) by auto
  qed
  then show ?case using Cons by (cases i; cases j) auto
qed simp

lemma lookup:
  assumes t: "table_ok (x_options ctx)" and i: "i < length (x_options ctx)" "n \<in> set (names_of (x_options ctx ! i))"
    and m: "\<And>opt. opt \<in> set (x_options ctx) \<Longrightarrow> option_matches arg len sz opt \<longleftrightarrow> n \<in> set (names_of opt)"
  shows "xopt_get_arg ctx arg len sz =
    (if is_flag (x_options ctx ! i) then 0 else if flag (o_options (x_options ctx ! i)) XOPT_PARAM_OPTIONAL then 1 else 2,
     Some (i, x_options ctx ! i))"
proof -
  have "find (\<lambda>(i, opt). option_matches arg len sz opt) (enumerate 0 (x_options ctx)) = Some (i, x_options ctx ! i)"
  proof (rule find_enumerate [OF i(1)])
    show "case (i, x_options ctx ! i) of (i, opt) \<Rightarrow> option_matches arg len sz opt" using m i by simp
  next
    fix j assume j: "j < length (x_options ctx)" "case (j, x_options ctx ! j) of (i, opt) \<Rightarrow> option_matches arg len sz opt"
    then have "n \<in> set (names_of (x_options ctx ! j))" using m by simp
    then show "j = i" using distinct_concat_index [of "map names_of (x_options ctx)" j i n] t i j(1) by (simp add: table_ok_def)
  qed
  then show ?thesis by (simp add: xopt_get_arg_def is_flag_def)
qed

lemma set_default:
  assumes "o_callback opt = None" "cell_of opt v = Some (c, [])"
  shows "is_flag opt \<Longrightarrow> xopt_set opt None b d = Inr (d(o_offset opt := c))"
    "\<not> is_flag opt \<Longrightarrow> v \<noteq> [] \<Longrightarrow> xopt_set opt (Some v) b d = Inr (d(o_offset opt := c))"
  using assms by (simp_all add: xopt_set_def xopt_default_callback_def cell_of_def is_flag_def)

lemma strchr_first: "c \<notin> set l \<Longrightarrow> strchr (l @ c # v) c = Some (c # v)"
  by (induction l) auto

lemma strchr_none: "c \<notin> set l \<Longrightarrow> strchr l c = None"
  by (induction l) auto

lemma match_long:
  assumes "table_ok opts" "opt \<in> set opts" "2 \<le> length l"
  shows "option_matches (l @ t) (length l) 2 opt \<longleftrightarrow> l \<in> set (names_of opt)"
  using assms by (auto simp: option_matches_def names_of_def strncmp_eq_def split: option.splits)

lemma match_short:
  assumes "table_ok opts" "opt \<in> set opts" "c \<noteq> NUL"
  shows "option_matches (c # cs) 1 1 opt \<longleftrightarrow> [c] \<in> set (names_of opt)"
  using assms by (auto simp: option_matches_def names_of_def table_ok_def list_all_iff split: option.splits)

lemma long_setting:
  fixes ctx defines "opts \<equiv> x_options ctx"
  assumes t: "table_ok opts" and i: "i < length opts" "o_longArg (opts ! i) = Some l" and t': "t = [] \<or> hd t = CHR ''=''"
  shows "xopt_get_arg ctx (l @ t) (length l) 2 =
      (if is_flag (opts ! i) then 0 else if flag (o_options (opts ! i)) XOPT_PARAM_OPTIONAL then 1 else 2, Some (i, opts ! i))"
    "takeWhile (\<lambda>c. c \<noteq> CHR ''='') (l @ t) = l" "2 \<le> length l" "strchr (l @ t) (CHR ''='') = (if t = [] then None else Some t)"
proof -
  have l: "2 \<le> length l" "CHR ''='' \<notin> set l" using t i by (auto simp: table_ok_def list_all_iff dest!: nth_mem)
  show "2 \<le> length l" by (rule l)
  have "l \<in> set (names_of (opts ! i))" using i by (simp add: names_of_def)
  then show "xopt_get_arg ctx (l @ t) (length l) 2 =
      (if is_flag (opts ! i) then 0 else if flag (o_options (opts ! i)) XOPT_PARAM_OPTIONAL then 1 else 2, Some (i, opts ! i))"
    using lookup [of ctx i l "l @ t" "length l" 2] t i l match_long [OF t _ l(1)] by (simp add: opts_def)
  have "\<forall>c \<in> set l. c \<noteq> CHR ''=''" using l(2) by auto
  then show "takeWhile (\<lambda>c. c \<noteq> CHR ''='') (l @ t) = l" using t' by (cases t) (simp_all add: takeWhile_append)
  show "strchr (l @ t) (CHR ''='') = (if t = [] then None else Some t)"
    using t' l(2) by (cases t) (simp_all add: strchr_first strchr_none)
qed

lemma parse_setting:
  assumes t: "table_ok (x_options ctx)" and s: "setting_ok (x_options ctx) (Setting b i v)" and y: "\<not> y_doubledash y"
  shows "\<exists>arg args cur. print_setting (x_options ctx) (Setting b i v) = arg # args
    \<and> xopt_parse_arg ctx arg (args @ rest) y = Inr (ParsedOption, cur, rest,
        y\<lparr>y_data := store (x_options ctx) (Setting b i v) (y_data y), y_required := (y_required y)[i := False]\<rparr>)"
proof -
  let ?opt = "x_options ctx ! i"
  obtain c where c: "cell_of ?opt v = Some (c, [])" using s by auto
  have cb: "o_callback ?opt = None" and i: "i < length (x_options ctx)" using s by auto
  note set = set_default [OF cb c]
  show ?thesis
  proof (cases b)
    case True
    then obtain l where l: "o_longArg ?opt = Some l" using s by auto
    let ?t = "if is_flag ?opt then [] else ''='' @ v"
    have nm: "xopt_get_arg ctx (l @ ?t) (length l) 2 =
        (if is_flag ?opt then 0 else if flag (o_options ?opt) XOPT_PARAM_OPTIONAL then 1 else 2, Some (i, ?opt))"
      "takeWhile (\<lambda>c. c \<noteq> CHR ''='') (l @ ?t) = l" "2 \<le> length l"
      "strchr (l @ ?t) (CHR ''='') = (if is_flag ?opt then None else Some (CHR ''='' # v))"
      using long_setting [OF t i l, of ?t] by auto
    have "v \<noteq> []" if "\<not> is_flag ?opt" using s that by auto
    then have "long_option ctx (l @ ?t) \<lparr>a_cur = ''--'' @ l @ ?t, a_rest = rest, a_data = y_data y\<rparr>
        = Inr (Some i, \<lparr>a_cur = ''--'' @ l @ ?t, a_rest = rest, a_data = (y_data y)(o_offset ?opt := c)\<rparr>)"
      unfolding long_option_def nm(2) Let_def nm(1) nm(4) using set by (cases "is_flag ?opt") simp_all
    moreover have "print_setting (x_options ctx) (Setting b i v) = [''--'' @ l @ ?t]" using True l by (simp add: long_name_def Let_def)
    moreover have "xopt_get_size (''--'' @ l @ ?t) = 2" by (simp add: xopt_get_size_def)
    moreover have "l \<noteq> []" using nm(3) by auto
    ultimately show ?thesis using y c by (simp add: xopt_parse_arg_def)
  next
    case False
    let ?c = "o_shortArg ?opt"
    have sc: "?c \<noteq> NUL" "?c \<noteq> CHR ''-''" using s t False i by (auto simp: table_ok_def list_all_iff dest!: nth_mem)
    have "xopt_get_arg ctx [?c] 1 1 =
        (if is_flag ?opt then 0 else if flag (o_options ?opt) XOPT_PARAM_OPTIONAL then 1 else 2, Some (i, ?opt))"
      using lookup [of ctx i "[?c]" "[?c]" 1 1] t i sc match_short [OF t _ sc(1)] by (simp add: names_of_def)
    moreover have "xopt_get_size (''-'' @ [?c]) = 1" using sc by (simp add: xopt_get_size_def)
    ultimately show ?thesis using False set s y c
      by (cases "is_flag ?opt") (simp_all add: xopt_parse_arg_def short_option_def Let_def)
  qed
qed

fun setting_index :: "setting \<Rightarrow> nat" where
  "setting_index (Setting b i v) = i"

definition seen :: "setting list \<Rightarrow> bool list \<Rightarrow> bool list" where
  "seen ss req = fold (\<lambda>st r. r[setting_index st := False]) ss req"

lemma seen_nth: "length (seen ss req) = length req \<and> (i < length req \<longrightarrow> (seen ss req ! i \<longleftrightarrow> req ! i \<and> i \<notin> setting_index ` set ss))"
  unfolding seen_def
proof (induction ss arbitrary: req)
  case (Cons st ss)
  have "req[setting_index st := False] ! i \<longleftrightarrow> req ! i \<and> i \<noteq> setting_index st" if "i < length req"
    using that by (cases "i = setting_index st") simp_all
  then show ?case using Cons.IH [of "req[setting_index st := False]"] by auto
qed simp

lemma loop_settings:
  assumes "table_ok (x_options ctx)" "list_all (setting_ok (x_options ctx)) ss" "\<not> y_doubledash y" "y_extras y = []"
  shows "xopt_loop ctx (concat (map (print_setting (x_options ctx)) ss) @ rest) y
    = xopt_loop ctx rest (y\<lparr>y_data := fold (store (x_options ctx)) ss (y_data y), y_required := seen ss (y_required y)\<rparr>)"
  using assms(2-)
proof (induction ss arbitrary: y)
  case (Cons st ss)
  obtain b i v where st: "st = Setting b i v" by (cases st)
  let ?more = "concat (map (print_setting (x_options ctx)) ss) @ rest"
  have ok: "setting_ok (x_options ctx) (Setting b i v)" using Cons.prems(1) st by simp
  from parse_setting [OF assms(1) ok Cons.prems(2), of ?more] obtain arg args cur where
    p: "print_setting (x_options ctx) (Setting b i v) = arg # args"
      "xopt_parse_arg ctx arg (args @ ?more) y = Inr (ParsedOption, cur, ?more,
        y\<lparr>y_data := store (x_options ctx) (Setting b i v) (y_data y), y_required := (y_required y)[i := False]\<rparr>)"
    by blast
  let ?y = "y\<lparr>y_data := store (x_options ctx) (Setting b i v) (y_data y), y_required := (y_required y)[i := False]\<rparr>"
  have "xopt_loop ctx (concat (map (print_setting (x_options ctx)) (st # ss)) @ rest) y = xopt_loop ctx ?more ?y"
    using p Cons.prems(3) st by simp
  also have "\<dots> = xopt_loop ctx rest (?y\<lparr>y_data := fold (store (x_options ctx)) ss (y_data ?y), y_required := seen ss (y_required ?y)\<rparr>)"
    using Cons.prems by (intro Cons.IH) simp_all
  finally show ?case using st by (simp add: seen_def)
qed (simp add: seen_def)

lemma loop_extras:
  "list_all (\<lambda>x. xopt_get_size x = 0) xs \<Longrightarrow> xopt_loop ctx xs y = Inr (y\<lparr>y_extras := y_extras y @ xs\<rparr>)"
  by (induction xs arbitrary: y) (simp_all add: xopt_parse_arg_def)

lemma parse_settings:
  assumes "table_ok (x_options ctx)" "\<not> flag (x_flags ctx) XOPT_CTX_KEEPFIRST" "list_all (setting_ok (x_options ctx)) ss"
    "list_all (\<lambda>x. xopt_get_size x = 0) extras"
    "\<forall>i < length (x_options ctx). flag (o_options (x_options ctx ! i)) XOPT_REQUIRED \<longrightarrow> i \<in> setting_index ` set ss"
  shows "xopt_parse ctx (prog # concat (map (print_setting (x_options ctx)) ss) @ extras) data
    = Inr (fold (store (x_options ctx)) ss data, extras)"
proof -
  let ?opts = "x_options ctx"
  let ?req = "map (\<lambda>opt. flag (o_options opt) XOPT_REQUIRED) ?opts"
  let ?y0 = "\<lparr>y_data = data, y_required = ?req, y_doubledash = False, y_extras = []\<rparr>"
  have l: "xopt_loop ctx (concat (map (print_setting ?opts) ss) @ extras) ?y0
    = Inr \<lparr>y_data = fold (store ?opts) ss data, y_required = seen ss ?req, y_doubledash = False, y_extras = extras\<rparr>"
    using loop_settings [OF assms(1,3), of ?y0] loop_extras [OF assms(4)] by simp
  have n: "find (\<lambda>(opt, req). req) (zip ?opts (seen ss ?req)) = None"
    using assms(5) seen_nth [of ss ?req] by (auto simp: find_None_iff set_zip)
  show ?thesis unfolding xopt_parse_def using assms(2) l n by simp
qed


section \<open>Error messages\<close>

text \<open>A format that spells out directives gives their texts, cut to the buffer.\<close>

lemma set_err_text:
  assumes "list_all directive_ok ds" "NUL \<notin> set (concat (map text_of ds))"
  shows "set_err (concat (map fmt_of ds)) (concat (map args_of ds)) = take (ERRBUF_SIZE - 1) (concat (map text_of ds))"
proof -
  let ?t = "concat (map text_of ds)" and ?b = "replicate ERRBUF_SIZE NUL"
  have "r_str r = cut_to ERRBUF_SIZE ?t ?b"
    if "rpl_vsnprintf 0 (Some ?b) ERRBUF_SIZE (concat (map fmt_of ds)) (concat (map args_of ds)) = Some r" for r
    using vsnprintf_expands [OF assms(1), of ERRBUF_SIZE ?b 0] that by (auto simp: Let_def)
  moreover have "NUL \<notin> set (take (ERRBUF_SIZE - 1) ?t)" using assms(2) by (meson in_set_takeD)
  then have "takeWhile (\<lambda>c. c \<noteq> NUL) (cut_to ERRBUF_SIZE ?t ?b) = take (ERRBUF_SIZE - 1) ?t"
    by (auto simp: cut_to_def ERRBUF_SIZE_def takeWhile_tail)
  moreover have "rpl_vsnprintf 0 (Some ?b) ERRBUF_SIZE (concat (map fmt_of ds)) (concat (map args_of ds)) \<noteq> None"
    using vsnprintf_expands [OF assms(1), of ERRBUF_SIZE ?b 0] by simp
  ultimately show ?thesis by (auto simp: set_err_def)
qed

lemma literals:
  "concat (map fmt_of (map Lit t)) = t" "concat (map args_of (map Lit t)) = []" "concat (map text_of (map Lit t)) = t"
  by (induction t) simp_all

lemma literals_ok: "CHR ''%'' \<notin> set t \<Longrightarrow> NUL \<notin> set t \<Longrightarrow> list_all directive_ok (map Lit t)"
  by (auto simp: list_all_iff)

text \<open>Messages of literal text and one argument.\<close>

lemma set_err_one:
  assumes "CHR ''%'' \<notin> set t" "NUL \<notin> set t" "directive_ok d" "NUL \<notin> set (text_of d)"
  shows "set_err (t @ fmt_of d) (args_of d) = take (ERRBUF_SIZE - 1) (t @ text_of d)"
proof -
  let ?ds = "map Lit t @ [d]"
  have e: "concat (map fmt_of ?ds) = t @ fmt_of d" "concat (map args_of ?ds) = args_of d" "concat (map text_of ?ds) = t @ text_of d"
    by (simp_all only: map_append concat_append literals list.map concat.simps append_Nil append_Nil2)
  have "list_all directive_ok ?ds" using literals_ok [OF assms(1,2)] assms(3) by simp
  from set_err_text [OF this] show ?thesis unfolding e using assms by simp
qed

lemma set_err_star:
  "CHR ''%'' \<notin> set t \<Longrightarrow> NUL \<notin> set t \<Longrightarrow> NUL \<notin> set s \<Longrightarrow> in_int n \<Longrightarrow>
    set_err (t @ ''%.*s'') [IntArg (of_nat n), str_arg s] = take (ERRBUF_SIZE - 1) (t @ take n s)"
  using set_err_one [of t "StarText n s"] by (auto dest: in_set_takeD)

lemma set_err_str:
  "CHR ''%'' \<notin> set t \<Longrightarrow> NUL \<notin> set t \<Longrightarrow> NUL \<notin> set s \<Longrightarrow>
    set_err (t @ ''%s'') [str_arg s] = take (ERRBUF_SIZE - 1) (t @ s)"
  using set_err_one [of t "Text [] 0 None (Some s)"]
  by (simp add: spell_def width_text_def prec_text_def string_ref_def to_width_def sizes_ok_def in_int_def INT_MAX_def nul_free_def)

lemma unknown_long:
  assumes "\<forall>opt \<in> set (x_options ctx). o_longArg opt \<noteq> Some name"
  shows "xopt_get_arg ctx name (length name) 2 = (0, None)"
proof -
  have "\<not> option_matches name (length name) 2 opt" if "opt \<in> set (x_options ctx)" for opt
    using assms that by (auto simp: option_matches_def strncmp_eq_def split: option.splits)
  then have "find (\<lambda>(i, opt). option_matches name (length name) 2 opt) (enumerate 0 (x_options ctx)) = None"
    by (auto simp: find_None_iff enumerate_eq_zip dest: set_zip_rightD)
  then show ?thesis by (simp add: xopt_get_arg_def)
qed

text \<open>The first argument after the name of the program is a long option without a value.\<close>

lemma parse_first_long:
  assumes "\<not> flag (x_flags ctx) XOPT_CTX_KEEPFIRST" "name \<noteq> []" "CHR ''='' \<notin> set name"
    "\<And>a. long_option ctx name a = Inl e"
  shows "xopt_parse ctx (prog # (''--'' @ name) # rest) data = Inl e"
  using assms by (simp add: xopt_parse_def xopt_parse_arg_def xopt_get_size_def Let_def)

end
