(* ===== verification/Cli.thy ===== *)
theory Cli
  imports XOpt SchedProps
begin

text \<open>
  The command line tool nvsharectl (src/cli.c): its options, the messages it sends to the scheduler and
  its main function, over the parser of src/xopt.c.
\<close>

section \<open>Options\<close>

text \<open>The offsets of \<open>SimpleConfig\<close>.\<close>

definition off_tq :: nat where "off_tq = 0"
definition off_anti_thrash :: nat where "off_anti_thrash = 8"
definition off_help :: nat where "off_help = 16"

definition cli_options :: "xoptOption list" where
  "cli_options =
     [\<lparr>o_longArg = Some ''set-tq'', o_shortArg = CHR ''T'', o_offset = off_tq, o_callback = None, o_options = XOPT_TYPE_INT,
       o_argDescrip = Some ''n'',
       o_descrip = Some ''Set the time quantum of the scheduler to TQ seconds. Only accepts positive integers.''\<rparr>,
      \<lparr>o_longArg = Some ''anti-thrash'', o_shortArg = CHR ''S'', o_offset = off_anti_thrash, o_callback = None,
       o_options = XOPT_TYPE_STRING, o_argDescrip = Some ''s'',
       o_descrip = Some (''Set the desired status of the scheduler. Only accepts values '' @ [CHR 0x22] @ ''on'' @ [CHR 0x22]
         @ '' or '' @ [CHR 0x22] @ ''off'' @ [CHR 0x22] @ ''.'')\<rparr>,
      \<lparr>o_longArg = Some ''help'', o_shortArg = CHR ''h'', o_offset = off_help, o_callback = None, o_options = XOPT_TYPE_BOOL,
       o_argDescrip = None, o_descrip = Some ''Shows this help message''\<rparr>,
      \<lparr>o_longArg = None, o_shortArg = NUL, o_offset = 0, o_callback = None, o_options = 0, o_argDescrip = None, o_descrip = None\<rparr>]"

definition cli_context :: xoptContext where
  "cli_context = xopt_context ''nvsharectl'' cli_options (XOPT_CTX_POSIXMEHARDER OR XOPT_CTX_STRICT)"

text \<open>The configuration before parsing: \<open>main\<close> does not initialise the field \<open>help\<close>, so \<open>junk\<close> is any value.\<close>

definition cli_config :: "bool \<Rightarrow> xdata" where
  "cli_config junk = (\<lambda>k. if k = off_tq then XInt 0 else if k = off_help then XBool junk else XNull)"

section \<open>Messages\<close>

text \<open>One exchange with the scheduler: the attempts to connect, the writes, and whether the socket closes.\<close>

record exchange =
  k_connect :: "(sys \<times> sys) list"
  k_write :: "wcall list"
  k_close :: bool

definition tq_message :: "int \<Rightarrow> message" where
  "tq_message newtq = zero_message\<lparr>m_id := 0xBEEF, m_type := SET_TQ, m_data := take (MSG_DATA_LEN - 1) (show_int newtq)\<rparr>"

definition status_message :: "bool \<Rightarrow> message" where
  "status_message on = zero_message\<lparr>m_type := (if on then SCHED_ON else SCHED_OFF), m_id := 0xBEEF\<rparr>"

text \<open>The messages that reach the scheduler whole; a write that is cut short is only reported.\<close>

definition send_to_scheduler :: "message \<Rightarrow> exchange \<Rightarrow> message list res" where
  "send_to_scheduler m k =
     (case nvshare_connect 0 (k_connect k) of
        None \<Rightarrow> Inl OutOfFuel
      | Some r \<Rightarrow>
          if so_ret r \<noteq> 0 then Inl Exited
          else (case write_whole (k_write k) (encode_message m) of
                  None \<Rightarrow> Inl OutOfFuel
                | Some (w, _, _) \<Rightarrow> if \<not> k_close k then Inl Exited else Inr (if w = Inr 659 then [m] else [])))"

definition change_tq :: "int \<Rightarrow> exchange \<Rightarrow> message list res" where
  "change_tq newtq k = send_to_scheduler (tq_message newtq) k"

definition change_status :: "bool \<Rightarrow> exchange \<Rightarrow> message list res" where
  "change_status on k = send_to_scheduler (status_message on) k"

section \<open>The tool\<close>

text \<open>The two actions: the messages they deliver, and whether there was anything to do.\<close>

definition cli_status :: "exchange \<Rightarrow> xdata \<Rightarrow> (bool \<times> message list) res" where
  "cli_status k d =
     (case d off_anti_thrash of
        XString v \<Rightarrow>
          if v = ''on'' then bindR (change_status True k) (\<lambda>ms. Inr (True, ms))
          else if v = ''off'' then bindR (change_status False k) (\<lambda>ms. Inr (True, ms))
          else Inl Exited
      | _ \<Rightarrow> Inr (False, []))"

definition cli_tq :: "exchange \<Rightarrow> xdata \<Rightarrow> (bool \<times> message list) res" where
  "cli_tq k d =
     (case d off_tq of
        XInt n \<Rightarrow> if n = 0 then Inr (False, []) else if n \<le> 0 then Inl Exited
                 else bindR (change_tq n k) (\<lambda>ms. Inr (True, ms))
      | _ \<Rightarrow> Inr (False, []))"

text \<open>\<open>suffix\<close> is what the field of that name, which \<open>main\<close> leaves uninitialised, happens to point to.\<close>

definition cli_help :: "string option \<Rightarrow> string" where
  "cli_help suffix = xopt_autohelp cli_context (Some \<lparr>h_usage = Some ''[options]'',
     h_prefix = Some ''A command line utility to configure the nvshare scheduler.'', h_suffix = suffix, h_spacer = 10\<rparr>)"

text \<open>The messages delivered, and the help text if it is printed.\<close>

definition cli_main :: "bool \<Rightarrow> string option \<Rightarrow> string list \<Rightarrow> exchange \<Rightarrow> exchange \<Rightarrow> (message list \<times> string option) res" where
  "cli_main junk suffix argv k1 k2 =
     (case xopt_parse cli_context argv (cli_config junk) of
        Inl e \<Rightarrow> Inl Exited
      | Inr (d, extras) \<Rightarrow>
          bindR (cli_status k1 d) (\<lambda>(did1, ms1). bindR (cli_tq k2 d) (\<lambda>(did2, ms2).
            Inr (ms1 @ ms2, if d off_help = XBool True \<or> \<not> did1 \<and> \<not> did2 then Some (cli_help suffix) else None))))"

section \<open>Facts\<close>

lemma show_base_hd: "0 < n \<Longrightarrow> digit_of (hd (show_base 10 n)) \<noteq> 0"
proof (induction "10 :: nat" n rule: show_base.induct)
  case (1 n)
  show ?case
  proof (cases "n < 10")
    case True
    then show ?thesis using 1(2) by (simp add: show_base.simps [of 10 n])
  next
    case False
    moreover have "show_base 10 (n div 10) \<noteq> []" using show_base_digits [of 10 "n div 10"] by simp
    ultimately show ?thesis using 1(1) by (simp add: show_base.simps [of 10 n])
  qed
qed

text \<open>A positive decimal number is read back by \<^verbatim>\<open>strtol\<close> with base 0.\<close>

lemma strtol0_show_nat:
  assumes "0 < n" "int n \<le> LONG_MAX"
  shows "strtol 0 (show_nat n) = \<lparr>st_val = int n, st_rest = [], st_erange = False\<rparr>"
proof -
  let ?ds = "show_base 10 n"
  have ds: "set ?ds \<subseteq> {c. \<exists>d < 10. c = digit_char d}" "?ds \<noteq> []"
    using show_base_digits [of 10 n] by auto
  have sd: "dropWhile isspace ?ds = ?ds" "strip_sign ?ds = (False, ?ds)"
    using strip_digits [OF ds(1) _ ds(2)] by simp_all
  have "hd ?ds \<noteq> CHR ''0''" using show_base_hd [OF assms(1)] by (auto simp: digit_of_def)
  then have "strip_base 0 ?ds = strip_base 10 ?ds"
    using ds(2) by (cases ?ds) (auto simp: strip_base_def has_hex_prefix_def split: list.splits)
  then have "strtol 0 (show_nat n) = strtol 10 (show_nat n)" by (simp add: strtol_def show_nat_def sd)
  then show ?thesis using strtol10_show_nat [OF assms(2)] by simp
qed

lemma cli_table: "x_options cli_context = take 3 cli_options"
  by (simp add: cli_context_def xopt_context_def cli_options_def)

lemma cli_table_ok: "table_ok (x_options cli_context)" "\<not> flag (x_flags cli_context) XOPT_CTX_KEEPFIRST"
  "i < length (x_options cli_context) \<Longrightarrow> \<not> flag (o_options (x_options cli_context ! i)) XOPT_REQUIRED"
  by (auto simp: cli_table table_ok_def cli_options_def names_of_def flag_def xopt_flags cli_context_def xopt_context_def
      less_Suc_eq numeral_3_eq_3)

lemma tq_cell:
  assumes "0 < n" "n < 2 ^ 31"
  shows "cell_of (x_options cli_context ! 0) (show_nat n) = Some (XInt (int n), [])"
  using strtol0_show_nat [of n] assms
  by (simp add: cell_of_def cli_table cli_options_def parse_value_def xopt_flags is_flag_def flag_def to_int32_id LONG_MAX_def)

lemma show_nat_not_dash: "xopt_get_size (show_nat n) = 0" "show_nat n \<noteq> []"
proof -
  obtain d ds where d: "show_nat n = digit_char d # ds" "d < 10"
    using show_base_digits [of 10 n] by (cases "show_base 10 n") (auto simp: show_nat_def)
  then show "xopt_get_size (show_nat n) = 0" "show_nat n \<noteq> []"
    using digit_char_not_sign(1) [of d] by (simp_all add: xopt_get_size_def)
qed

lemma parse_tq:
  assumes "0 < n" "n < 2 ^ 31" "argv = [prog, ''--set-tq='' @ show_nat n] \<or> argv = [prog, ''-T'', show_nat n]"
  shows "xopt_parse cli_context argv (cli_config junk) = Inr ((cli_config junk)(off_tq := XInt (int n)), [])"
proof -
  obtain b where argv: "argv = prog # concat (map (print_setting (x_options cli_context)) [Setting b 0 (show_nat n)]) @ []"
  proof (cases "argv = [prog, ''--set-tq='' @ show_nat n]")
    case True
    then show thesis
      by (intro that [of True]) (simp add: cli_table cli_options_def is_flag_def flag_def xopt_flags long_name_def Let_def)
  next
    case False
    then show thesis using assms(3)
      by (intro that [of False]) (simp add: cli_table cli_options_def is_flag_def flag_def xopt_flags Let_def)
  qed
  have "setting_ok (x_options cli_context) (Setting b 0 (show_nat n))"
    using tq_cell [OF assms(1,2)] show_nat_not_dash [of n] by (simp add: cli_table cli_options_def)
  then show ?thesis unfolding argv
    using parse_settings [OF cli_table_ok(1,2), of "[Setting b 0 (show_nat n)]" "[]" prog "cli_config junk"] tq_cell [OF assms(1,2)]
      cli_table_ok(3)
    by (simp add: cli_table [THEN arg_cong, of "\<lambda>x. o_offset (x ! 0)"] cli_options_def [THEN arg_cong, of "\<lambda>x. o_offset (x ! 0)"])
qed

lemma send_ok:
  assumes "k_connect k = [(SysOk fd, SysOk 0)]" "k_write k = [WOk 659]" "k_close k"
  shows "send_to_scheduler m k = Inr [m]"
  using assms by (simp add: send_to_scheduler_def nvshare_unix_connect_def write_whole_one encode_message_length)

lemma tq_message_ok:
  assumes "n < 2 ^ 31"
  shows "message_ok (tq_message (int n))" "m_data (tq_message (int n)) = show_nat n"
proof -
  have "length (show_nat n) \<le> 10" by (rule show_nat_length) (use assms in simp_all)
  moreover have "NUL \<notin> set (show_nat n)"
  proof
    assume "NUL \<in> set (show_nat n)"
    then obtain d where "d < 10" "NUL = digit_char d" using show_base_digits [of 10 n] by (auto simp: show_nat_def)
    then show False using digit_char_not_sign(3) [of d] by simp
  qed
  ultimately show "message_ok (tq_message (int n))" "m_data (tq_message (int n)) = show_nat n"
    by (simp_all add: tq_message_def message_ok_def zero_message_def type_ok_def str_fits_def int32_ok_def field_lens show_int_def)
qed

lemma set_tq_works:
  assumes "strtol 0 v = \<lparr>st_val = n, st_rest = [], st_erange = False\<rparr>" "v \<noteq> []" "to_int32 n = n"
  shows "s_tq (set_tq v s) = n \<and> list_all (\<lambda>g. g_must_reset_timer (gpu (set_tq v s) g)) (s_contexts s)"
proof -
  let ?f = "\<lambda>x. x\<lparr>g_must_reset_timer := True, g_timer_wake := True\<rparr>"
  have "s_tq (fold (\<lambda>g. upd_gpu g ?f) gs t) = s_tq t
      \<and> (g_must_reset_timer (gpu t g) \<or> g \<in> set gs \<longrightarrow> g_must_reset_timer (gpu (fold (\<lambda>g. upd_gpu g ?f) gs t) g))" for g gs t
  proof (induction gs arbitrary: t)
    case (Cons h gs)
    then show ?case using Cons.IH [of "upd_gpu h ?f t"] by (auto simp: upd_gpu_def)
  qed simp
  then show ?thesis using assms by (simp add: set_tq_def list_all_iff)
qed

section \<open>Properties\<close>

text \<open>(C33) The command line that spells out a list of settings is parsed back to these settings, in order, with the
  extra arguments that follow them, for every table of options with distinct names; no required
  option may be left out. Settings are spelled \<open>--name=value\<close>, \<open>-n value\<close>, \<open>--flag\<close> or \<open>-f\<close>.\<close>

theorem xopt_roundtrip:
  assumes "table_ok (x_options ctx)" "\<not> flag (x_flags ctx) XOPT_CTX_KEEPFIRST" "list_all (setting_ok (x_options ctx)) ss"
    "list_all (\<lambda>x. xopt_get_size x = 0) extras"
    "\<forall>i < length (x_options ctx). flag (o_options (x_options ctx ! i)) XOPT_REQUIRED \<longrightarrow> i \<in> setting_index ` set ss"
  shows "xopt_parse ctx (prog # concat (map (print_setting (x_options ctx)) ss) @ extras) data
    = Inr (fold (store (x_options ctx)) ss data, extras)"
  using assms by (rule parse_settings)

theorem xopt_roundtrip_witness:
  "xopt_parse cli_context [''nvsharectl'', ''--anti-thrash=on'', ''-h'', ''x''] (cli_config False)
     = Inr ((cli_config False)(off_anti_thrash := XString ''on'', off_help := XBool True), [''x''])"
  using xopt_roundtrip [OF cli_table_ok(1,2), of "[Setting True 1 ''on'', Setting False 2 []]" "[''x'']" "''nvsharectl''" "cli_config False"]
    cli_table_ok(3)
  by (simp add: cli_table cli_options_def cell_of_def parse_value_def xopt_flags is_flag_def flag_def long_name_def
      xopt_get_size_def off_anti_thrash_def off_help_def Let_def)

text \<open>(C32) A time quantum set with nvsharectl, by either name of the option, reaches the scheduler: exactly one
  message is delivered, and once it has been decoded and processed the scheduler holds that quantum
  and has asked the timers of all GPUs to start anew.\<close>

theorem cli_tq_reaches_scheduler:
  assumes "0 < n" "n < 2 ^ 31" "argv = [prog, ''--set-tq='' @ show_nat n] \<or> argv = [prog, ''-T'', show_nat n]"
    "k_connect k = [(SysOk fd, SysOk 0)]" "k_write k = [WOk 659]" "k_close k"
  shows "\<exists>m help s'. cli_main junk suffix argv k' k = Inr ([m], help)
    \<and> process_msg annot cred oob f p (decode_message (encode_message m)) s = Inr s' \<and> s_tq s' = int n
    \<and> list_all (\<lambda>g. g_must_reset_timer (gpu s' g)) (s_contexts s)"
proof -
  have d: "xopt_parse cli_context argv (cli_config junk) = Inr ((cli_config junk)(off_tq := XInt (int n)), [])"
    by (rule parse_tq [OF assms(1-3)])
  have "cli_status k' ((cli_config junk)(off_tq := XInt (int n))) = Inr (False, [])"
    by (simp add: cli_status_def cli_config_def off_anti_thrash_def off_tq_def off_help_def)
  moreover have "cli_tq k ((cli_config junk)(off_tq := XInt (int n))) = Inr (True, [tq_message (int n)])"
    using assms(1) send_ok [OF assms(4-6)] by (simp add: cli_tq_def change_tq_def)
  ultimately have m: "\<exists>help. cli_main junk suffix argv k' k = Inr ([tq_message (int n)], help)"
    using d by (simp add: cli_main_def)
  have "strtol 0 (show_nat n) = \<lparr>st_val = int n, st_rest = [], st_erange = False\<rparr>"
    by (rule strtol0_show_nat) (use assms(1,2) in \<open>simp_all add: LONG_MAX_def\<close>)
  then have "\<exists>s'. process_msg annot cred oob f p (tq_message (int n)) s = Inr s' \<and> s_tq s' = int n
      \<and> list_all (\<lambda>g. g_must_reset_timer (gpu s' g)) (s_contexts s)"
    using set_tq_works [of "show_nat n" "int n" "metrics_inc_msg (msg_code SET_TQ) s"] show_nat_not_dash(2) [of n] assms(2)
      tq_message_ok(2) [OF assms(2)]
    by (simp add: process_msg_def tq_message_def to_int32_id Let_def metrics_inc_msg_def NVSHARE_MSG_TYPE_COUNT_def)
  then show ?thesis using m tq_message_ok(1) [OF assms(2)] by (auto simp: decode_encode_message)
qed

theorem cli_tq_reaches_scheduler_witness:
  "\<exists>m help s'. cli_main False None [''nvsharectl'', ''-T'', show_nat 45] \<lparr>k_connect = [], k_write = [], k_close = True\<rparr>
       \<lparr>k_connect = [(SysOk 3, SysOk 0)], k_write = [WOk 659], k_close = True\<rparr> = Inr ([m], help)
     \<and> process_msg (\<lambda>_ _ _. None) None 0 5 1 (decode_message (encode_message m)) (demo SCHED_MODE_AUTO [] [] [1] 4000) = Inr s'
     \<and> s_tq s' = 45"
  using cli_tq_reaches_scheduler [of 45 "[''nvsharectl'', ''-T'', show_nat 45]" "''nvsharectl''"
      "\<lparr>k_connect = [(SysOk 3, SysOk 0)], k_write = [WOk 659], k_close = True\<rparr>" 3 False None
      "\<lparr>k_connect = [], k_write = [], k_close = True\<rparr>" "\<lambda>_ _ _. None" None 0 5 1 "demo SCHED_MODE_AUTO [] [] [1] 4000"]
  by simp blast



end
